(* ===== verification/Prelude.thy ===== *)
theory Prelude
  imports
    Main
    "HOL-Library.Word"
    "HOL-Library.Char_ord"
    "HOL-Library.List_Lexorder"
    "HOL-Library.Multiset"
begin

text \<open>
  Shared vocabulary of the development: the Go types the models are written over (strings
  as byte strings, byte slices, errors as their message text, times and durations in
  nanoseconds), the order in which Go ranges over a map, and the invariant principle of the
  step relations. Nothing in this theory models a function of the repository; the generic
  lemmas are collected in \<open>go_range\<close> (map iteration) and \<open>bytes\<close> (conversions).
\<close>

named_theorems go_range \<open>facts about iterating over a Go map in an unspecified order\<close>
named_theorems bytes \<open>conversions between Go strings and byte slices\<close>

section \<open>Strings, bytes, errors and time\<close>

text \<open>A Go string is an immutable sequence of bytes; a HOL \<open>char\<close> is one byte.\<close>

type_synonym byte = "8 word"
type_synonym bytes = "byte list"

text \<open>A Go error is carried by the text its \<open>Error\<close> method returns.\<close>

type_synonym error = string

text \<open>Instants and durations in nanoseconds, as \<open>time.Time\<close> and \<open>time.Duration\<close> count them.\<close>

type_synonym time = int

definition second :: int where
  "second = 1000000000"

text \<open>\<open>time.Time.Sub\<close> saturates at the limits of a 64-bit duration.\<close>

definition time_sub :: "time \<Rightarrow> time \<Rightarrow> int" where
  "time_sub t u = max (- (2 ^ 63)) (min (2 ^ 63 - 1) (t - u))"

lemma time_sub_gt: "d < 2 ^ 63 - 1 \<Longrightarrow> - (2 ^ 63) \<le> d \<Longrightarrow> d < time_sub t u \<longleftrightarrow> d < t - u"
  by (auto simp: time_sub_def)

definition byte_of_char :: "char \<Rightarrow> byte" where
  "byte_of_char c = word_of_nat (of_char c)"

definition char_of_byte :: "byte \<Rightarrow> char" where
  "char_of_byte b = char_of (unat b)"

text \<open>The conversions \<open>[]byte(s)\<close> and \<open>string(b)\<close>.\<close>

definition bytes_of_string :: "string \<Rightarrow> bytes" where
  "bytes_of_string s = map byte_of_char s"

definition string_of_bytes :: "bytes \<Rightarrow> string" where
  "string_of_bytes b = map char_of_byte b"

lemma char_of_byte_of_char [simp, bytes]: "char_of_byte (byte_of_char c) = c"
proof -
  have "(of_char c :: nat) < 256" by simp
  then have "unat (word_of_nat (of_char c) :: byte) = of_char c"
    by (simp add: unsigned_of_nat take_bit_nat_eq_self)
  then show ?thesis by (simp add: char_of_byte_def byte_of_char_def)
qed

lemma byte_of_char_of_byte [simp, bytes]: "byte_of_char (char_of_byte b) = b"
proof -
  have "unat b < 256" using unsigned_less [of b] by simp
  then show ?thesis by (simp add: char_of_byte_def byte_of_char_def)
qed

lemma string_of_bytes_of_string [simp, bytes]: "string_of_bytes (bytes_of_string s) = s"
  by (simp add: string_of_bytes_def bytes_of_string_def o_def)

lemma bytes_of_string_of_bytes [simp, bytes]: "bytes_of_string (string_of_bytes b) = b"
  by (simp add: string_of_bytes_def bytes_of_string_def o_def)

lemma length_bytes_of_string [simp, bytes]: "length (bytes_of_string s) = length s"
  by (simp add: bytes_of_string_def)

lemma length_string_of_bytes [simp, bytes]: "length (string_of_bytes b) = length b"
  by (simp add: string_of_bytes_def)

lemma bytes_of_string_inj [simp]: "bytes_of_string s = bytes_of_string t \<longleftrightarrow> s = t"
  by (metis string_of_bytes_of_string)

section \<open>Ranging over a Go map\<close>

text \<open>
  \<open>for k, v := range m\<close> visits every key exactly once, in an order the language leaves
  open and the runtime randomises. A model takes the order of each such loop as a list of
  keys; \<open>is_order ks m\<close> says that \<open>ks\<close> is an order the runtime can choose for \<open>m\<close>.
\<close>

definition is_order :: "'k list \<Rightarrow> ('k \<rightharpoonup> 'v) \<Rightarrow> bool" where
  "is_order ks m \<longleftrightarrow> distinct ks \<and> set ks = dom m"

definition range_values :: "'k list \<Rightarrow> ('k \<rightharpoonup> 'v) \<Rightarrow> 'v list" where
  "range_values ks m = List.map_filter m ks"

lemma is_order_finite [go_range]: "is_order ks m \<Longrightarrow> finite (dom m)"
  by (metis is_order_def List.finite_set)

lemma is_order_length [go_range]: "is_order ks m \<Longrightarrow> length ks = card (dom m)"
  by (metis is_order_def distinct_card)

lemma is_order_mem [go_range]: "is_order ks m \<Longrightarrow> k \<in> set ks \<longleftrightarrow> (\<exists>v. m k = Some v)"
  by (auto simp: is_order_def)

lemma is_order_exists: "finite (dom m) \<Longrightarrow> \<exists>ks. is_order ks m"
  by (metis is_order_def finite_distinct_list)

lemma range_values_Nil [simp]: "range_values [] m = []"
  by (simp add: range_values_def)

lemma range_values_Cons [simp]:
  "range_values (k # ks) m =
     (case m k of None \<Rightarrow> range_values ks m | Some v \<Rightarrow> v # range_values ks m)"
  by (simp add: range_values_def map_filter_simps split: option.split)

lemma set_range_values: "set (range_values ks m) = {v. \<exists>k\<in>set ks. m k = Some v}"
  by (induction ks) (auto split: option.splits)

lemma set_range_values_order [go_range]: "is_order ks m \<Longrightarrow> set (range_values ks m) = ran m"
  by (auto simp: set_range_values is_order_mem ran_def)

lemma length_range_values [go_range]:
  assumes "is_order ks m" shows "length (range_values ks m) = card (dom m)"
proof -
  have "set ks' \<subseteq> dom m \<Longrightarrow> length (range_values ks' m) = length ks'" for ks'
    by (induction ks') auto
  with assms show ?thesis by (simp add: is_order_def is_order_length)
qed

text \<open>A loop over a map that stops at the first entry satisfying a test.\<close>

definition find_key :: "('k \<Rightarrow> 'v \<Rightarrow> bool) \<Rightarrow> 'k list \<Rightarrow> ('k \<rightharpoonup> 'v) \<Rightarrow> 'k option" where
  "find_key P ks m = find (\<lambda>k. case m k of None \<Rightarrow> False | Some v \<Rightarrow> P k v) ks"

lemma find_key_None [go_range]:
  "is_order ks m \<Longrightarrow> find_key P ks m = None \<longleftrightarrow> (\<forall>k v. m k = Some v \<longrightarrow> \<not> P k v)"
  by (auto simp: find_key_def find_None_iff is_order_mem split: option.splits)

lemma find_key_Some:
  assumes "find_key P ks m = Some k"
  obtains v where "k \<in> set ks" "m k = Some v" "P k v"
proof -
  from assms have "k \<in> set ks" "case m k of None \<Rightarrow> False | Some v \<Rightarrow> P k v"
    unfolding find_key_def find_Some_iff by auto
  then show ?thesis by (cases "m k") (auto intro: that)
qed

lemma find_key_restrict: "(\<And>k v. m k = Some v \<Longrightarrow> P k v = Q k v) \<Longrightarrow> find_key P ks m = find_key Q ks m"
  by (auto simp: find_key_def intro!: arg_cong2 [where f = find] split: option.split)

section \<open>Reachable states\<close>

text \<open>The states a step relation reaches from its initial states.\<close>

inductive reach :: "('s \<Rightarrow> bool) \<Rightarrow> ('s \<Rightarrow> 's \<Rightarrow> bool) \<Rightarrow> 's \<Rightarrow> bool" for init step where
  reach_init: "init s \<Longrightarrow> reach init step s"
| reach_step: "reach init step s \<Longrightarrow> step s t \<Longrightarrow> reach init step t"

text \<open>
  The contract of a state machine with an invariant. Each stateful component interprets it
  on its own initial states, step relation and invariant, and takes from it that every
  reachable state satisfies the invariant.
\<close>

locale invariant_machine =
  fixes init :: "'s \<Rightarrow> bool"
    and step :: "'s \<Rightarrow> 's \<Rightarrow> bool"
    and inv :: "'s \<Rightarrow> bool"
  assumes inv_init: "init s \<Longrightarrow> inv s"
    and inv_step: "inv s \<Longrightarrow> step s t \<Longrightarrow> inv t"
begin

lemma reach_inv: "reach init step s \<Longrightarrow> inv s"
  by (induction rule: reach.induct) (auto intro: inv_init inv_step)

lemma run_inv: "inv s \<Longrightarrow> step\<^sup>*\<^sup>* s t \<Longrightarrow> inv t"
  by (rotate_tac, induction rule: rtranclp.induct) (auto intro: inv_step)

end

text \<open>The run of a labelled machine over a list of events, oldest first.\<close>

inductive trace :: "('e \<Rightarrow> 's \<Rightarrow> 's \<Rightarrow> bool) \<Rightarrow> 's \<Rightarrow> 'e list \<Rightarrow> 's \<Rightarrow> bool" for step s0 where
  trace_nil: "trace step s0 [] s0"
| trace_snoc: "trace step s0 es s \<Longrightarrow> step e s t \<Longrightarrow> trace step s0 (es @ [e]) t"

lemma trace_append:
  "trace step s0 (es @ fs) s \<longleftrightarrow> (\<exists>m. trace step s0 es m \<and> trace step m fs s)"
proof (induction fs arbitrary: s rule: rev_induct)
  case Nil
  have "trace step m [] s \<longleftrightarrow> s = m" for m by (subst trace.simps) auto
  then show ?case by auto
next
  case (snoc f fs)
  have "trace step s0 (hs @ [f]) s \<longleftrightarrow> (\<exists>m. trace step s0 hs m \<and> step f m s)" for s0 hs
    by (subst trace.simps) auto
  from this [of s0 "es @ fs"] this [of _ fs] snoc.IH show ?case by auto
qed

lemma trace_single: "trace step s0 [e] s \<longleftrightarrow> step e s0 s"
proof -
  have "trace step s0 [] m \<longleftrightarrow> m = s0" for m by (subst trace.simps) auto
  then show ?thesis by (subst trace.simps) auto
qed

lemma trace_invariant:
  assumes "trace step s0 es s" "I s0" "\<And>e s t. e \<in> set es \<Longrightarrow> step e s t \<Longrightarrow> I s \<Longrightarrow> I t"
  shows "I s"
  using assms by (induction rule: trace.induct) auto

end
