(* ===== verification/Peer.thy ===== *)
theory Peer
  imports Prelude
begin

text \<open>
  The peer registry of one node: \<open>internal/peer/peer_state.go\<close>,
  \<open>internal/peer/peer_registry.go\<close> and the constants of \<open>internal/utils/constants.go\<close>.

  A \<open>Registry\<close> is the struct of the same name: the map from peer id to record, the
  capacity, the own id, and the Redis client. The client is a service outside the program:
  \<open>reg_rdb\<close> is \<open>None\<close> where the Go field is nil and otherwise the log of the commands the
  registry has sent, in order (the code ignores their replies). Every exported method takes
  the registry lock for its whole body, so each is one atomic function here. A method that
  ranges over the map takes the order of the loop as an argument; a method that reads the
  clock takes the instant read.
\<close>

section \<open>Constants and data\<close>

text \<open>\<open>internal/utils/constants.go\<close>.\<close>

definition MaxNetworkPeers :: nat where
  "MaxNetworkPeers = 20"

definition DefaultGRPCTimeoutSec :: int where
  "DefaultGRPCTimeoutSec = 5"

definition DefaultHeartbeatSec :: int where
  "DefaultHeartbeatSec = 3"

definition BootstrapPollSec :: int where
  "BootstrapPollSec = 5"

text \<open>\<open>State\<close> is a Go string type with three named values; any other string can arrive.\<close>

type_synonym State = string

abbreviation StateActive :: State where
  "StateActive \<equiv> ''active''"

abbreviation StateInactive :: State where
  "StateInactive \<equiv> ''inactive''"

abbreviation StateLeft :: State where
  "StateLeft \<equiv> ''left''"

record Record =
  rec_ID :: string
  rec_GrpcAddr :: string
  rec_HttpAddr :: string
  rec_State :: State
  rec_LastSeen :: time
  rec_JoinedAt :: time

text \<open>
  The Redis commands the registry sends: \<open>DEL key\<close>, and \<open>SET key record\<close> with an expiry in
  seconds. The stored value is the record before \<open>json.Marshal\<close>.
\<close>

datatype redis_cmd = RDel string | RSet string Record int

record Registry =
  reg_self :: string
  reg_peers :: "string \<rightharpoonup> Record"
  reg_max :: nat
  reg_rdb :: "redis_cmd list option"

definition redis_key :: "string \<Rightarrow> string" where
  "redis_key pid = ''peers:'' @ pid"

text \<open>\<open>if r.rdb != nil { r.rdb.<command> }\<close>\<close>

definition rdb_do :: "redis_cmd \<Rightarrow> Registry \<Rightarrow> Registry" where
  "rdb_do c r = r\<lparr>reg_rdb := map_option (\<lambda>log. log @ [c]) (reg_rdb r)\<rparr>"

section \<open>Operations\<close>

text \<open>\<open>redis\<close> says whether \<open>REDIS_URL\<close> is set and parses.\<close>

definition NewRegistry :: "bool \<Rightarrow> string \<Rightarrow> Registry" where
  "NewRegistry redis selfID =
     \<lparr>reg_self = selfID, reg_peers = Map.empty, reg_max = MaxNetworkPeers,
      reg_rdb = (if redis then Some [] else None)\<rparr>"

definition SelfID :: "Registry \<Rightarrow> string" where
  "SelfID r = reg_self r"

definition publishRedis :: "Record \<Rightarrow> Registry \<Rightarrow> Registry" where
  "publishRedis rec r = rdb_do (RSet (redis_key (rec_ID rec)) rec 60) r"

definition same_address :: "Record \<Rightarrow> Record \<Rightarrow> bool" where
  "same_address existing rec \<longleftrightarrow>
     rec_GrpcAddr existing = rec_GrpcAddr rec \<or>
     (rec_HttpAddr existing \<noteq> '''' \<and> rec_HttpAddr existing = rec_HttpAddr rec)"

text \<open>The first loop of \<open>Upsert\<close>: drop the first entry with another id and the same address.\<close>

definition prune_stale :: "string list \<Rightarrow> Record \<Rightarrow> Registry \<Rightarrow> Registry" where
  "prune_stale ks rec r =
     (case find_key (\<lambda>pid existing. pid \<noteq> rec_ID rec \<and> same_address existing rec) ks (reg_peers r) of
        None \<Rightarrow> r
      | Some pid \<Rightarrow> rdb_do (RDel (redis_key pid)) (r\<lparr>reg_peers := (reg_peers r)(pid := None)\<rparr>))"

text \<open>The second loop: the id of the first \<open>Left\<close> peer, or the empty string.\<close>

definition evict_candidate :: "string list \<Rightarrow> Registry \<Rightarrow> string" where
  "evict_candidate ks r =
     (case find_key (\<lambda>pid p. rec_State p = StateLeft) ks (reg_peers r) of
        None \<Rightarrow> '''' | Some pid \<Rightarrow> pid)"

definition refresh_record :: "Record \<Rightarrow> Record \<Rightarrow> Record" where
  "refresh_record rec existing =
     existing\<lparr>rec_GrpcAddr := rec_GrpcAddr rec, rec_HttpAddr := rec_HttpAddr rec,
       rec_State := (if rec_State rec \<noteq> '''' then rec_State rec else rec_State existing),
       rec_LastSeen := rec_LastSeen rec\<rparr>"

definition insert_new :: "time \<Rightarrow> Record \<Rightarrow> Registry \<Rightarrow> Registry" where
  "insert_new now rec r =
     (let rec' = rec\<lparr>rec_JoinedAt := now\<rparr>
      in publishRedis rec' (r\<lparr>reg_peers := (reg_peers r)(rec_ID rec \<mapsto> rec')\<rparr>))"

text \<open>
  \<open>Upsert\<close> takes a pointer, nil as \<open>None\<close>. \<open>ks\<close> and \<open>ks'\<close> are the orders of its two loops,
  \<open>now\<close> the clock at its end.
\<close>

definition Upsert ::
  "string list \<Rightarrow> string list \<Rightarrow> time \<Rightarrow> Record option \<Rightarrow> Registry \<Rightarrow> bool \<times> Registry" where
  "Upsert ks ks' now recp r0 =
     (case recp of
        None \<Rightarrow> (False, r0)
      | Some rec \<Rightarrow>
          if rec_ID rec = '''' then (False, r0)
          else
            let r = prune_stale ks rec r0
            in case reg_peers r (rec_ID rec) of
                 Some existing \<Rightarrow>
                   let existing' = refresh_record rec existing
                   in (True, publishRedis existing'
                         (r\<lparr>reg_peers := (reg_peers r)(rec_ID rec \<mapsto> existing')\<rparr>))
               | None \<Rightarrow>
                   if reg_max r \<le> card (dom (reg_peers r))
                   then
                     let evictID = evict_candidate ks' r
                     in if evictID = '''' then (False, r)
                        else (True, insert_new now rec
                                (rdb_do (RDel (redis_key evictID))
                                   (r\<lparr>reg_peers := (reg_peers r)(evictID := None)\<rparr>)))
                   else (True, insert_new now rec r))"

definition Get :: "string \<Rightarrow> Registry \<Rightarrow> Record option" where
  "Get pid r = reg_peers r pid"

definition MarkState :: "string \<Rightarrow> State \<Rightarrow> Registry \<Rightarrow> Registry" where
  "MarkState pid s r =
     (case reg_peers r pid of
        None \<Rightarrow> r
      | Some p \<Rightarrow>
          let p' = p\<lparr>rec_State := s\<rparr>;
              r' = publishRedis p' (r\<lparr>reg_peers := (reg_peers r)(pid \<mapsto> p')\<rparr>)
          in if s = StateLeft then rdb_do (RDel (redis_key pid)) r' else r')"

definition Touch :: "time \<Rightarrow> string \<Rightarrow> Registry \<Rightarrow> Registry" where
  "Touch now pid r =
     (case reg_peers r pid of
        None \<Rightarrow> r
      | Some p \<Rightarrow>
          let p1 = p\<lparr>rec_LastSeen := now\<rparr>;
              p2 = (if rec_State p1 = StateInactive then p1\<lparr>rec_State := StateActive\<rparr> else p1)
          in publishRedis p2 (r\<lparr>reg_peers := (reg_peers r)(pid \<mapsto> p2)\<rparr>))"

definition Remove :: "string \<Rightarrow> Registry \<Rightarrow> Registry" where
  "Remove pid r = rdb_do (RDel (redis_key pid)) (r\<lparr>reg_peers := (reg_peers r)(pid := None)\<rparr>)"

definition Snapshot :: "string list \<Rightarrow> Registry \<Rightarrow> Record list" where
  "Snapshot ks r = range_values ks (reg_peers r)"

definition ActiveCount :: "string list \<Rightarrow> Registry \<Rightarrow> nat" where
  "ActiveCount ks r =
     foldl (\<lambda>n p. if rec_State p = StateActive then n + 1 else n) 0 (range_values ks (reg_peers r))"

text \<open>
  One iteration of the Redis loop: a record read back from Redis is merged under the lock.
  \<open>sync_tick\<close> is one tick of the timer over the replies for the listed keys; a key whose
  read or whose decoding fails is skipped.
\<close>

definition sync_record :: "Record \<Rightarrow> Registry \<Rightarrow> Registry" where
  "sync_record rec r =
     (case reg_peers r (rec_ID rec) of
        Some existing \<Rightarrow>
          if rec_LastSeen existing < rec_LastSeen rec
          then r\<lparr>reg_peers := (reg_peers r)(rec_ID rec \<mapsto>
                 existing\<lparr>rec_GrpcAddr := rec_GrpcAddr rec, rec_HttpAddr := rec_HttpAddr rec,
                   rec_State := rec_State rec, rec_LastSeen := rec_LastSeen rec\<rparr>)\<rparr>
          else r
      | None \<Rightarrow>
          if card (dom (reg_peers r)) < reg_max r
          then r\<lparr>reg_peers := (reg_peers r)(rec_ID rec \<mapsto> rec)\<rparr>
          else r)"

definition sync_tick :: "Record option list \<Rightarrow> Registry \<Rightarrow> Registry" where
  "sync_tick replies r =
     (if reg_rdb r = None then r
      else foldl (\<lambda>r reply. case reply of None \<Rightarrow> r | Some rec \<Rightarrow> sync_record rec r) r replies)"

section \<open>What each operation does to the map\<close>

text \<open>
  The frame facts of the operations (the fields they never write) and their effect on the
  peer map as one equation each. The collection \<open>reg\<close> carries the proofs below.
\<close>

named_theorems reg \<open>effects and frames of the registry operations\<close>

lemma rdb_do_fields [simp]:
  "reg_self (rdb_do c r) = reg_self r" "reg_peers (rdb_do c r) = reg_peers r"
  "reg_max (rdb_do c r) = reg_max r"
  by (simp_all add: rdb_do_def)

lemma publishRedis_fields [simp]:
  "reg_self (publishRedis p r) = reg_self r" "reg_peers (publishRedis p r) = reg_peers r"
  "reg_max (publishRedis p r) = reg_max r"
  by (simp_all add: publishRedis_def)

lemma insert_new_fields [simp]:
  "reg_self (insert_new now rec r) = reg_self r" "reg_max (insert_new now rec r) = reg_max r"
  "reg_peers (insert_new now rec r) = (reg_peers r)(rec_ID rec \<mapsto> rec\<lparr>rec_JoinedAt := now\<rparr>)"
  by (simp_all add: insert_new_def Let_def)

lemma prune_stale_frame [simp]:
  "reg_self (prune_stale ks rec r) = reg_self r" "reg_max (prune_stale ks rec r) = reg_max r"
  by (simp_all add: prune_stale_def split: option.split)

lemma prune_stale_keeps [simp]: "reg_peers (prune_stale ks rec r) (rec_ID rec) = reg_peers r (rec_ID rec)"
  by (auto simp: prune_stale_def elim!: find_key_Some split: option.split)

text \<open>Pruning removes at most one entry, and only one with another id and the same address.\<close>

lemma prune_stale_cases:
  obtains "prune_stale ks rec r = r"
      "find_key (\<lambda>pid e. pid \<noteq> rec_ID rec \<and> same_address e rec) ks (reg_peers r) = None"
  | pid e where "reg_peers r pid = Some e" "pid \<noteq> rec_ID rec" "same_address e rec" "pid \<in> set ks"
      "reg_peers (prune_stale ks rec r) = (reg_peers r)(pid := None)"
proof (cases "find_key (\<lambda>pid e. pid \<noteq> rec_ID rec \<and> same_address e rec) ks (reg_peers r)")
  case None
  then show ?thesis using that(1) by (simp add: prune_stale_def)
next
  case (Some pid)
  then show ?thesis using that(2) by (auto simp: prune_stale_def elim!: find_key_Some)
qed

lemma evict_candidate_Some:
  "evict_candidate ks r = pid \<Longrightarrow> pid \<noteq> '''' \<Longrightarrow>
   \<exists>p. reg_peers r pid = Some p \<and> rec_State p = StateLeft"
  by (auto simp: evict_candidate_def elim!: find_key_Some split: option.splits)

lemma MarkState_peers [reg]:
  "reg_peers (MarkState pid s r) =
     (reg_peers r)(pid := map_option (\<lambda>p. p\<lparr>rec_State := s\<rparr>) (reg_peers r pid))"
  by (auto simp: MarkState_def Let_def split: option.split)

lemma MarkState_frame [simp]:
  "reg_self (MarkState pid s r) = reg_self r" "reg_max (MarkState pid s r) = reg_max r"
  by (simp_all add: MarkState_def Let_def split: option.split)

definition touch_record :: "time \<Rightarrow> Record \<Rightarrow> Record" where
  "touch_record now p =
     p\<lparr>rec_LastSeen := now,
       rec_State := (if rec_State p = StateInactive then StateActive else rec_State p)\<rparr>"

lemma Touch_peers [reg]:
  "reg_peers (Touch now pid r) =
     (reg_peers r)(pid := map_option (touch_record now) (reg_peers r pid))"
  by (auto simp: Touch_def Let_def touch_record_def split: option.split)

lemma Touch_frame [simp]:
  "reg_self (Touch now pid r) = reg_self r" "reg_max (Touch now pid r) = reg_max r"
  by (simp_all add: Touch_def Let_def split: option.split)

lemma Remove_peers [reg]: "reg_peers (Remove pid r) = (reg_peers r)(pid := None)"
  by (simp add: Remove_def)

lemma Remove_frame [simp]:
  "reg_self (Remove pid r) = reg_self r" "reg_max (Remove pid r) = reg_max r"
  by (simp_all add: Remove_def)

lemma sync_record_frame [simp]:
  "reg_self (sync_record rec r) = reg_self r" "reg_max (sync_record rec r) = reg_max r"
  "reg_rdb (sync_record rec r) = reg_rdb r"
  by (simp_all add: sync_record_def split: option.split)

lemma NewRegistry_fields [simp]:
  "reg_self (NewRegistry b s) = s" "reg_peers (NewRegistry b s) = Map.empty"
  "reg_max (NewRegistry b s) = MaxNetworkPeers" "reg_rdb (NewRegistry b s) = (if b then Some [] else None)"
  by (simp_all add: NewRegistry_def)

text \<open>The state, address and time a record has after \<open>Upsert\<close> refreshed it.\<close>

lemma refresh_record_fields [simp]:
  "rec_ID (refresh_record rec p) = rec_ID p" "rec_GrpcAddr (refresh_record rec p) = rec_GrpcAddr rec"
  "rec_HttpAddr (refresh_record rec p) = rec_HttpAddr rec"
  "rec_LastSeen (refresh_record rec p) = rec_LastSeen rec"
  "rec_JoinedAt (refresh_record rec p) = rec_JoinedAt p"
  "rec_State (refresh_record rec p) = (if rec_State rec \<noteq> '''' then rec_State rec else rec_State p)"
  by (simp_all add: refresh_record_def)

lemma touch_record_fields [simp]:
  "rec_ID (touch_record now p) = rec_ID p" "rec_GrpcAddr (touch_record now p) = rec_GrpcAddr p"
  "rec_HttpAddr (touch_record now p) = rec_HttpAddr p" "rec_LastSeen (touch_record now p) = now"
  "rec_State (touch_record now p) =
     (if rec_State p = StateInactive then StateActive else rec_State p)"
  by (simp_all add: touch_record_def)

section \<open>The invariant of the registry\<close>

text \<open>
  Every entry is stored under the id in its record, and the map never holds more than the
  configured maximum. Finiteness is the Go map's own.
\<close>

definition reg_wf :: "Registry \<Rightarrow> bool" where
  "reg_wf r \<longleftrightarrow> finite (dom (reg_peers r)) \<and>
     (\<forall>pid p. reg_peers r pid = Some p \<longrightarrow> rec_ID p = pid) \<and>
     card (dom (reg_peers r)) \<le> reg_max r"

lemma reg_wfD:
  assumes "reg_wf r"
  shows "finite (dom (reg_peers r))" "reg_peers r pid = Some p \<Longrightarrow> rec_ID p = pid"
    "card (dom (reg_peers r)) \<le> reg_max r"
  using assms by (auto simp: reg_wf_def)

lemma card_dom_upd_le: "finite (dom m) \<Longrightarrow> card (dom (m(k := None))) \<le> card (dom m)"
  by (rule card_mono) auto

lemma card_dom_drop: "finite (dom m) \<Longrightarrow> m k = Some v \<Longrightarrow> card (dom (m(k := None))) < card (dom m)"
  by (rule psubset_card_mono) auto

lemma card_dom_insert_le: "finite (dom m) \<Longrightarrow> card (dom (m(k \<mapsto> v))) \<le> Suc (card (dom m))"
  by (simp add: card_insert_if)

lemma card_dom_overwrite: "m k = Some v \<Longrightarrow> dom (m(k \<mapsto> w)) = dom m"
  by (auto simp: domI)

lemma reg_wf_drop: "reg_wf r \<Longrightarrow> reg_peers r' = (reg_peers r)(pid := None) \<Longrightarrow> reg_max r' = reg_max r \<Longrightarrow> reg_wf r'"
  using card_dom_upd_le [of "reg_peers r" pid] by (auto simp: reg_wf_def)

lemma reg_wf_overwrite:
  assumes "reg_wf r" "reg_peers r pid = Some p"
    "reg_peers r' = (reg_peers r)(pid \<mapsto> q)" "reg_max r' = reg_max r" "rec_ID q = pid"
  shows "reg_wf r'"
  using assms card_dom_overwrite [of "reg_peers r" pid p q] by (auto simp: reg_wf_def)

lemma reg_wf_add:
  assumes "reg_wf r" "card (dom (reg_peers r)) < reg_max r"
    "reg_peers r' = (reg_peers r)(pid \<mapsto> q)" "reg_max r' = reg_max r" "rec_ID q = pid"
  shows "reg_wf r'"
  using assms card_dom_insert_le [of "reg_peers r" pid q] by (auto simp: reg_wf_def)

lemma reg_wf_same_map: "reg_wf r \<Longrightarrow> reg_peers r' = reg_peers r \<Longrightarrow> reg_max r' = reg_max r \<Longrightarrow> reg_wf r'"
  by (simp add: reg_wf_def)

lemma reg_wf_map_option:
  assumes "reg_wf r" "\<And>p. rec_ID (f p) = rec_ID p"
    "reg_peers r' = (reg_peers r)(pid := map_option f (reg_peers r pid))" "reg_max r' = reg_max r"
  shows "reg_wf r'"
proof (cases "reg_peers r pid")
  case None
  then have "reg_peers r' = reg_peers r" using assms(3) by (auto simp: fun_eq_iff)
  with assms(1,4) show ?thesis by (metis reg_wf_same_map)
next
  case (Some p)
  with assms show ?thesis by (metis option.map(2) reg_wfD(2) reg_wf_overwrite)
qed

lemma reg_wf_prune: "reg_wf r \<Longrightarrow> reg_wf (prune_stale ks rec r)"
  by (rule prune_stale_cases [of ks rec r]) (auto intro: reg_wf_drop)

lemma reg_wf_MarkState: "reg_wf r \<Longrightarrow> reg_wf (MarkState pid s r)"
  by (rule reg_wf_map_option [where f = "\<lambda>p. p\<lparr>rec_State := s\<rparr>"]) (simp_all add: reg)

lemma reg_wf_Touch: "reg_wf r \<Longrightarrow> reg_wf (Touch now pid r)"
  by (rule reg_wf_map_option [where f = "touch_record now"]) (simp_all add: reg)

lemma reg_wf_Remove: "reg_wf r \<Longrightarrow> reg_wf (Remove pid r)"
  by (rule reg_wf_drop) (simp_all add: reg)

lemma reg_wf_sync:
  assumes "reg_wf r" shows "reg_wf (sync_record rec r)"
proof (cases "reg_peers r (rec_ID rec)")
  case None
  with assms show ?thesis by (auto simp: sync_record_def intro: reg_wf_add)
next
  case (Some p)
  then show ?thesis using assms reg_wfD(2) [OF assms Some]
    by (auto simp: sync_record_def intro!: reg_wf_overwrite [OF assms Some])
qed

section \<open>Upsert\<close>

lemma Upsert_nil [simp]: "Upsert ks ks' now None r = (False, r)"
  by (simp add: Upsert_def)

lemma Upsert_no_id [simp]: "rec_ID rec = '''' \<Longrightarrow> Upsert ks ks' now (Some rec) r = (False, r)"
  by (simp add: Upsert_def)

text \<open>The three ways a call with an id ends: refreshed, inserted, refused.\<close>

lemma Upsert_cases:
  assumes "rec_ID rec \<noteq> ''''"
  obtains
    (refresh) p where "reg_peers r (rec_ID rec) = Some p"
      "Upsert ks ks' now (Some rec) r =
         (True, publishRedis (refresh_record rec p)
           ((prune_stale ks rec r)\<lparr>reg_peers :=
              (reg_peers (prune_stale ks rec r))(rec_ID rec \<mapsto> refresh_record rec p)\<rparr>))"
  | (insert) "reg_peers r (rec_ID rec) = None"
      "card (dom (reg_peers (prune_stale ks rec r))) < reg_max r"
      "Upsert ks ks' now (Some rec) r = (True, insert_new now rec (prune_stale ks rec r))"
  | (evict) pid p where "reg_peers r (rec_ID rec) = None"
      "reg_max r \<le> card (dom (reg_peers (prune_stale ks rec r)))"
      "pid \<noteq> ''''" "reg_peers (prune_stale ks rec r) pid = Some p" "rec_State p = StateLeft"
      "Upsert ks ks' now (Some rec) r =
         (True, insert_new now rec (rdb_do (RDel (redis_key pid))
            ((prune_stale ks rec r)\<lparr>reg_peers := (reg_peers (prune_stale ks rec r))(pid := None)\<rparr>)))"
  | (refuse) "reg_peers r (rec_ID rec) = None"
      "reg_max r \<le> card (dom (reg_peers (prune_stale ks rec r)))"
      "evict_candidate ks' (prune_stale ks rec r) = ''''"
      "Upsert ks ks' now (Some rec) r = (False, prune_stale ks rec r)"
proof (cases "reg_peers r (rec_ID rec)")
  case (Some p)
  with assms that(1) show ?thesis by (simp add: Upsert_def Let_def)
next
  case None
  let ?q = "prune_stale ks rec r"
  show ?thesis
  proof (cases "reg_max r \<le> card (dom (reg_peers ?q))")
    case False
    with None assms that(2) show ?thesis by (simp add: Upsert_def Let_def)
  next
    case True
    show ?thesis
    proof (cases "evict_candidate ks' ?q = ''''")
      case True
      with None assms that(4) \<open>reg_max r \<le> _\<close> show ?thesis by (simp add: Upsert_def Let_def)
    next
      case False
      then obtain p where "reg_peers ?q (evict_candidate ks' ?q) = Some p" "rec_State p = StateLeft"
        using evict_candidate_Some by blast
      with None assms False True that(3) show ?thesis by (simp add: Upsert_def Let_def)
    qed
  qed
qed

lemma Upsert_frame [simp]:
  "reg_self (snd (Upsert ks ks' now recp r)) = reg_self r"
  "reg_max (snd (Upsert ks ks' now recp r)) = reg_max r"
proof -
  have "reg_self (snd (Upsert ks ks' now recp r)) = reg_self r \<and>
        reg_max (snd (Upsert ks ks' now recp r)) = reg_max r"
  proof (cases recp)
    case (Some rec)
    then show ?thesis
      by (cases "rec_ID rec = ''''", simp)
        (rule Upsert_cases [of rec r ks ks' now], auto)
  qed simp
  then show "reg_self (snd (Upsert ks ks' now recp r)) = reg_self r"
    "reg_max (snd (Upsert ks ks' now recp r)) = reg_max r" by auto
qed

lemma reg_wf_Upsert:
  assumes wf: "reg_wf r" shows "reg_wf (snd (Upsert ks ks' now recp r))"
proof (cases recp)
  case None
  with wf show ?thesis by simp
next
  case (Some rec)
  let ?q = "prune_stale ks rec r"
  have q: "reg_wf ?q" by (rule reg_wf_prune [OF wf])
  show ?thesis
  proof (cases "rec_ID rec = ''''")
    case True
    with Some wf show ?thesis by simp
  next
    case False
    show ?thesis
    proof (rule Upsert_cases [OF False, of r ks ks' now])
      fix p assume "reg_peers r (rec_ID rec) = Some p"
      then have p: "reg_peers ?q (rec_ID rec) = Some p" by simp
      assume "Upsert ks ks' now (Some rec) r = (True, publishRedis (refresh_record rec p)
           (?q\<lparr>reg_peers := (reg_peers ?q)(rec_ID rec \<mapsto> refresh_record rec p)\<rparr>))"
      with Some show ?thesis
        by (auto intro!: reg_wf_overwrite [OF q p] simp: reg_wfD(2) [OF q p])
    next
      assume "card (dom (reg_peers ?q)) < reg_max r"
        "Upsert ks ks' now (Some rec) r = (True, insert_new now rec ?q)"
      with Some show ?thesis
        by (auto intro!: reg_wf_add [OF q])
    next
      fix pid p
      let ?e = "rdb_do (RDel (redis_key pid)) (?q\<lparr>reg_peers := (reg_peers ?q)(pid := None)\<rparr>)"
      assume "reg_peers ?q pid = Some p"
      then have "card (dom ((reg_peers ?q)(pid := None))) < card (dom (reg_peers ?q))"
        using reg_wfD(1) [OF q] by (rule card_dom_drop [rotated])
      then have "card (dom (reg_peers ?e)) < reg_max ?e" using reg_wfD(3) [OF q] by simp
      moreover have "reg_wf ?e" by (rule reg_wf_drop [OF q]) simp_all
      moreover assume "Upsert ks ks' now (Some rec) r = (True, insert_new now rec ?e)"
      ultimately show ?thesis using Some
        by (auto intro!: reg_wf_add [of ?e])
    next
      assume "Upsert ks ks' now (Some rec) r = (False, ?q)"
      with Some q show ?thesis by simp
    qed
  qed
qed

section \<open>The registry as a state machine\<close>

text \<open>
  The steps of a registry shared by the node's goroutines: each is one locked call, in any
  order and with any arguments, clock readings and map orders. The last rule is one
  iteration of the Redis loop. \<open>reg_local\<close> leaves that rule out.
\<close>

inductive reg_local :: "Registry \<Rightarrow> Registry \<Rightarrow> bool" where
  local_upsert: "is_order ks (reg_peers r) \<Longrightarrow> is_order ks' (reg_peers r) \<Longrightarrow>
     reg_local r (snd (Upsert ks ks' now recp r))"
| local_mark: "reg_local r (MarkState pid s r)"
| local_touch: "reg_local r (Touch now pid r)"
| local_remove: "reg_local r (Remove pid r)"

inductive reg_step :: "Registry \<Rightarrow> Registry \<Rightarrow> bool" where
  step_local: "reg_local r r' \<Longrightarrow> reg_step r r'"
| step_sync: "reg_rdb r \<noteq> None \<Longrightarrow> reg_step r (sync_record rec r)"

definition reg_init :: "Registry \<Rightarrow> bool" where
  "reg_init r \<longleftrightarrow> (\<exists>redis selfID. r = NewRegistry redis selfID)"

inductive_cases reg_localE: "reg_local r r'"
inductive_cases reg_stepE: "reg_step r r'"

lemma reg_wf_local: "reg_wf r \<Longrightarrow> reg_local r r' \<Longrightarrow> reg_wf r'"
  by (auto elim!: reg_localE intro: reg_wf_Upsert reg_wf_MarkState reg_wf_Touch reg_wf_Remove)

lemma reg_local_max: "reg_local r r' \<Longrightarrow> reg_max r' = reg_max r"
  by (auto elim!: reg_localE)

interpretation registry: invariant_machine reg_init reg_step
  "\<lambda>r. reg_wf r \<and> reg_max r = MaxNetworkPeers"
proof unfold_locales
  fix s assume "reg_init s"
  then show "reg_wf s \<and> reg_max s = MaxNetworkPeers" by (auto simp: reg_init_def reg_wf_def)
next
  fix s t assume "reg_wf s \<and> reg_max s = MaxNetworkPeers" "reg_step s t"
  then show "reg_wf t \<and> reg_max t = MaxNetworkPeers"
    by (auto elim!: reg_stepE dest: reg_wf_local reg_local_max intro: reg_wf_sync)
qed

section \<open>Properties of the registry\<close>

text \<open>A refused call found no stale entry, so it changed nothing; and it found no \<open>Left\<close> peer.\<close>

lemma Upsert_refuse_prune:
  assumes wf: "reg_wf r" and full: "reg_max r \<le> card (dom (reg_peers (prune_stale ks rec r)))"
  shows "prune_stale ks rec r = r" "card (dom (reg_peers r)) = reg_max r"
    "find_key (\<lambda>pid e. pid \<noteq> rec_ID rec \<and> same_address e rec) ks (reg_peers r) = None"
proof -
  have "prune_stale ks rec r = r \<and>
        find_key (\<lambda>pid e. pid \<noteq> rec_ID rec \<and> same_address e rec) ks (reg_peers r) = None"
  proof (rule prune_stale_cases [of ks rec r])
    fix pid e assume "reg_peers r pid = Some e"
      "reg_peers (prune_stale ks rec r) = (reg_peers r)(pid := None)"
    then have "card (dom (reg_peers (prune_stale ks rec r))) < card (dom (reg_peers r))"
      using reg_wfD(1) [OF wf] by (simp only: card_dom_drop)
    with full reg_wfD(3) [OF wf] show ?thesis by linarith
  qed simp
  then show "prune_stale ks rec r = r"
    "find_key (\<lambda>pid e. pid \<noteq> rec_ID rec \<and> same_address e rec) ks (reg_peers r) = None"
    "card (dom (reg_peers r)) = reg_max r"
    using full reg_wfD(3) [OF wf] by auto
qed

lemma evict_candidate_none:
  assumes "is_order ks (reg_peers r)" "reg_peers r '''' = None" "evict_candidate ks r = ''''"
    "reg_peers r pid = Some p"
  shows "rec_State p \<noteq> StateLeft"
proof -
  have "find_key (\<lambda>pid p. rec_State p = StateLeft) ks (reg_peers r) = None"
  proof (rule ccontr)
    assume "find_key (\<lambda>pid p. rec_State p = StateLeft) ks (reg_peers r) \<noteq> None"
    then obtain k where k: "find_key (\<lambda>pid p. rec_State p = StateLeft) ks (reg_peers r) = Some k" by blast
    with assms(3) have "k = ''''" by (simp add: evict_candidate_def)
    with k assms(2) show False by (auto elim: find_key_Some)
  qed
  with assms(1,4) show ?thesis by (simp add: find_key_None)
qed

lemma Upsert_refuse_reason:
  assumes wf: "reg_wf r" and ks: "is_order ks (reg_peers r)" and ks': "is_order ks' (reg_peers r)"
    and no_empty: "reg_peers r '''' = None" and has_id: "rec_ID rec \<noteq> ''''"
    and refused: "\<not> fst (Upsert ks ks' now (Some rec) r)"
  shows "reg_peers r (rec_ID rec) = None \<and> card (dom (reg_peers r)) = reg_max r \<and>
    (\<forall>pid p. reg_peers r pid = Some p \<longrightarrow> pid \<noteq> rec_ID rec \<longrightarrow> \<not> same_address p rec) \<and>
    (\<forall>pid p. reg_peers r pid = Some p \<longrightarrow> rec_State p \<noteq> StateLeft) \<and>
    snd (Upsert ks ks' now (Some rec) r) = r"
proof (rule Upsert_cases [OF has_id, of r ks ks' now])
  assume new: "reg_peers r (rec_ID rec) = None"
    and full: "reg_max r \<le> card (dom (reg_peers (prune_stale ks rec r)))"
    and none: "evict_candidate ks' (prune_stale ks rec r) = ''''"
    and ref: "Upsert ks ks' now (Some rec) r = (False, prune_stale ks rec r)"
  note u = Upsert_refuse_prune [OF wf full]
  show ?thesis
    using new ref u(1,2) evict_candidate_none [OF ks' no_empty] none
      find_key_None [OF ks, THEN iffD1, OF u(3)] by auto
qed (use refused in simp_all)

lemma Upsert_accept_reason:
  assumes wf: "reg_wf r" and accepted: "fst (Upsert ks ks' now (Some rec) r)"
  shows "rec_ID rec \<noteq> '''' \<and>
    (reg_peers r (rec_ID rec) \<noteq> None \<or> card (dom (reg_peers r)) < reg_max r \<or>
     (\<exists>pid p. reg_peers r pid = Some p \<and> pid \<noteq> rec_ID rec \<and> same_address p rec) \<or>
     (\<exists>pid p. reg_peers r pid = Some p \<and> rec_State p = StateLeft))"
proof -
  have has_id: "rec_ID rec \<noteq> ''''" using accepted by auto
  show ?thesis
  proof (rule Upsert_cases [OF has_id, of r ks ks' now])
    assume space: "card (dom (reg_peers (prune_stale ks rec r))) < reg_max r"
    have "card (dom (reg_peers r)) < reg_max r \<or>
      (\<exists>pid p. reg_peers r pid = Some p \<and> pid \<noteq> rec_ID rec \<and> same_address p rec)"
      by (rule prune_stale_cases [of ks rec r]) (use space in auto)
    with has_id show ?thesis by auto
  next
    fix pid p
    assume "reg_max r \<le> card (dom (reg_peers (prune_stale ks rec r)))"
      "reg_peers (prune_stale ks rec r) pid = Some p" "rec_State p = StateLeft"
    moreover from this(1) have "prune_stale ks rec r = r" by (rule Upsert_refuse_prune(1) [OF wf])
    ultimately show ?thesis using has_id by auto
  qed (use accepted has_id in auto)
qed

text \<open>
  C20. Exactly when the registry accepts a record: its id is not empty and the peer is known,
  or there is a free slot, or an entry with the same address is there to prune, or a \<open>Left\<close>
  peer is there to evict. A refused call leaves the registry as it was.
\<close>

theorem Upsert_accepts_iff:
  assumes "reg_wf r" "is_order ks (reg_peers r)" "is_order ks' (reg_peers r)"
    and "reg_peers r '''' = None"
  shows "(fst (Upsert ks ks' now (Some rec) r) \<longleftrightarrow>
      rec_ID rec \<noteq> '''' \<and>
      (reg_peers r (rec_ID rec) \<noteq> None \<or> card (dom (reg_peers r)) < reg_max r \<or>
       (\<exists>pid p. reg_peers r pid = Some p \<and> pid \<noteq> rec_ID rec \<and> same_address p rec) \<or>
       (\<exists>pid p. reg_peers r pid = Some p \<and> rec_State p = StateLeft))) \<and>
    (fst (Upsert ks ks' now (Some rec) r) \<or> snd (Upsert ks ks' now (Some rec) r) = r)"
proof (cases "fst (Upsert ks ks' now (Some rec) r)")
  case True
  with Upsert_accept_reason [OF assms(1) True] show ?thesis by simp
next
  case False
  show ?thesis
  proof (cases "rec_ID rec = ''''")
    case no_id: False
    with Upsert_refuse_reason [OF assms no_id False] False show ?thesis by auto
  qed simp
qed

text \<open>A registry with its own record in it, and a record of another peer.\<close>

definition ex_self :: Record where
  "ex_self = \<lparr>rec_ID = ''a'', rec_GrpcAddr = ''h:1'', rec_HttpAddr = ''h:2'',
     rec_State = StateActive, rec_LastSeen = 0, rec_JoinedAt = 0\<rparr>"

definition ex_peer :: Record where
  "ex_peer = \<lparr>rec_ID = ''b'', rec_GrpcAddr = ''i:1'', rec_HttpAddr = ''i:2'',
     rec_State = StateActive, rec_LastSeen = 7, rec_JoinedAt = 0\<rparr>"

definition ex_reg :: "nat \<Rightarrow> Registry" where
  "ex_reg n = \<lparr>reg_self = ''a'', reg_peers = [''a'' \<mapsto> ex_self], reg_max = n, reg_rdb = Some []\<rparr>"

lemma ex_self_fields [simp]:
  "rec_ID ex_self = ''a''" "rec_GrpcAddr ex_self = ''h:1''" "rec_HttpAddr ex_self = ''h:2''"
  "rec_State ex_self = StateActive" "rec_LastSeen ex_self = 0" "rec_JoinedAt ex_self = 0"
  by (simp_all add: ex_self_def)

lemma ex_peer_fields [simp]:
  "rec_ID ex_peer = ''b''" "rec_GrpcAddr ex_peer = ''i:1''" "rec_HttpAddr ex_peer = ''i:2''"
  "rec_State ex_peer = StateActive" "rec_LastSeen ex_peer = 7" "rec_JoinedAt ex_peer = 0"
  by (simp_all add: ex_peer_def)

lemma ex_reg_fields [simp]:
  "reg_self (ex_reg n) = ''a''" "reg_peers (ex_reg n) = [''a'' \<mapsto> ex_self]"
  "reg_max (ex_reg n) = n" "reg_rdb (ex_reg n) = Some []"
  by (simp_all add: ex_reg_def)

lemma ex_reg_wf [simp]: "0 < n \<Longrightarrow> reg_wf (ex_reg n)"
  by (auto simp: reg_wf_def)

lemma ex_reg_order [simp]: "is_order [''a''] [''a'' \<mapsto> ex_self]"
  by (auto simp: is_order_def)

theorem Upsert_accepts_iff_witness:
  "\<not> fst (Upsert [''a''] [''a''] 9 (Some ex_peer) (ex_reg 1)) \<and>
   snd (Upsert [''a''] [''a''] 9 (Some ex_peer) (ex_reg 1)) = ex_reg 1"
  using Upsert_accepts_iff [of "ex_reg 1" "[''a'']" "[''a'']" 9 ex_peer]
  by (auto simp: same_address_def split: if_splits)

text \<open>
  In every state the registry reaches by its locked calls and the Redis loop, in any
  interleaving, it holds at most 20 peers, each under its own id.
\<close>

theorem registry_bounded:
  assumes "reach reg_init reg_step r"
  shows "finite (dom (reg_peers r)) \<and> card (dom (reg_peers r)) \<le> 20 \<and>
    (\<forall>pid p. reg_peers r pid = Some p \<longrightarrow> rec_ID p = pid)"
  using registry.reach_inv [OF assms] by (auto simp: reg_wf_def MaxNetworkPeers_def)

theorem registry_bounded_witness:
  "card (dom (reg_peers (snd (Upsert [] [] 9 (Some ex_peer) (NewRegistry True ''a''))))) \<le> 20"
proof -
  have "reach reg_init reg_step (NewRegistry True ''a'')"
    by (rule reach_init) (auto simp: reg_init_def)
  then have "reach reg_init reg_step (snd (Upsert [] [] 9 (Some ex_peer) (NewRegistry True ''a'')))"
    by (rule reach_step) (auto intro!: step_local local_upsert simp: is_order_def)
  from registry_bounded [OF this] show ?thesis by simp
qed

text \<open>
  What an accepted call did. \<open>upsert_stored\<close> relates the new entry to the old one;
  \<open>upsert_dropped\<close> are the other ids that lost their entry.
\<close>

definition upsert_stored :: "time \<Rightarrow> Record \<Rightarrow> Record option \<Rightarrow> Record" where
  "upsert_stored now rec old =
     (case old of None \<Rightarrow> rec\<lparr>rec_JoinedAt := now\<rparr> | Some p \<Rightarrow> refresh_record rec p)"

definition upsert_dropped :: "Record \<Rightarrow> Registry \<Rightarrow> Registry \<Rightarrow> string set" where
  "upsert_dropped rec r r' = {pid. pid \<noteq> rec_ID rec \<and> reg_peers r pid \<noteq> None \<and> reg_peers r' pid = None}"

lemma Upsert_accepted_shape:
  assumes wf: "reg_wf r" and acc: "fst (Upsert ks ks' now (Some rec) r)"
  obtains (keep) "reg_peers (snd (Upsert ks ks' now (Some rec) r)) =
        (reg_peers r)(rec_ID rec \<mapsto> upsert_stored now rec (reg_peers r (rec_ID rec)))"
  | (drop) pid p where "reg_peers r pid = Some p" "pid \<noteq> rec_ID rec"
      "same_address p rec \<or>
       rec_State p = StateLeft \<and> reg_peers r (rec_ID rec) = None \<and> card (dom (reg_peers r)) = reg_max r"
      "reg_peers (snd (Upsert ks ks' now (Some rec) r)) =
        (reg_peers r)(pid := None, rec_ID rec \<mapsto> upsert_stored now rec (reg_peers r (rec_ID rec)))"
proof -
  let ?q = "prune_stale ks rec r"
  have has_id: "rec_ID rec \<noteq> ''''" using acc by auto
  have pruned: thesis
    if eq: "reg_peers (snd (Upsert ks ks' now (Some rec) r)) =
        (reg_peers ?q)(rec_ID rec \<mapsto> upsert_stored now rec (reg_peers r (rec_ID rec)))"
    by (rule prune_stale_cases [of ks rec r]) (use eq keep drop in auto)
  show thesis
  proof (rule Upsert_cases [OF has_id, of r ks ks' now])
    fix pid p
    assume new: "reg_peers r (rec_ID rec) = None"
      and full: "reg_max r \<le> card (dom (reg_peers ?q))"
      and p: "reg_peers ?q pid = Some p" "rec_State p = StateLeft"
      and eq: "Upsert ks ks' now (Some rec) r = (True, insert_new now rec (rdb_do (RDel (redis_key pid))
            (?q\<lparr>reg_peers := (reg_peers ?q)(pid := None)\<rparr>)))"
    note u = Upsert_refuse_prune [OF wf full]
    from p(1) u(1) have "reg_peers r pid = Some p" by simp
    with new p(2) eq u show thesis by (intro drop [of pid p]) (auto simp: upsert_stored_def)
  qed (use acc in \<open>auto intro!: pruned simp: upsert_stored_def\<close>)
qed

text \<open>
  An accepted call stores the record under its id (a new one with the time of joining, a
  known one with the new addresses, state and time but its old joining time), drops at most
  one other entry, only one with the same address or, when the registry is full, one that
  has \<open>Left\<close>, and leaves every other entry as it was.
\<close>

theorem Upsert_effect:
  assumes wf: "reg_wf r" and acc: "fst (Upsert ks ks' now (Some rec) r)"
    and r': "r' = snd (Upsert ks ks' now (Some rec) r)"
  shows "reg_peers r' (rec_ID rec) = Some (upsert_stored now rec (reg_peers r (rec_ID rec))) \<and>
    card (upsert_dropped rec r r') \<le> 1 \<and>
    (\<forall>pid. pid \<in> upsert_dropped rec r r' \<longrightarrow>
       (\<exists>p. reg_peers r pid = Some p \<and>
         (same_address p rec \<or> rec_State p = StateLeft \<and> card (dom (reg_peers r)) = reg_max r))) \<and>
    (\<forall>pid. pid \<noteq> rec_ID rec \<longrightarrow> pid \<notin> upsert_dropped rec r r' \<longrightarrow> reg_peers r' pid = reg_peers r pid)"
proof (rule Upsert_accepted_shape [OF wf acc])
  assume "reg_peers (snd (Upsert ks ks' now (Some rec) r)) =
        (reg_peers r)(rec_ID rec \<mapsto> upsert_stored now rec (reg_peers r (rec_ID rec)))"
  moreover from this have "upsert_dropped rec r r' = {}" by (auto simp: upsert_dropped_def r')
  ultimately show ?thesis using r' by simp
next
  fix pid p
  assume p: "reg_peers r pid = Some p" "pid \<noteq> rec_ID rec"
    and why: "same_address p rec \<or>
       rec_State p = StateLeft \<and> reg_peers r (rec_ID rec) = None \<and> card (dom (reg_peers r)) = reg_max r"
    and eq: "reg_peers (snd (Upsert ks ks' now (Some rec) r)) =
        (reg_peers r)(pid := None, rec_ID rec \<mapsto> upsert_stored now rec (reg_peers r (rec_ID rec)))"
  from eq p have "upsert_dropped rec r r' = {pid}" by (auto simp: upsert_dropped_def r')
  with p why eq r' show ?thesis by auto
qed

theorem Upsert_effect_witness:
  "reg_peers (snd (Upsert [''a''] [''a''] 9 (Some ex_peer) (ex_reg 2))) ''b'' =
     Some (ex_peer\<lparr>rec_JoinedAt := 9\<rparr>)"
proof -
  have "fst (Upsert [''a''] [''a''] 9 (Some ex_peer) (ex_reg 2))"
    by (simp add: Upsert_def prune_stale_def find_key_def same_address_def Let_def)
  from Upsert_effect [OF _ this refl] show ?thesis by (simp add: upsert_stored_def)
qed

text \<open>
  Pruning compares addresses only, so it does not spare the node's own entry: a record of
  another peer that gives the own gRPC address removes the own entry.
\<close>

text \<open>
  C35. A record of another peer with the node's own gRPC address is accepted and deletes the
  node's own entry, when no other entry has that address.
\<close>

theorem Upsert_drops_own_entry:
  assumes wf: "reg_wf r" and ks: "is_order ks (reg_peers r)"
    and own: "reg_peers r (reg_self r) = Some p"
    and other: "rec_ID rec \<noteq> ''''" "rec_ID rec \<noteq> reg_self r" "rec_GrpcAddr rec = rec_GrpcAddr p"
    and alone: "\<And>pid e. reg_peers r pid = Some e \<Longrightarrow> pid \<noteq> rec_ID rec \<Longrightarrow> same_address e rec \<Longrightarrow> pid = reg_self r"
  shows "fst (Upsert ks ks' now (Some rec) r) \<and>
    reg_peers (snd (Upsert ks ks' now (Some rec) r)) (reg_self r) = None"
proof -
  have match: "reg_self r \<noteq> rec_ID rec \<and> same_address p rec"
    using other by (auto simp: same_address_def)
  have pruned: "reg_peers (prune_stale ks rec r) = (reg_peers r)(reg_self r := None)"
  proof (rule prune_stale_cases [of ks rec r])
    assume "find_key (\<lambda>pid e. pid \<noteq> rec_ID rec \<and> same_address e rec) ks (reg_peers r) = None"
    then have "\<not> (reg_self r \<noteq> rec_ID rec \<and> same_address p rec)"
      using own by (simp only: find_key_None [OF ks]) metis
    with match show ?thesis by simp
  next
    fix pid e assume "reg_peers r pid = Some e" "pid \<noteq> rec_ID rec" "same_address e rec"
      "reg_peers (prune_stale ks rec r) = (reg_peers r)(pid := None)"
    then show ?thesis using alone [of pid e] by simp
  qed
  have space: "\<not> reg_max r \<le> card (dom (reg_peers (prune_stale ks rec r)))"
    unfolding pruned using card_dom_drop [OF reg_wfD(1) [OF wf] own] reg_wfD(3) [OF wf] by linarith
  have gone: "reg_peers (prune_stale ks rec r) (reg_self r) = None" by (simp add: pruned)
  show ?thesis
    by (rule Upsert_cases [OF other(1), of r ks ks' now]) (use space gone other(2) in simp_all)
qed

theorem Upsert_drops_own_entry_witness:
  "reg_peers (snd (Upsert [''a''] [''a''] 9 (Some (ex_peer\<lparr>rec_GrpcAddr := ''h:1''\<rparr>)) (ex_reg 20))) ''a'' = None"
proof -
  have "fst (Upsert [''a''] [''a''] 9 (Some (ex_peer\<lparr>rec_GrpcAddr := ''h:1''\<rparr>)) (ex_reg 20)) \<and>
    reg_peers (snd (Upsert [''a''] [''a''] 9 (Some (ex_peer\<lparr>rec_GrpcAddr := ''h:1''\<rparr>)) (ex_reg 20)))
      (reg_self (ex_reg 20)) = None"
    by (rule Upsert_drops_own_entry [where p = ex_self]) (auto split: if_splits)
  then show ?thesis by simp
qed

section \<open>The Redis mirror\<close>

text \<open>
  What the commands sent so far leave in Redis, when each succeeds and no key has expired.
\<close>

fun redis_apply :: "redis_cmd list \<Rightarrow> string \<rightharpoonup> Record" where
  "redis_apply [] = Map.empty"
| "redis_apply (RDel k # cs) = (redis_apply cs)(k := None)"
| "redis_apply (RSet k v ttl # cs) = (redis_apply cs)(k \<mapsto> v)"

definition mirror :: "Registry \<Rightarrow> string \<rightharpoonup> Record" where
  "mirror r = (case reg_rdb r of None \<Rightarrow> Map.empty | Some log \<Rightarrow> redis_apply (rev log))"

definition mirror_ok :: "Registry \<Rightarrow> bool" where
  "mirror_ok r \<longleftrightarrow>
     (\<forall>k rec. mirror r k = Some rec \<longrightarrow> (\<exists>pid. k = redis_key pid \<and> reg_peers r pid = Some rec)) \<and>
     (\<forall>pid p. reg_peers r pid = Some p \<longrightarrow> rec_State p \<noteq> StateLeft \<longrightarrow>
        mirror r (redis_key pid) = Some p)"

lemma redis_key_inj [simp]: "redis_key a = redis_key b \<longleftrightarrow> a = b"
  by (simp add: redis_key_def)

lemma mirror_del: "reg_rdb r \<noteq> None \<Longrightarrow> mirror (rdb_do (RDel k) r) = (mirror r)(k := None)"
  by (auto simp: mirror_def rdb_do_def)

lemma mirror_set: "reg_rdb r \<noteq> None \<Longrightarrow> mirror (rdb_do (RSet k v t) r) = (mirror r)(k \<mapsto> v)"
  by (auto simp: mirror_def rdb_do_def)

lemma rdb_do_None [simp]: "reg_rdb (rdb_do c r) = None \<longleftrightarrow> reg_rdb r = None"
  by (simp add: rdb_do_def)

lemma mirror_peers_upd [simp]: "mirror (r\<lparr>reg_peers := m\<rparr>) = mirror r"
  by (simp add: mirror_def)

text \<open>The three ways the code changes an entry and its key together.\<close>

definition mirrored :: "Registry \<Rightarrow> bool" where
  "mirrored r \<longleftrightarrow> reg_rdb r \<noteq> None \<and> reg_wf r \<and> mirror_ok r"

lemma mirror_ok_drop:
  "reg_rdb r \<noteq> None \<Longrightarrow> mirror_ok r \<Longrightarrow>
   mirror_ok (rdb_do (RDel (redis_key pid)) (r\<lparr>reg_peers := (reg_peers r)(pid := None)\<rparr>))"
  by (auto simp: mirror_ok_def mirror_del) (metis option.distinct(1) redis_key_inj)+

lemma mirror_ok_put:
  assumes "reg_rdb r \<noteq> None" "mirror_ok r" "rec_ID p = pid"
  shows "mirror_ok (publishRedis p (r\<lparr>reg_peers := (reg_peers r)(pid \<mapsto> p)\<rparr>))"
proof -
  have "mirror (publishRedis p (r\<lparr>reg_peers := (reg_peers r)(pid \<mapsto> p)\<rparr>)) = (mirror r)(redis_key pid \<mapsto> p)"
    using assms(1,3) by (simp add: publishRedis_def mirror_set)
  moreover have "\<exists>pid'. k = redis_key pid' \<and> ((reg_peers r)(pid \<mapsto> p)) pid' = Some q"
    if k: "((mirror r)(redis_key pid \<mapsto> p)) k = Some q" for k q
  proof (cases "k = redis_key pid")
    case True
    with k show ?thesis by auto
  next
    case False
    with k assms(2) obtain pid' where "k = redis_key pid'" "reg_peers r pid' = Some q"
      by (auto simp: mirror_ok_def)
    with False show ?thesis by auto
  qed
  ultimately show ?thesis using assms(2) by (simp add: mirror_ok_def)
qed

lemma mirror_ok_left:
  assumes "reg_rdb r \<noteq> None" "mirror_ok r" "reg_peers r pid = Some p" "rec_State p = StateLeft"
  shows "mirror_ok (rdb_do (RDel (redis_key pid)) r)"
  using assms by (auto simp: mirror_ok_def mirror_del)

lemma rdb_kept [simp]:
  "reg_rdb (publishRedis p r) = None \<longleftrightarrow> reg_rdb r = None"
  "reg_rdb (insert_new now rec r) = None \<longleftrightarrow> reg_rdb r = None"
  "reg_rdb (prune_stale ks rec r) = None \<longleftrightarrow> reg_rdb r = None"
  by (simp_all add: publishRedis_def insert_new_def prune_stale_def Let_def split: option.split)

lemma mirrored_drop:
  assumes "mirrored r"
  shows "mirrored (rdb_do (RDel (redis_key pid)) (r\<lparr>reg_peers := (reg_peers r)(pid := None)\<rparr>))"
proof -
  have "reg_wf (rdb_do (RDel (redis_key pid)) (r\<lparr>reg_peers := (reg_peers r)(pid := None)\<rparr>))"
    by (rule reg_wf_drop [of r _ pid]) (use assms in \<open>simp_all add: mirrored_def\<close>)
  with assms mirror_ok_drop [of r pid] show ?thesis by (simp add: mirrored_def)
qed

lemma mirrored_prune: "mirrored r \<Longrightarrow> mirrored (prune_stale ks rec r)"
  by (simp add: prune_stale_def mirrored_drop split: option.split)

lemma mirrored_insert: "reg_rdb r \<noteq> None \<Longrightarrow> mirror_ok r \<Longrightarrow> mirror_ok (insert_new now rec r)"
  by (simp add: insert_new_def Let_def mirror_ok_put)

lemma mirrored_Upsert:
  assumes "mirrored r" shows "mirrored (snd (Upsert ks ks' now recp r))"
proof (cases "\<exists>rec. recp = Some rec \<and> rec_ID rec \<noteq> ''''")
  case False
  with assms show ?thesis by (cases recp) auto
next
  case True
  then obtain rec where rec: "recp = Some rec" "rec_ID rec \<noteq> ''''" by blast
  from mirrored_prune [OF assms] have q: "reg_rdb (prune_stale ks rec r) \<noteq> None"
    "reg_wf (prune_stale ks rec r)" "mirror_ok (prune_stale ks rec r)" by (auto simp: mirrored_def)
  have "reg_rdb (snd (Upsert ks ks' now (Some rec) r)) \<noteq> None \<and>
        mirror_ok (snd (Upsert ks ks' now (Some rec) r))"
  proof (rule Upsert_cases [OF rec(2), of r ks ks' now])
    fix p assume p: "reg_peers r (rec_ID rec) = Some p"
      and eq: "Upsert ks ks' now (Some rec) r = (True, publishRedis (refresh_record rec p)
           ((prune_stale ks rec r)\<lparr>reg_peers :=
              (reg_peers (prune_stale ks rec r))(rec_ID rec \<mapsto> refresh_record rec p)\<rparr>))"
    have "rec_ID p = rec_ID rec" using assms p by (auto simp: mirrored_def reg_wf_def)
    then show ?thesis using eq q mirror_ok_put [OF q(1,3), of "refresh_record rec p" "rec_ID rec"] by simp
  qed (use q in \<open>simp_all add: mirrored_insert mirror_ok_drop del: not_None_eq\<close>)
  with rec(1) reg_wf_Upsert assms show ?thesis by (auto simp: mirrored_def)
qed

lemma mirrored_MarkState:
  assumes "mirrored r" shows "mirrored (MarkState pid s r)"
proof (cases "reg_peers r pid")
  case (Some p)
  let ?r = "publishRedis (p\<lparr>rec_State := s\<rparr>) (r\<lparr>reg_peers := (reg_peers r)(pid \<mapsto> p\<lparr>rec_State := s\<rparr>)\<rparr>)"
  have "rec_ID p = pid" using assms Some by (auto simp: mirrored_def reg_wf_def)
  then have "mirror_ok ?r" using assms by (auto simp: mirrored_def intro: mirror_ok_put)
  moreover have "mirror_ok (rdb_do (RDel (redis_key pid)) ?r)" if "s = StateLeft"
    by (rule mirror_ok_left [where p = "p\<lparr>rec_State := s\<rparr>"]) (use that assms \<open>mirror_ok ?r\<close> in \<open>auto simp: mirrored_def\<close>)
  ultimately show ?thesis using assms reg_wf_MarkState [of r pid s]
    by (auto simp: mirrored_def MarkState_def Let_def Some simp del: not_None_eq)
qed (use assms in \<open>simp add: MarkState_def\<close>)

lemma mirrored_Touch:
  assumes "mirrored r" shows "mirrored (Touch now pid r)"
proof (cases "reg_peers r pid")
  case (Some p)
  have "rec_ID p = pid" using assms Some by (auto simp: mirrored_def reg_wf_def)
  then have "mirror_ok (publishRedis (touch_record now p) (r\<lparr>reg_peers := (reg_peers r)(pid \<mapsto> touch_record now p)\<rparr>))"
    using assms by (auto simp: mirrored_def intro: mirror_ok_put)
  moreover have "Touch now pid r = publishRedis (touch_record now p) (r\<lparr>reg_peers := (reg_peers r)(pid \<mapsto> touch_record now p)\<rparr>)"
    by (simp add: Touch_def Let_def Some touch_record_def)
  ultimately show ?thesis using assms reg_wf_Touch [of r now pid]
    by (auto simp: mirrored_def simp del: not_None_eq)
qed (use assms in \<open>simp add: Touch_def\<close>)

lemma mirrored_Remove: "mirrored r \<Longrightarrow> mirrored (Remove pid r)"
  by (simp add: Remove_def mirrored_drop)

interpretation redis_mirror: invariant_machine "\<lambda>r. \<exists>selfID. r = NewRegistry True selfID" reg_local mirrored
proof unfold_locales
  fix s assume "\<exists>selfID. s = NewRegistry True selfID"
  then show "mirrored s" by (auto simp: mirrored_def mirror_ok_def mirror_def reg_wf_def)
next
  fix s t assume "mirrored s" "reg_local s t"
  then show "mirrored t"
    by (auto elim!: reg_localE intro: mirrored_Upsert mirrored_MarkState mirrored_Touch mirrored_Remove)
qed



end
