(* ===== verification/PeerManager.thy ===== *)
theory PeerManager
  imports Peer
begin

text \<open>
  Timeouts over the registry: \<open>internal/peer/peer_manager.go\<close>, with the defaults of
  \<open>internal/heartbeat/\<close>. A \<open>Manager\<close> holds a pointer to the registry and the
  inactivity timeout; the pointer is the registry argument here, and neither it nor the
  manager is nil in the program (\<open>NewPeerHost\<close> builds both).

  \<open>Sweep\<close> works on a snapshot and then marks the peers one by one, so it is a fold of
  registry calls over the snapshot.
\<close>

record Manager =
  mgr_InactiveAfter :: int

definition NewManager :: Manager where
  "NewManager = \<lparr>mgr_InactiveAfter = DefaultHeartbeatSec * 3 * second\<rparr>"

text \<open>\<open>internal/heartbeat/health_check.go\<close> and \<open>internal/heartbeat/peer_timeout.go\<close>.\<close>

definition DefaultInterval :: int where
  "DefaultInterval = 3 * second"

definition InactiveAfter :: int where
  "InactiveAfter = 9 * second"

definition Sweep :: "string list \<Rightarrow> time \<Rightarrow> Manager \<Rightarrow> Registry \<Rightarrow> Registry" where
  "Sweep ks now m r0 =
     foldl (\<lambda>r p.
        if rec_ID p = SelfID r then r
        else if rec_State p = StateLeft then r
        else if mgr_InactiveAfter m < time_sub now (rec_LastSeen p)
        then MarkState (rec_ID p) StateInactive r
        else r) r0 (Snapshot ks r0)"

definition Leave :: "string \<Rightarrow> Registry \<Rightarrow> Registry" where
  "Leave pid r = Remove pid (MarkState pid StateLeft r)"

section \<open>A loop that marks some of the peers of a snapshot\<close>

definition mark_where :: "(Record \<Rightarrow> bool) \<Rightarrow> State \<Rightarrow> Record list \<Rightarrow> Registry \<Rightarrow> Registry" where
  "mark_where c s ps r = foldl (\<lambda>r p. if c p then MarkState (rec_ID p) s r else r) r ps"

lemma mark_where_frame [simp]:
  "reg_self (mark_where c s ps r) = reg_self r" "reg_max (mark_where c s ps r) = reg_max r"
proof -
  have "reg_self (mark_where c s ps r) = reg_self r \<and> reg_max (mark_where c s ps r) = reg_max r"
    by (induction ps arbitrary: r) (auto simp: mark_where_def)
  then show "reg_self (mark_where c s ps r) = reg_self r" "reg_max (mark_where c s ps r) = reg_max r"
    by auto
qed

lemma mark_where_peers:
  "reg_peers (mark_where c s ps r) pid =
     (if \<exists>p\<in>set ps. rec_ID p = pid \<and> c p
      then map_option (\<lambda>p. p\<lparr>rec_State := s\<rparr>) (reg_peers r pid) else reg_peers r pid)"
proof (induction ps arbitrary: r)
  case Nil
  then show ?case by (simp add: mark_where_def)
next
  case (Cons q ps)
  have "mark_where c s (q # ps) r = mark_where c s ps (if c q then MarkState (rec_ID q) s r else r)"
    by (simp add: mark_where_def)
  then show ?case
    by (auto simp: Cons.IH reg option.map_comp o_def)
qed

text \<open>Over a snapshot of a well-formed registry the loop is a pointwise update.\<close>

lemma mark_where_snapshot:
  assumes "reg_wf r" "is_order ks (reg_peers r)"
  shows "reg_peers (mark_where c s (Snapshot ks r) r) pid =
     map_option (\<lambda>p. if c p then p\<lparr>rec_State := s\<rparr> else p) (reg_peers r pid)"
proof -
  have "(\<exists>p\<in>set (Snapshot ks r). rec_ID p = pid \<and> c p) \<longleftrightarrow>
      (\<exists>p. reg_peers r pid = Some p \<and> c p)"
    using assms reg_wfD(2) [OF assms(1)]
    by (auto simp: Snapshot_def set_range_values_order ran_def)
  then show ?thesis by (cases "reg_peers r pid") (auto simp: mark_where_peers)
qed

lemma reg_wf_mark_where: "reg_wf r \<Longrightarrow> reg_wf (mark_where c s ps r)"
  by (induction ps arbitrary: r) (auto simp: mark_where_def reg_wf_MarkState)

section \<open>Sweep and Leave\<close>

definition overdue :: "time \<Rightarrow> Manager \<Rightarrow> string \<Rightarrow> Record \<Rightarrow> bool" where
  "overdue now m self p \<longleftrightarrow>
     rec_ID p \<noteq> self \<and> rec_State p \<noteq> StateLeft \<and> mgr_InactiveAfter m < time_sub now (rec_LastSeen p)"

lemma Sweep_mark_where:
  "Sweep ks now m r = mark_where (overdue now m (reg_self r)) StateInactive (Snapshot ks r) r"
proof -
  have "foldl (\<lambda>r p. if rec_ID p = SelfID r then r else if rec_State p = StateLeft then r
        else if mgr_InactiveAfter m < time_sub now (rec_LastSeen p)
        then MarkState (rec_ID p) StateInactive r else r) r ps =
     mark_where (overdue now m (reg_self r)) StateInactive ps r" for ps
  proof (induction ps arbitrary: r)
    case (Cons q ps)
    then show ?case
      by (cases "overdue now m (reg_self r) q") (auto simp: mark_where_def overdue_def SelfID_def)
  qed (simp add: mark_where_def)
  then show ?thesis by (simp add: Sweep_def)
qed

lemma reg_wf_Sweep: "reg_wf r \<Longrightarrow> reg_wf (Sweep ks now m r)"
  by (simp add: Sweep_mark_where reg_wf_mark_where)

lemma Sweep_frame [simp]: "reg_self (Sweep ks now m r) = reg_self r"
  by (simp add: Sweep_mark_where)

text \<open>
  A sweep marks inactive exactly the peers that are not the node itself, have not \<open>Left\<close>
  and were last seen longer ago than the timeout; it changes nothing else, whatever the order
  in which the map is visited.
\<close>

theorem Sweep_spec:
  assumes "reg_wf r" "is_order ks (reg_peers r)"
  shows "reg_peers (Sweep ks now m r) pid =
     (case reg_peers r pid of
        None \<Rightarrow> None
      | Some p \<Rightarrow>
          Some (if pid \<noteq> reg_self r \<and> rec_State p \<noteq> StateLeft \<and>
                   mgr_InactiveAfter m < time_sub now (rec_LastSeen p)
                then p\<lparr>rec_State := StateInactive\<rparr> else p))"
  using mark_where_snapshot [OF assms] reg_wfD(2) [OF assms(1)]
  by (auto simp: Sweep_mark_where overdue_def split: option.split)

theorem Sweep_spec_witness:
  "map_option rec_State (reg_peers (Sweep [''a''] (10 * second) NewManager ((ex_reg 2)\<lparr>reg_self := ''z''\<rparr>)) ''a'') =
     Some StateInactive"
proof -
  have "reg_wf ((ex_reg 2)\<lparr>reg_self := ''z''\<rparr>)" by (auto simp: reg_wf_def)
  from Sweep_spec [OF this, of "[''a'']" "10 * second" NewManager "''a''"] show ?thesis
    by (simp add: NewManager_def time_sub_def second_def DefaultHeartbeatSec_def)
qed

lemma Leave_peers: "reg_peers (Leave pid r) = (reg_peers r)(pid := None)"
  by (simp add: Leave_def reg fun_eq_iff)

lemma Leave_frame [simp]: "reg_self (Leave pid r) = reg_self r" "reg_max (Leave pid r) = reg_max r"
  by (simp_all add: Leave_def)

lemma reg_wf_Leave: "reg_wf r \<Longrightarrow> reg_wf (Leave pid r)"
  by (simp add: Leave_def reg_wf_Remove reg_wf_MarkState)

end
