(* ===== verification/Keys.thy ===== *)
theory Keys
  imports Prelude
begin

text \<open>
  The keys of the overlay: \<open>internal/dht/xor_distance.go\<close> and the parts of \<open>encoding/hex\<close>
  and \<open>math/big\<close> it uses. A key is 32 bytes, written as 64 hex digits. \<open>XOR\<close> panics on
  slices of different lengths: that is \<open>None\<close> here, and \<open>Distance\<close> and \<open>Closer\<close> pass it on.
\<close>

unbundle bit_operations_syntax

section \<open>encoding/hex\<close>

datatype hex_error = InvalidByteError char | ErrLength

definition hex_digit :: "char \<Rightarrow> nat option" where
  "hex_digit c =
     (let n = (of_char c :: nat)
      in if 48 \<le> n \<and> n \<le> 57 then Some (n - 48)
         else if 97 \<le> n \<and> n \<le> 102 then Some (n - 87)
         else if 65 \<le> n \<and> n \<le> 70 then Some (n - 55)
         else None)"

fun hexDecode :: "string \<Rightarrow> hex_error + bytes" where
  "hexDecode [] = Inr []"
| "hexDecode [a] = (case hex_digit a of None \<Rightarrow> Inl (InvalidByteError a) | Some _ \<Rightarrow> Inl ErrLength)"
| "hexDecode (a # b # s) =
     (case hex_digit a of
        None \<Rightarrow> Inl (InvalidByteError a)
      | Some x \<Rightarrow>
          (case hex_digit b of
             None \<Rightarrow> Inl (InvalidByteError b)
           | Some y \<Rightarrow>
               (case hexDecode s of
                  Inl e \<Rightarrow> Inl e
                | Inr bs \<Rightarrow> Inr (word_of_nat (16 * x + y) # bs))))"

definition hex_char :: "nat \<Rightarrow> char" where
  "hex_char n = (if n < 10 then char_of (n + 48) else char_of (n + 87))"

definition hexEncode :: "bytes \<Rightarrow> string" where
  "hexEncode bs = concat (map (\<lambda>b. [hex_char (unat b div 16), hex_char (unat b mod 16)]) bs)"

section \<open>Keys and distance\<close>

definition keyBytes :: nat where
  "keyBytes = 32"

datatype key_error = InvalidKeyLength | BadHex hex_error

definition KeyFromHex :: "string \<Rightarrow> key_error + bytes" where
  "KeyFromHex s =
     (if length s \<noteq> keyBytes * 2 then Inl InvalidKeyLength
      else case hexDecode s of Inl e \<Rightarrow> Inl (BadHex e) | Inr k \<Rightarrow> Inr k)"

definition XOR_bytes :: "bytes \<Rightarrow> bytes \<Rightarrow> bytes option" where
  "XOR_bytes a b = (if length a \<noteq> length b then None else Some (map2 (XOR) a b))"

text \<open>\<open>big.Int.SetBytes\<close>: the bytes as a big-endian number.\<close>

definition SetBytes :: "bytes \<Rightarrow> nat" where
  "SetBytes bs = foldl (\<lambda>n b. 256 * n + unat b) 0 bs"

definition Distance :: "bytes \<Rightarrow> bytes \<Rightarrow> nat option" where
  "Distance a b = map_option SetBytes (XOR_bytes a b)"

definition Closer :: "bytes \<Rightarrow> bytes \<Rightarrow> bytes \<Rightarrow> bool option" where
  "Closer target a b =
     (case Distance target a of
        None \<Rightarrow> None
      | Some da \<Rightarrow> (case Distance target b of None \<Rightarrow> None | Some db \<Rightarrow> Some (da < db)))"

section \<open>Hex digits\<close>

lemma hex_digit_bound: "hex_digit c = Some x \<Longrightarrow> x < 16"
  by (auto simp: hex_digit_def Let_def split: if_splits)

lemma hex_digit_char [simp]: "n < 16 \<Longrightarrow> hex_digit (hex_char n) = Some n"
  by (auto simp: hex_digit_def hex_char_def Let_def)

lemma hexEncode_simps [simp]:
  "hexEncode [] = []"
  "hexEncode (b # bs) = hex_char (unat b div 16) # hex_char (unat b mod 16) # hexEncode bs"
  by (simp_all add: hexEncode_def)

lemma length_hexEncode [simp]: "length (hexEncode bs) = 2 * length bs"
  by (induction bs) auto

lemma unat_byte_less [simp]: "unat (b :: byte) < 256"
  using unsigned_less [of b] by simp

lemma hexDecode_Encode [simp]: "hexDecode (hexEncode bs) = Inr bs"
proof (induction bs)
  case (Cons b bs)
  have "unat b div 16 < 16" using unat_byte_less [of b] by linarith
  with Cons show ?case by simp
qed simp

lemma hexEncode_inj [simp]: "hexEncode a = hexEncode b \<longleftrightarrow> a = b"
  by (metis hexDecode_Encode sum.inject(2))

lemma length_hexDecode: "hexDecode s = Inr bs \<Longrightarrow> length s = 2 * length bs"
  by (induction s arbitrary: bs rule: hexDecode.induct) (auto split: option.splits sum.splits)

lemma hexDecode_ok_iff:
  "(\<exists>bs. hexDecode s = Inr bs) \<longleftrightarrow> even (length s) \<and> list_all (\<lambda>c. hex_digit c \<noteq> None) s"
proof (induction s rule: hexDecode.induct)
  case (3 a b s)
  then show ?case
    by (cases "hex_digit a"; cases "hex_digit b"; cases "hexDecode s") auto
qed (auto split: option.splits)

lemma KeyFromHex_length: "KeyFromHex s = Inr k \<Longrightarrow> length k = 32"
  using length_hexDecode [of s k]
  by (auto simp: KeyFromHex_def keyBytes_def split: if_splits sum.splits)

text \<open>
  The hex form of a peer id is a faithful name of its key: decoding what was encoded gives
  the key back, exactly the strings of 64 hex digits decode, and they decode to 32 bytes.
\<close>

theorem KeyFromHex_spec:
  "(\<forall>k. length k = 32 \<longrightarrow> KeyFromHex (hexEncode k) = Inr k) \<and>
   ((\<exists>k. KeyFromHex s = Inr k) \<longleftrightarrow> length s = 64 \<and> list_all (\<lambda>c. hex_digit c \<noteq> None) s) \<and>
   (case KeyFromHex s of Inl e \<Rightarrow> True | Inr k \<Rightarrow> length k = 32)"
proof -
  have "(\<exists>k. KeyFromHex s = Inr k) \<longleftrightarrow> length s = 64 \<and> list_all (\<lambda>c. hex_digit c \<noteq> None) s"
  proof (cases "length s = 64")
    case True
    then have "(\<exists>k. KeyFromHex s = Inr k) \<longleftrightarrow> (\<exists>k. hexDecode s = Inr k)"
      by (simp add: KeyFromHex_def keyBytes_def split: sum.split)
    with True hexDecode_ok_iff [of s] show ?thesis by simp
  qed (simp add: KeyFromHex_def keyBytes_def)
  moreover have "\<forall>k. length k = 32 \<longrightarrow> KeyFromHex (hexEncode k) = Inr k"
    by (simp add: KeyFromHex_def keyBytes_def)
  ultimately show ?thesis by (auto dest: KeyFromHex_length split: sum.split)
qed

theorem KeyFromHex_spec_witness:
  "KeyFromHex (hexEncode (replicate 32 171)) = Inr (replicate 32 171)"
  using KeyFromHex_spec by simp

section \<open>The distance is a metric\<close>

lemma SetBytes_from: "foldl (\<lambda>n b. 256 * n + unat b) m bs = m * 256 ^ length bs + SetBytes bs"
proof (induction bs arbitrary: m)
  case (Cons b bs)
  from Cons [of "256 * m + unat b"] Cons [of "unat b"] show ?case
    by (simp add: SetBytes_def algebra_simps)
qed (simp add: SetBytes_def)

lemma SetBytes_simps [simp]:
  "SetBytes [] = 0" "SetBytes (b # bs) = unat b * 256 ^ length bs + SetBytes bs"
  using SetBytes_from [of "unat b" bs] by (simp_all add: SetBytes_def)

lemma SetBytes_bound: "SetBytes bs < 256 ^ length bs"
proof (induction bs)
  case (Cons b bs)
  have "unat b * 256 ^ length bs \<le> 255 * 256 ^ length bs"
    using unat_byte_less [of b] by (intro mult_right_mono) linarith+
  with Cons have "unat b * 256 ^ length bs + SetBytes bs < 256 * 256 ^ length bs" by linarith
  then show ?case by simp
qed simp

lemma digits_unique:
  fixes x y m :: nat
  assumes "x * m + s = y * m + t" "s < m" "t < m"
  shows "x = y \<and> s = t"
proof -
  have "(x * m + s) div m = x" "(y * m + t) div m = y" using assms(2,3) by simp_all
  with assms(1) have "x = y" by simp
  with assms(1) show ?thesis by simp
qed

lemma SetBytes_inj: "length a = length b \<Longrightarrow> SetBytes a = SetBytes b \<Longrightarrow> a = b"
proof (induction a b rule: list_induct2)
  case (Cons x xs y ys)
  let ?m = "256 ^ length xs :: nat"
  from Cons.prems Cons.hyps have "unat x * ?m + SetBytes xs = unat y * ?m + SetBytes ys" by simp
  moreover have "SetBytes xs < ?m" "SetBytes ys < ?m"
    using SetBytes_bound [of xs] SetBytes_bound [of ys] Cons.hyps by simp_all
  ultimately have "unat x = unat y \<and> SetBytes xs = SetBytes ys" by (rule digits_unique)
  with Cons.IH show ?case by (simp add: word_unat_eq_iff)
qed simp

lemma nat_xor_le: "(m XOR n :: nat) \<le> m + n"
proof (induction m arbitrary: n rule: less_induct)
  case (less m)
  show ?case
  proof (cases "m = 0")
    case False
    then have "m div 2 XOR n div 2 \<le> m div 2 + n div 2" by (intro less) simp
    moreover have "m XOR n = of_bool (odd m \<noteq> odd n) + 2 * (m div 2 XOR n div 2)"
      by (rule xor_rec)
    moreover have "m = of_bool (odd m) + 2 * (m div 2)" "n = of_bool (odd n) + 2 * (n div 2)"
      by (cases "odd m"; cases "odd n"; simp)+
    ultimately show ?thesis by (cases "odd m"; cases "odd n") (simp; presburger)+
  qed simp
qed

lemma unat_xor_le: "unat (u XOR v :: byte) \<le> unat u + unat v"
  by (simp add: unsigned_xor_eq nat_xor_le)

lemma SetBytes_xor_le:
  "length u = length v \<Longrightarrow> SetBytes (map2 (XOR) u v) \<le> SetBytes u + SetBytes v"
proof (induction u v rule: list_induct2)
  case (Cons x xs y ys)
  have "unat (x XOR y) * 256 ^ length xs \<le> (unat x + unat y) * 256 ^ length xs"
    by (intro mult_right_mono unat_xor_le) simp
  with Cons show ?case by (simp add: algebra_simps)
qed simp

lemma map2_xor_chain:
  "length a = length b \<Longrightarrow> length b = length c \<Longrightarrow>
   map2 (XOR) (map2 (XOR) a b) (map2 (XOR) b c) = map2 (XOR) a (c :: bytes)"
proof (induction a b c rule: list_induct3)
  case (Cons x xs y ys z zs)
  have "(x XOR y) XOR (y XOR z) = x XOR z" by (rule bit_eqI) (auto simp: bit_simps)
  with Cons show ?case by simp
qed simp

lemma map2_xor_commute: "map2 (XOR) a b = map2 (XOR) b (a :: bytes)"
  by (induction a b rule: list_induct2') (simp_all add: xor.commute)

lemma xor_xor_self: "x XOR (x XOR y) = (y :: byte)"
  by (rule bit_eqI) (auto simp: bit_simps)

lemma map2_xor_cancel:
  "length t = length a \<Longrightarrow> length t = length b \<Longrightarrow>
   map2 (XOR) t a = map2 (XOR) t (b :: bytes) \<Longrightarrow> a = b"
proof (induction t arbitrary: a b)
  case (Cons x xs)
  then obtain y ys where a [simp]: "a = y # ys" by (cases a) auto
  from Cons.prems obtain z zs where b [simp]: "b = z # zs" by (cases b) auto
  from Cons.prems(3) have hd: "x XOR y = x XOR z" and tl: "map2 (XOR) xs ys = map2 (XOR) xs zs"
    by (simp_all only: a b zip_Cons_Cons list.map prod.case list.inject)
  from arg_cong [OF hd, of "\<lambda>w. x XOR w"] have "y = z" by (simp only: xor_xor_self)
  moreover from Cons.prems(1,2) have "length xs = length ys" "length xs = length zs" by simp_all
  then have "ys = zs" by (rule Cons.IH [OF _ _ tl])
  ultimately show ?case by simp
qed simp

text \<open>The distance as a number, when the lengths agree.\<close>

definition dist :: "bytes \<Rightarrow> bytes \<Rightarrow> nat" where
  "dist a b = SetBytes (map2 (XOR) a b)"

lemma Distance_eq: "Distance a b = (if length a = length b then Some (dist a b) else None)"
  by (simp add: Distance_def XOR_bytes_def dist_def)

lemma Closer_eq:
  "length t = length a \<Longrightarrow> length t = length b \<Longrightarrow> Closer t a b = Some (dist t a < dist t b)"
  by (simp add: Closer_def Distance_eq)

lemma dist_commute: "dist a b = dist b a"
  by (simp add: dist_def map2_xor_commute [of a b])

lemma dist_inj: "length t = length a \<Longrightarrow> length t = length b \<Longrightarrow> dist t a = dist t b \<Longrightarrow> a = b"
  unfolding dist_def by (rule map2_xor_cancel [of t]) (auto intro!: SetBytes_inj)

lemma dist_triangle:
  "length a = length b \<Longrightarrow> length b = length c \<Longrightarrow> dist a c \<le> dist a b + dist b c"
  using SetBytes_xor_le [of "map2 (XOR) a b" "map2 (XOR) b c"] by (simp add: dist_def map2_xor_chain)

lemma dist_self [simp]: "dist a a = 0"
proof -
  have "SetBytes (map2 (XOR) a a) = 0" by (induction a) simp_all
  then show ?thesis by (simp add: dist_def)
qed

lemma dist_zero_iff: "length a = length b \<Longrightarrow> dist a b = 0 \<longleftrightarrow> a = b"
  using dist_inj [of a a b] by auto

lemma dist_bound: "length a = length b \<Longrightarrow> dist a b < 256 ^ length a"
  using SetBytes_bound [of "map2 (XOR) a b"] by (simp add: dist_def)

lemma dist_eq_iff: "length t = length a \<Longrightarrow> length t = length b \<Longrightarrow> dist t a = dist t b \<longleftrightarrow> a = b"
  using dist_inj [of t a b] by auto

text \<open>
  \<open>Distance\<close> is a metric on the keys: between keys of equal length it is defined, below
  \<open>256 ^ length\<close>, zero only between equal keys, symmetric and subject to the triangle
  inequality; a distance from one target determines the key, so two different peers are never
  tied; and \<open>Closer\<close> does not panic and compares these distances.
\<close>

theorem Distance_metric:
  assumes "length a = length t" "length b = length t"
  shows "\<exists>d e f. Distance a b = Some d \<and> Distance t a = Some e \<and> Distance t b = Some f \<and>
           d < 256 ^ length t \<and> (d = 0 \<longleftrightarrow> a = b) \<and> Distance b a = Some d \<and>
           f \<le> e + d \<and> (e = f \<longleftrightarrow> a = b) \<and> Closer t a b = Some (e < f)"
proof (intro exI conjI)
  have l: "length a = length b" "length t = length a" "length t = length b" using assms by simp_all
  show "Distance a b = Some (dist a b)" "Distance t a = Some (dist t a)"
    "Distance t b = Some (dist t b)" using l by (simp_all add: Distance_eq)
  show "Distance b a = Some (dist a b)" using l by (simp add: Distance_eq dist_commute [of b a])
  show "dist a b < 256 ^ length t" using dist_bound [OF l(1)] assms by simp
  show "dist a b = 0 \<longleftrightarrow> a = b" by (rule dist_zero_iff [OF l(1)])
  show "dist t b \<le> dist t a + dist a b" by (rule dist_triangle [OF l(2,1)])
  show "dist t a = dist t b \<longleftrightarrow> a = b" by (rule dist_eq_iff [OF l(2,3)])
  show "Closer t a b = Some (dist t a < dist t b)" by (rule Closer_eq [OF l(2,3)])
qed

theorem Distance_metric_witness:
  "\<exists>d e f. Distance [1, 2] [3, 2] = Some d \<and> Distance [9, 9] [1, 2] = Some e \<and>
     Distance [9, 9] [3, 2] = Some f \<and> f \<le> e + d \<and> Closer [9, 9] [1, 2] [3, 2] = Some (e < f)"
  using Distance_metric [of "[1, 2]" "[9, 9]" "[3, 2]"] by auto

text \<open>The panic of \<open>XOR\<close> on keys of different lengths.\<close>

lemma Closer_panics: "length t \<noteq> length a \<or> length t \<noteq> length b \<longleftrightarrow> Closer t a b = None"
  by (auto simp: Closer_def Distance_eq)

end
