(* ===== verification/RoutingTable.thy ===== *)
theory RoutingTable
  imports Peer Keys
begin

text \<open>
  Peer selection by XOR distance: \<open>internal/dht/routing_table.go\<close> and
  \<open>internal/replication/replica_selection.go\<close>. A \<open>RoutingTable\<close> is a pointer to the
  registry, which is never nil in the program, so its methods take the registry.

  \<open>sort.SliceStable\<close> is modelled as the insertion sort the Go runtime runs on slices of at
  most 20 elements, which is the capacity of the registry; the comparison may panic, and then
  the sort does (\<open>None\<close>). The locale \<open>closeness\<close> states what the selection needs of the
  distance, and is interpreted on \<open>Closer\<close> over the 32-byte keys.
\<close>

section \<open>sort.SliceStable\<close>

text \<open>
  The sorted prefix is kept in reverse. The inner loop moves the new element down past every
  element it is less than.
\<close>

fun sift_down :: "('a \<Rightarrow> 'a \<Rightarrow> bool option) \<Rightarrow> 'a \<Rightarrow> 'a list \<Rightarrow> 'a list option" where
  "sift_down lt x [] = Some [x]"
| "sift_down lt x (y # ys) =
     (case lt x y of
        None \<Rightarrow> None
      | Some b \<Rightarrow> if b then map_option ((#) y) (sift_down lt x ys) else Some (x # y # ys))"

fun insertion_sort :: "('a \<Rightarrow> 'a \<Rightarrow> bool option) \<Rightarrow> 'a list \<Rightarrow> 'a list \<Rightarrow> 'a list option" where
  "insertion_sort lt acc [] = Some (rev acc)"
| "insertion_sort lt acc (x # xs) =
     (case sift_down lt x acc of None \<Rightarrow> None | Some acc' \<Rightarrow> insertion_sort lt acc' xs)"

definition SliceStable :: "('a \<Rightarrow> 'a \<Rightarrow> bool option) \<Rightarrow> 'a list \<Rightarrow> 'a list option" where
  "SliceStable lt xs = insertion_sort lt [] xs"

section \<open>Operations\<close>

definition candidate :: "string \<Rightarrow> (State \<rightharpoonup> bool) option \<Rightarrow> Record \<Rightarrow> bool" where
  "candidate excludeID allowedStates rec =
     (if rec_ID rec = excludeID then False
      else if (case allowedStates of None \<Rightarrow> False | Some st \<Rightarrow> st (rec_State rec) \<noteq> Some True) then False
      else case KeyFromHex (rec_ID rec) of Inl _ \<Rightarrow> False | Inr _ \<Rightarrow> True)"

text \<open>\<open>ki, _ := KeyFromHex(...)\<close>: nil on an error.\<close>

definition key_or_nil :: "string \<Rightarrow> bytes" where
  "key_or_nil s = (case KeyFromHex s of Inl _ \<Rightarrow> [] | Inr k \<Rightarrow> k)"

definition ClosestPeerIDs ::
  "string list \<Rightarrow> bytes \<Rightarrow> int \<Rightarrow> string \<Rightarrow> (State \<rightharpoonup> bool) option \<Rightarrow> Registry \<Rightarrow> string list option" where
  "ClosestPeerIDs ks targetKey k excludeID allowedStates r =
     (if k \<le> 0 then Some []
      else
        let candidates = map rec_ID (filter (candidate excludeID allowedStates) (Snapshot ks r))
        in case SliceStable (\<lambda>a b. Closer targetKey (key_or_nil a) (key_or_nil b)) candidates of
             None \<Rightarrow> None
           | Some cs \<Rightarrow>
               Some (if k < int (length cs) then take (nat k) cs else cs))"

text \<open>The outer \<open>None\<close> is a panic, which \<open>SelectReplicaPeerIDs_spec\<close> below excludes.\<close>

definition SelectReplicaPeerIDs ::
  "string list \<Rightarrow> string \<Rightarrow> int \<Rightarrow> string \<Rightarrow> Registry \<Rightarrow> (key_error + string list) option" where
  "SelectReplicaPeerIDs ks cidHex k selfID r =
     (case KeyFromHex cidHex of
        Inl e \<Rightarrow> Some (Inl e)
      | Inr key \<Rightarrow>
          map_option Inr (ClosestPeerIDs ks key k selfID (Some [StateActive \<mapsto> True]) r))"

section \<open>The sort\<close>

text \<open>Over a comparison by a rank the loop is the library's stable sort.\<close>

lemma sift_down_sound:
  assumes "\<And>y. y \<in> set ys \<Longrightarrow> lt x y = Some (f x < (f y :: nat))"
    and "sorted (rev (map f ys))"
  shows "\<exists>zs. sift_down lt x ys = Some zs \<and> mset zs = add_mset x (mset ys) \<and>
           sorted (rev (map f zs)) \<and>
           (\<forall>k. filter (\<lambda>z. f z = k) zs = filter (\<lambda>z. f z = k) (x # ys))"
  using assms
proof (induction ys)
  case (Cons y ys)
  show ?case
  proof (cases "f x < f y")
    case True
    from Cons obtain zs where zs: "sift_down lt x ys = Some zs" "mset zs = add_mset x (mset ys)"
      "sorted (rev (map f zs))" "\<forall>k. filter (\<lambda>z. f z = k) zs = filter (\<lambda>z. f z = k) (x # ys)"
      by (auto simp: sorted_append)
    from zs(2) have "set zs = insert x (set ys)" by (metis set_mset_add_mset_insert set_mset_mset)
    with zs True Cons.prems show ?thesis by (auto simp: sorted_append)
  next
    case False
    with Cons.prems show ?thesis by (force simp: sorted_append)
  qed
qed simp

lemma insertion_sort_sound:
  assumes "\<And>x y. x \<in> set (acc @ xs) \<Longrightarrow> y \<in> set (acc @ xs) \<Longrightarrow> lt x y = Some (f x < (f y :: nat))"
    and "sorted (rev (map f acc))"
  shows "\<exists>zs. insertion_sort lt acc xs = Some zs \<and> mset zs = mset acc + mset xs \<and>
           sorted (map f zs) \<and>
           (\<forall>k. filter (\<lambda>z. f z = k) zs = filter (\<lambda>z. f z = k) (rev acc @ xs))"
  using assms
proof (induction xs arbitrary: acc)
  case (Cons x xs)
  obtain d where d: "sift_down lt x acc = Some d" "mset d = add_mset x (mset acc)"
      "sorted (rev (map f d))" "\<forall>k. filter (\<lambda>z. f z = k) d = filter (\<lambda>z. f z = k) (x # acc)"
    using sift_down_sound [of acc lt x f] Cons.prems by auto
  from d(2) have sd: "set d = insert x (set acc)" by (metis set_mset_add_mset_insert set_mset_mset)
  have "\<exists>zs. insertion_sort lt d xs = Some zs \<and> mset zs = mset d + mset xs \<and> sorted (map f zs) \<and>
          (\<forall>k. filter (\<lambda>z. f z = k) zs = filter (\<lambda>z. f z = k) (rev d @ xs))"
    by (rule Cons.IH) (use Cons.prems(1) d(3) sd in auto)
  then show ?case using d by (auto simp: rev_filter [symmetric])
qed (auto simp: rev_map)

lemma SliceStable_sort_key:
  assumes "\<And>x y. x \<in> set xs \<Longrightarrow> y \<in> set xs \<Longrightarrow> lt x y = Some (f x < (f y :: nat))"
  shows "SliceStable lt xs = Some (sort_key f xs)"
proof -
  obtain zs where zs: "insertion_sort lt [] xs = Some zs" "mset zs = mset xs" "sorted (map f zs)"
      "\<forall>k. filter (\<lambda>z. f z = k) zs = filter (\<lambda>z. f z = k) xs"
    using insertion_sort_sound [of "[]" xs lt f] assms by auto
  have "sort_key f xs = zs"
    by (rule properties_for_sort_key) (use zs in \<open>simp_all add: eq_commute\<close>)
  with zs show ?thesis by (simp add: SliceStable_def)
qed

section \<open>What a notion of closeness has to give\<close>

text \<open>
  \<open>valid\<close> are the keys in use, \<open>closer t a b\<close> the comparison of two of them against a target.
  From a rank that the comparison decides, and that separates keys, follow the properties of
  the selection: it does not panic, it takes the nearest, and it does not depend on the order
  in which the candidates arrive.
\<close>

locale closeness =
  fixes valid :: "'k \<Rightarrow> bool"
    and closer :: "'k \<Rightarrow> 'k \<Rightarrow> 'k \<Rightarrow> bool option"
    and rank :: "'k \<Rightarrow> 'k \<Rightarrow> nat"
  assumes closer_rank: "valid t \<Longrightarrow> valid a \<Longrightarrow> valid b \<Longrightarrow> closer t a b = Some (rank t a < rank t b)"
    and rank_sep: "valid t \<Longrightarrow> valid a \<Longrightarrow> valid b \<Longrightarrow> rank t a = rank t b \<Longrightarrow> a = b"
begin

lemma sort_total:
  assumes "valid t" "\<forall>x\<in>set xs. valid (key x)"
  shows "SliceStable (\<lambda>a b. closer t (key a) (key b)) xs = Some (sort_key (\<lambda>x. rank t (key x)) xs)"
  using assms by (intro SliceStable_sort_key) (auto simp: closer_rank)

lemma nearest:
  assumes "x \<in> set (take n (sort_key (\<lambda>x. rank t (key x)) xs))"
    and "y \<in> set xs" "y \<notin> set (take n (sort_key (\<lambda>x. rank t (key x)) xs))"
  shows "rank t (key x) \<le> rank t (key y)"
proof -
  let ?s = "sort_key (\<lambda>x. rank t (key x)) xs"
  have "sorted (map (\<lambda>x. rank t (key x)) (take n ?s @ drop n ?s))" by simp
  moreover have "y \<in> set (drop n ?s)"
    using assms(2,3) by (metis Un_iff append_take_drop_id set_append set_sort)
  ultimately show ?thesis using assms(1) by (simp only: map_append sorted_append) auto
qed

lemma order_free:
  assumes "valid t" "\<forall>x\<in>set xs. valid (key x)" "inj_on key (set xs)"
    and "distinct xs" "distinct ys" "set xs = set ys"
  shows "sort_key (\<lambda>x. rank t (key x)) xs = sort_key (\<lambda>x. rank t (key x)) ys"
proof -
  have inj: "inj_on (\<lambda>x. rank t (key x)) (set xs)"
    using assms(1-3) by (auto simp: inj_on_def dest: rank_sep)
  have "mset xs = mset ys" using assms(4-6) by (simp add: set_eq_iff_mset_eq_distinct)
  let ?f = "\<lambda>x. rank t (key x)"
  have "sort (map ?f xs) = map ?f (sort_key ?f xs)" "sort (map ?f xs) = map ?f (sort_key ?f ys)"
    using \<open>mset xs = mset ys\<close> by (auto intro!: properties_for_sort)
  then have "map ?f (sort_key ?f xs) = map ?f (sort_key ?f ys)" by simp
  then show ?thesis using inj assms(6) by (auto dest: map_inj_on)
qed

end

definition is_key :: "bytes \<Rightarrow> bool" where
  "is_key k \<longleftrightarrow> length k = keyBytes"

interpretation xor_keys: closeness is_key Closer dist
  by unfold_locales (auto simp: is_key_def Closer_eq dist_eq_iff)

lemma key_or_nil_valid: "candidate x st rec \<Longrightarrow> is_key (key_or_nil (rec_ID rec))"
  by (auto simp: candidate_def key_or_nil_def is_key_def keyBytes_def dest: KeyFromHex_length
      split: if_splits sum.splits)

section \<open>The candidates\<close>

text \<open>The peers a call may return, as a set over the registry.\<close>

definition eligible :: "string \<Rightarrow> (State \<rightharpoonup> bool) option \<Rightarrow> Registry \<Rightarrow> string set" where
  "eligible excludeID st r = {pid. \<exists>rec. Get pid r = Some rec \<and> candidate excludeID st rec}"

lemma candidate_list:
  assumes "reg_wf r" "is_order ks (reg_peers r)"
  shows "distinct (map rec_ID (filter P (Snapshot ks r)))"
    and "set (map rec_ID (filter P (Snapshot ks r))) = {pid. \<exists>rec. Get pid r = Some rec \<and> P rec}"
proof -
  have "distinct (map rec_ID (filter P (range_values l (reg_peers r))))"
    if "distinct l" "set l \<subseteq> dom (reg_peers r)" for l
    using that
  proof (induction l)
    case (Cons pid l)
    then obtain p where "reg_peers r pid = Some p" by auto
    with Cons reg_wfD(2) [OF assms(1)] show ?case by (auto simp: set_range_values)
  qed simp
  then show "distinct (map rec_ID (filter P (Snapshot ks r)))"
    using assms(2) by (auto simp: Snapshot_def is_order_def)
  show "set (map rec_ID (filter P (Snapshot ks r))) = {pid. \<exists>rec. Get pid r = Some rec \<and> P rec}"
    using assms reg_wfD(2) [OF assms(1)]
    by (force simp: Snapshot_def set_range_values_order Get_def ran_def)
qed

lemma finite_eligible: "reg_wf r \<Longrightarrow> finite (eligible x st r)"
  by (rule finite_subset [OF _ reg_wfD(1) [of r]]) (auto simp: eligible_def Get_def)

lemma candidate_list_card:
  assumes "reg_wf r" "is_order ks (reg_peers r)"
  shows "length (map rec_ID (filter (candidate x st) (Snapshot ks r))) = card (eligible x st r)"
  using distinct_card [OF candidate_list(1) [OF assms, of "candidate x st"]]
  unfolding candidate_list(2) [OF assms] eligible_def by simp

definition peer_rank :: "bytes \<Rightarrow> string \<Rightarrow> nat" where
  "peer_rank target pid = dist target (key_or_nil pid)"

lemma eligible_valid: "pid \<in> eligible x st r \<Longrightarrow> reg_wf r \<Longrightarrow> is_key (key_or_nil pid)"
  by (auto simp: eligible_def Get_def dest!: key_or_nil_valid reg_wfD(2))

text \<open>The selection in one equation, for a target of the right length.\<close>

lemma ClosestPeerIDs_eq:
  assumes "reg_wf r" "is_order ks (reg_peers r)" "is_key t"
  shows "ClosestPeerIDs ks t k x st r =
           Some (take (nat k) (sort_key (peer_rank t)
             (map rec_ID (filter (candidate x st) (Snapshot ks r)))))"
proof -
  let ?c = "map rec_ID (filter (candidate x st) (Snapshot ks r))"
  have "\<forall>pid\<in>set ?c. is_key (key_or_nil pid)"
    using key_or_nil_valid by auto
  from xor_keys.sort_total [OF assms(3) this]
  have "SliceStable (\<lambda>a b. Closer t (key_or_nil a) (key_or_nil b)) ?c = Some (sort_key (peer_rank t) ?c)"
    by (simp add: peer_rank_def [abs_def])
  then show ?thesis by (auto simp: ClosestPeerIDs_def Let_def)
qed

lemma ClosestPeerIDs_found:
  assumes "reg_wf r" "is_order ks (reg_peers r)" "length t = 32"
  shows "\<exists>ids. ClosestPeerIDs ks t k x st r = Some ids \<and> distinct ids \<and>
           set ids \<subseteq> eligible x st r \<and> length ids = min (nat k) (card (eligible x st r)) \<and>
           sorted (map (peer_rank t) ids) \<and>
           (\<forall>a\<in>set ids. \<forall>b\<in>eligible x st r - set ids. peer_rank t a \<le> peer_rank t b)"
proof -
  let ?c = "map rec_ID (filter (candidate x st) (Snapshot ks r))"
  let ?s = "take (nat k) (sort_key (peer_rank t) ?c)"
  have t: "is_key t" using assms(3) by (simp add: is_key_def keyBytes_def)
  note c = candidate_list [OF assms(1,2), of "candidate x st", folded eligible_def]
  have "peer_rank t a \<le> peer_rank t b" if "a \<in> set ?s" "b \<in> eligible x st r - set ?s" for a b
    using xor_keys.nearest [of a "nat k" t key_or_nil ?c b] that c(2)
    by (simp add: peer_rank_def [abs_def])
  moreover have "sorted (map (peer_rank t) ?s)"
    by (metis sorted_sort_key sorted_wrt_take take_map)
  moreover have "set ?s \<subseteq> eligible x st r" using c(2) set_take_subset by fastforce
  moreover have "distinct ?s" using c(1) by (simp add: distinct_take)
  moreover have "length ?s = min (nat k) (card (eligible x st r))"
    using candidate_list_card [OF assms(1,2)] by (simp add: min.commute)
  ultimately show ?thesis unfolding ClosestPeerIDs_eq [OF assms(1,2) t] by blast
qed

text \<open>
  C18. \<open>ClosestPeerIDs\<close> answers the k-nearest query it promises: for a 32-byte target it does
  not panic and returns distinct peers that are registered, in an allowed state, named by a
  valid key and not the excluded id; it returns k of them, or all when there are fewer; they
  come nearest first; and no eligible peer it leaves out is nearer than one it returns.
\<close>

theorem ClosestPeerIDs_nearest:
  assumes "reg_wf r" "is_order ks (reg_peers r)" "length t = 32"
  shows "\<exists>ids. ClosestPeerIDs ks t k x st r = Some ids \<and> distinct ids \<and>
           set ids \<subseteq> eligible x st r \<and> length ids = min (nat k) (card (eligible x st r)) \<and>
           sorted (map (peer_rank t) ids) \<and>
           (\<forall>a\<in>set ids. \<forall>b\<in>eligible x st r - set ids. peer_rank t a \<le> peer_rank t b)"
  using assms by (rule ClosestPeerIDs_found)

text \<open>Two peers under \<open>aa...\<close> and \<open>0b...\<close>, as a concrete registry.\<close>

definition ex_idA :: string where
  "ex_idA = hexEncode (replicate 32 170)"

definition ex_idB :: string where
  "ex_idB = hexEncode (replicate 32 11)"

definition ex_near :: Registry where
  "ex_near =
     \<lparr>reg_self = ''me'',
      reg_peers = [ex_idA \<mapsto> ex_peer\<lparr>rec_ID := ex_idA, rec_State := StateActive\<rparr>,
                   ex_idB \<mapsto> ex_peer\<lparr>rec_ID := ex_idB, rec_State := StateActive\<rparr>],
      reg_max = 20, reg_rdb = None\<rparr>"

lemma ex_ids [simp]:
  "ex_idA \<noteq> ex_idB" "ex_idB \<noteq> ex_idA"
  "KeyFromHex ex_idA = Inr (replicate 32 170)" "KeyFromHex ex_idB = Inr (replicate 32 11)"
  by (simp_all add: ex_idA_def ex_idB_def KeyFromHex_def keyBytes_def
        del: hexEncode_simps)

lemma ex_near_ok [simp]:
  "reg_wf ex_near" "is_order [ex_idA, ex_idB] (reg_peers ex_near)"
  by (auto simp: ex_near_def reg_wf_def is_order_def split: if_splits)

lemma ex_ids_length [simp]: "length ex_idA = 64" "length ex_idB = 64"
  by (simp_all add: ex_idA_def ex_idB_def del: hexEncode_simps)

lemma ex_ids_no_short [simp]:
  "ex_idA \<noteq> ''me''" "ex_idB \<noteq> ''me''" "ex_idA \<noteq> []" "ex_idB \<noteq> []"
proof -
  have "length ex_idA \<noteq> length ''me''" "length ex_idB \<noteq> length ''me''"
    "length ex_idA \<noteq> 0" "length ex_idB \<noteq> 0" by simp_all
  then show "ex_idA \<noteq> ''me''" "ex_idB \<noteq> ''me''" "ex_idA \<noteq> []" "ex_idB \<noteq> []" by (metis list.size(3))+
qed

lemma ex_near_eligible: "eligible ''me'' None ex_near = {ex_idA, ex_idB}"
  by (auto simp: eligible_def ex_near_def Get_def candidate_def split: if_splits)

lemma ex_near_card: "card (eligible ''me'' None ex_near) = 2"
  by (simp add: ex_near_eligible)

theorem ClosestPeerIDs_nearest_witness:
  "\<exists>ids. ClosestPeerIDs [ex_idA, ex_idB] (replicate 32 0) 1 ''me'' None ex_near = Some ids \<and>
     distinct ids \<and> length ids = 1 \<and> set ids \<subseteq> {ex_idA, ex_idB}"
  using ClosestPeerIDs_nearest [of ex_near "[ex_idA, ex_idB]" "replicate 32 0" 1 "''me''" None]
  by (auto simp: ex_near_card ex_near_eligible)

text \<open>
  C34. The panic of \<open>XOR\<close> reaches a caller of \<open>ClosestPeerIDs\<close> exactly when the target is not
  32 bytes long, at least one peer is asked for, and two or more peers are eligible.
\<close>

theorem ClosestPeerIDs_panics_iff:
  assumes "reg_wf r" "is_order ks (reg_peers r)"
  shows "ClosestPeerIDs ks t k x st r = None \<longleftrightarrow>
           0 < k \<and> length t \<noteq> 32 \<and> 2 \<le> card (eligible x st r)"
proof (cases "length t = 32")
  case True
  then show ?thesis
    using ClosestPeerIDs_eq [OF assms, of t k x st] by (simp add: is_key_def keyBytes_def)
next
  case False
  let ?c = "map rec_ID (filter (candidate x st) (Snapshot ks r))"
  have valid: "\<forall>pid\<in>set ?c. is_key (key_or_nil pid)" using key_or_nil_valid by auto
  have nopanic: "Closer t a b = None" if "is_key b" for a b
    using that False Closer_panics [of t a b] by (auto simp: is_key_def keyBytes_def)
  have "SliceStable (\<lambda>a b. Closer t (key_or_nil a) (key_or_nil b)) ?c =
          (if length ?c \<le> 1 then Some ?c else None)"
  proof -
    consider "?c = []" | a where "?c = [a]" | a b zs where "?c = a # b # zs"
      by (metis list.exhaust)
    then show ?thesis
    proof cases
      case (3 a b zs)
      with valid have "is_key (key_or_nil a)" by simp
      with 3 show ?thesis by (simp add: SliceStable_def nopanic)
    qed (simp_all add: SliceStable_def)
  qed
  with candidate_list_card [OF assms, of x st] False show ?thesis
    by (auto simp: ClosestPeerIDs_def Let_def)
qed

theorem ClosestPeerIDs_panics_iff_witness:
  "ClosestPeerIDs [ex_idA, ex_idB] [0] 1 ''me'' None ex_near = None"
  using ClosestPeerIDs_panics_iff [of ex_near "[ex_idA, ex_idB]" "[0]" 1 "''me''" None]
  by (simp add: ex_near_card)

text \<open>
  Replica selection is a function of the cluster's state: for any content id it does not
  panic and fails only when the id is not 64 hex digits; otherwise it picks at most k
  registered, active peers other than the node itself, and, when no two active peers have ids that
  differ only in the case of their hex digits, the same list whatever order the runtime
  ranges over the registry in, so it is reproducible for a given registry.
\<close>

theorem SelectReplicaPeerIDs_spec:
  assumes "reg_wf r" "is_order ks (reg_peers r)" "is_order ks' (reg_peers r)"
    and "inj_on key_or_nil (eligible selfID (Some [StateActive \<mapsto> True]) r)"
  shows "(\<exists>e. KeyFromHex c = Inl e \<and> SelectReplicaPeerIDs ks c k selfID r = Some (Inl e)) \<or>
         (\<exists>ids. SelectReplicaPeerIDs ks c k selfID r = Some (Inr ids) \<and> distinct ids \<and>
            SelectReplicaPeerIDs ks' c k selfID r = Some (Inr ids) \<and> length ids \<le> nat k \<and>
            selfID \<notin> set ids \<and>
            set ids \<subseteq> {pid. \<exists>rec. Get pid r = Some rec \<and> rec_State rec = StateActive})"
proof (cases "KeyFromHex c")
  case (Inl e)
  then show ?thesis by (simp add: SelectReplicaPeerIDs_def)
next
  case (Inr t)
  let ?st = "Some [StateActive \<mapsto> True]"
  have t: "is_key t" "length t = 32" using KeyFromHex_length [OF Inr] by (simp_all add: is_key_def keyBytes_def)
  let ?c = "\<lambda>ks. map rec_ID (filter (candidate selfID ?st) (Snapshot ks r))"
  note c = candidate_list [OF assms(1,2), of "candidate selfID ?st", folded eligible_def]
  note c' = candidate_list [OF assms(1,3), of "candidate selfID ?st", folded eligible_def]
  have "\<forall>i\<in>set (?c ks). is_key (key_or_nil i)"
    using key_or_nil_valid by auto
  then have "sort_key (peer_rank t) (?c ks) = sort_key (peer_rank t) (?c ks')"
    using xor_keys.order_free [OF t(1), of "?c ks" key_or_nil "?c ks'"] c c' assms(4)
    by (simp add: peer_rank_def [abs_def])
  then have same: "ClosestPeerIDs ks' t k selfID ?st r = ClosestPeerIDs ks t k selfID ?st r"
    by (simp add: ClosestPeerIDs_eq [OF assms(1) _ t(1)] assms)
  obtain ids where ids: "ClosestPeerIDs ks t k selfID ?st r = Some ids" "distinct ids"
      "set ids \<subseteq> eligible selfID ?st r" "length ids \<le> nat k"
    using ClosestPeerIDs_found [OF assms(1,2) t(2), of k selfID ?st] by auto
  have "rec_State rec = StateActive" "pid \<noteq> selfID"
    if "candidate selfID ?st rec" "Get pid r = Some rec" for pid rec
    using that reg_wfD(2) [OF assms(1)] by (auto simp: candidate_def Get_def split: if_splits)
  then have "selfID \<notin> eligible selfID ?st r"
      "eligible selfID ?st r \<subseteq> {pid. \<exists>rec. Get pid r = Some rec \<and> rec_State rec = StateActive}"
    by (fastforce simp: eligible_def)+
  then have "selfID \<notin> set ids"
      "set ids \<subseteq> {pid. \<exists>rec. Get pid r = Some rec \<and> rec_State rec = StateActive}"
    using ids(3) by blast+
  then show ?thesis using ids same Inr by (simp add: SelectReplicaPeerIDs_def)
qed

lemma ex_near_active: "eligible ''me'' (Some [StateActive \<mapsto> True]) ex_near = {ex_idA, ex_idB}"
  by (auto simp: eligible_def ex_near_def Get_def candidate_def split: if_splits)

theorem SelectReplicaPeerIDs_spec_witness:
  "\<exists>ids. SelectReplicaPeerIDs [ex_idA, ex_idB] ex_idA 1 ''me'' ex_near = Some (Inr ids) \<and>
     SelectReplicaPeerIDs [ex_idB, ex_idA] ex_idA 1 ''me'' ex_near = Some (Inr ids) \<and> length ids \<le> 1"
proof -
  have "is_order [ex_idB, ex_idA] (reg_peers ex_near)" using ex_near_ok(2) by (auto simp: is_order_def)
  moreover have "inj_on key_or_nil {ex_idA, ex_idB}" by (simp add: key_or_nil_def)
  ultimately show ?thesis
    using SelectReplicaPeerIDs_spec [of ex_near "[ex_idA, ex_idB]" "[ex_idB, ex_idA]" "''me''" ex_idA 1]
    by (auto simp: ex_near_active)
qed

end
