(* ===== verification/Providers.thy ===== *)
theory Providers
  imports Prelude
begin

text \<open>
  The provider records of a node: \<open>internal/dht/provider_records.go\<close>, and the message
  \<open>PeerEndpoint\<close> of \<open>proto/node.proto\<close>. \<open>ProviderRecords\<close> is the field \<open>m\<close> of the
  struct, a map from content id to a map from peer id to endpoint; the lock makes each
  method atomic. The receiver is never nil in the program (\<open>NewPeerHost\<close> builds it).

  The abstract view of the table is the set of its triples (content id, peer id, endpoint);
  the locale \<open>provider_index\<close> states what the rest of the node relies on.
\<close>

record PeerEndpoint =
  ep_PeerId :: string
  ep_GrpcAddr :: string
  ep_HttpAddr :: string

type_synonym ProviderRecords = "string \<rightharpoonup> (string \<rightharpoonup> PeerEndpoint)"

definition NewProviderRecords :: ProviderRecords where
  "NewProviderRecords = Map.empty"

definition prov_Add :: "string \<Rightarrow> PeerEndpoint option \<Rightarrow> ProviderRecords \<Rightarrow> ProviderRecords" where
  "prov_Add cidHex epp p =
     (case epp of
        None \<Rightarrow> p
      | Some ep \<Rightarrow>
          if ep_PeerId ep = '''' then p
          else
            let p1 = (if p cidHex = None then p(cidHex \<mapsto> Map.empty) else p)
            in case p1 cidHex of
                 None \<Rightarrow> p1
               | Some mp \<Rightarrow> p1(cidHex \<mapsto> mp(ep_PeerId ep \<mapsto> ep)))"

text \<open>\<open>ks\<close> is the order of the loop over the inner map; an absent one gives nil.\<close>

definition prov_Get :: "string list \<Rightarrow> string \<Rightarrow> ProviderRecords \<Rightarrow> PeerEndpoint list" where
  "prov_Get ks cidHex p =
     (case p cidHex of
        None \<Rightarrow> []
      | Some mp \<Rightarrow> if card (dom mp) = 0 then [] else range_values ks mp)"

fun prov_Merge :: "string \<Rightarrow> PeerEndpoint option list \<Rightarrow> ProviderRecords \<Rightarrow> ProviderRecords" where
  "prov_Merge cidHex [] p = p"
| "prov_Merge cidHex (ep # eps) p = prov_Merge cidHex eps (prov_Add cidHex ep p)"

definition drop_provider :: "string \<Rightarrow> string \<Rightarrow> ProviderRecords \<Rightarrow> ProviderRecords" where
  "drop_provider peerID cidHex p =
     (case p cidHex of
        None \<Rightarrow> p
      | Some mp \<Rightarrow>
          let mp' = mp(peerID := None)
          in if card (dom mp') = 0 then p(cidHex := None) else p(cidHex \<mapsto> mp'))"

definition prov_RemovePeer :: "string list \<Rightarrow> string \<Rightarrow> ProviderRecords \<Rightarrow> ProviderRecords" where
  "prov_RemovePeer ks peerID p =
     (if peerID = '''' then p else foldl (\<lambda>p cidHex. drop_provider peerID cidHex p) p ks)"

section \<open>Invariant and abstraction\<close>

definition prov_abs :: "ProviderRecords \<Rightarrow> (string \<times> string \<times> PeerEndpoint) set" where
  "prov_abs p = {(c, i, e). \<exists>mp. p c = Some mp \<and> mp i = Some e}"

text \<open>Inner maps are finite and never empty, and an endpoint is stored under its own id.\<close>

definition prov_wf :: "ProviderRecords \<Rightarrow> bool" where
  "prov_wf p \<longleftrightarrow> finite (dom p) \<and>
     (\<forall>c mp. p c = Some mp \<longrightarrow> finite (dom mp) \<and> dom mp \<noteq> {} \<and>
        (\<forall>i e. mp i = Some e \<longrightarrow> ep_PeerId e = i \<and> i \<noteq> ''''))"

lemma prov_absI: "p c = Some mp \<Longrightarrow> mp i = Some e \<Longrightarrow> (c, i, e) \<in> prov_abs p"
  by (auto simp: prov_abs_def)

lemma prov_wf_new [simp]: "prov_wf NewProviderRecords"
  by (simp add: prov_wf_def NewProviderRecords_def)

lemma prov_abs_new [simp]: "prov_abs NewProviderRecords = {}"
  by (simp add: prov_abs_def NewProviderRecords_def)

lemma prov_Add_eq:
  "prov_Add c (Some e) p =
     (if ep_PeerId e = '''' then p
      else p(c \<mapsto> (case p c of None \<Rightarrow> Map.empty | Some mp \<Rightarrow> mp)(ep_PeerId e \<mapsto> e)))"
  by (auto simp: prov_Add_def Let_def split: option.split)

lemma prov_Add_nil [simp]: "prov_Add c None p = p"
  by (simp add: prov_Add_def)

lemma prov_Add_no_id [simp]: "ep_PeerId e = '''' \<Longrightarrow> prov_Add c (Some e) p = p"
  by (simp add: prov_Add_def)

lemma prov_wf_Add: "prov_wf p \<Longrightarrow> prov_wf (prov_Add c epp p)"
  by (cases epp) (auto simp: prov_wf_def prov_Add_eq split: option.split)

lemma prov_abs_Add:
  "ep_PeerId e \<noteq> '''' \<Longrightarrow>
   prov_abs (prov_Add c (Some e) p) =
     {t \<in> prov_abs p. fst t \<noteq> c \<or> fst (snd t) \<noteq> ep_PeerId e} \<union> {(c, ep_PeerId e, e)}"
  by (auto simp: prov_abs_def prov_Add_eq split: option.splits if_splits)

lemma prov_wf_Merge: "prov_wf p \<Longrightarrow> prov_wf (prov_Merge c eps p)"
  by (induction c eps p rule: prov_Merge.induct) (auto simp: prov_wf_Add)

lemma set_prov_Get:
  assumes "prov_wf p" "p c = Some mp" "is_order ks mp"
  shows "set (prov_Get ks c p) = {e. \<exists>i. (c, i, e) \<in> prov_abs p}"
  using assms by (auto simp: prov_wf_def prov_Get_def prov_abs_def set_range_values_order ran_def)

text \<open>What removing a peer leaves of one inner map.\<close>

definition without_peer :: "string \<Rightarrow> (string \<rightharpoonup> PeerEndpoint) option \<Rightarrow> (string \<rightharpoonup> PeerEndpoint) option" where
  "without_peer i x =
     (case x of None \<Rightarrow> None | Some mp \<Rightarrow> if dom mp \<subseteq> {i} then None else Some (mp(i := None)))"

lemma drop_provider_at:
  assumes "prov_wf p" shows "drop_provider i c p = p(c := without_peer i (p c))"
proof (cases "p c")
  case None
  then show ?thesis by (auto simp: drop_provider_def without_peer_def fun_eq_iff)
next
  case (Some mp)
  then have "finite (dom mp)" using assms by (auto simp: prov_wf_def)
  then have "card (dom (mp(i := None))) = 0 \<longleftrightarrow> dom mp \<subseteq> {i}" by auto
  with Some show ?thesis by (simp add: drop_provider_def Let_def without_peer_def)
qed

lemma without_peer_Some:
  "without_peer i x = Some mp' \<longleftrightarrow> (\<exists>mp. x = Some mp \<and> \<not> dom mp \<subseteq> {i} \<and> mp' = mp(i := None))"
  by (auto simp: without_peer_def split: option.splits)

definition inner_wf :: "(string \<rightharpoonup> PeerEndpoint) \<Rightarrow> bool" where
  "inner_wf mp \<longleftrightarrow> finite (dom mp) \<and> dom mp \<noteq> {} \<and>
     (\<forall>i e. mp i = Some e \<longrightarrow> ep_PeerId e = i \<and> i \<noteq> [])"

lemma prov_wf_inner: "prov_wf p \<longleftrightarrow> finite (dom p) \<and> (\<forall>c mp. p c = Some mp \<longrightarrow> inner_wf mp)"
  by (simp add: prov_wf_def inner_wf_def)

lemma inner_wf_cut:
  assumes "inner_wf mp" "\<not> dom mp \<subseteq> {i}" shows "inner_wf (mp(i := None))"
proof -
  have "dom (mp(i := None)) = dom mp - {i}" by simp
  moreover have "dom mp - {i} \<noteq> {}" using assms(2) by blast
  ultimately show ?thesis using assms(1) unfolding inner_wf_def
    by (metis finite_Diff fun_upd_apply option.distinct(1))
qed

lemma prov_wf_cut:
  assumes "prov_wf p" shows "prov_wf (p(c := without_peer i (p c)))"
proof -
  have "finite (dom (p(c := without_peer i (p c))))"
    using assms by (cases "without_peer i (p c)") (simp_all add: prov_wf_inner)
  moreover have "inner_wf mp" if "(p(c := without_peer i (p c))) d = Some mp" for d mp
  proof (cases "d = c")
    case True
    with that have "without_peer i (p c) = Some mp" by simp
    then obtain mq where "p c = Some mq" "\<not> dom mq \<subseteq> {i}" "mp = mq(i := None)"
      unfolding without_peer_Some by blast
    moreover from this(1) assms have "inner_wf mq" by (simp add: prov_wf_inner)
    ultimately show ?thesis using inner_wf_cut by blast
  qed (use that assms in \<open>simp add: prov_wf_inner\<close>)
  ultimately show ?thesis by (simp add: prov_wf_inner)
qed

lemma prov_wf_drop: "prov_wf p \<Longrightarrow> prov_wf (drop_provider i c p)"
  by (simp add: drop_provider_at prov_wf_cut)

text \<open>The loop over all content ids is a pointwise update.\<close>

lemma drop_provider_loop:
  "prov_wf p \<Longrightarrow> distinct ks \<Longrightarrow>
   foldl (\<lambda>p cidHex. drop_provider i cidHex p) p ks c =
     (if c \<in> set ks then without_peer i (p c) else p c)"
proof (induction ks arbitrary: p)
  case (Cons k ks)
  from Cons.IH [OF prov_wf_drop [OF Cons.prems(1), of i k]] Cons.prems
  have "foldl (\<lambda>p cidHex. drop_provider i cidHex p) (drop_provider i k p) ks c =
    (if c \<in> set ks then without_peer i (drop_provider i k p c) else drop_provider i k p c)" by simp
  with Cons.prems show ?case by (simp add: drop_provider_at)
qed simp

lemma prov_RemovePeer_at:
  assumes "prov_wf p" "is_order ks p" "i \<noteq> ''''"
  shows "prov_RemovePeer ks i p c = without_peer i (p c)"
proof -
  have "p c = None" if "c \<notin> set ks" using that assms(2) by (auto simp: is_order_def)
  then show ?thesis
    using drop_provider_loop [OF assms(1), of ks i c] assms(2,3)
    by (auto simp: prov_RemovePeer_def is_order_def without_peer_def)
qed

lemma prov_wf_RemovePeer:
  assumes "prov_wf p" shows "prov_wf (prov_RemovePeer ks i p)"
proof -
  have "prov_wf p \<Longrightarrow> prov_wf (foldl (\<lambda>p cidHex. drop_provider i cidHex p) p ks)" for p
    by (induction ks arbitrary: p) (auto intro: prov_wf_drop)
  with assms show ?thesis by (simp add: prov_RemovePeer_def)
qed

lemma without_peer_lookup:
  "(\<exists>mp'. without_peer i x = Some mp' \<and> mp' j = Some e) \<longleftrightarrow>
   (\<exists>mp. x = Some mp \<and> j \<noteq> i \<and> mp j = Some e)"
  by (auto simp: without_peer_def split: option.splits if_splits)

lemma prov_abs_RemovePeer:
  assumes "prov_wf p" "is_order ks p" "i \<noteq> ''''"
  shows "prov_abs (prov_RemovePeer ks i p) = {t \<in> prov_abs p. fst (snd t) \<noteq> i}"
  unfolding prov_abs_def prov_RemovePeer_at [OF assms] without_peer_lookup by auto

section \<open>The table as a history of announcements\<close>

text \<open>
  The two ways the table changes: a provider is announced for a content id, or a peer is
  forgotten for every content id. \<open>latest\<close> reads a history, newest event first: the endpoint
  of a peer for a content id is the one of its last announcement, unless the peer was
  forgotten since.
\<close>

datatype prov_event = Announce string PeerEndpoint | Forget string

fun latest :: "string \<Rightarrow> string \<Rightarrow> prov_event list \<Rightarrow> PeerEndpoint option" where
  "latest c i [] = None"
| "latest c i (Announce c' e # h) =
     (if c' = c \<and> ep_PeerId e = i \<and> i \<noteq> '''' then Some e else latest c i h)"
| "latest c i (Forget j # h) = (if j = i \<and> i \<noteq> '''' then None else latest c i h)"

text \<open>
  The contract of a provider index, over its abstract view. Forgetting is a relation because
  the code visits its table in an unspecified order.
\<close>

locale provider_index =
  fixes empty :: "'p"
    and announce :: "string \<Rightarrow> PeerEndpoint \<Rightarrow> 'p \<Rightarrow> 'p"
    and forget :: "string \<Rightarrow> 'p \<Rightarrow> 'p \<Rightarrow> bool"
    and view :: "'p \<Rightarrow> (string \<times> string \<times> PeerEndpoint) set"
    and ok :: "'p \<Rightarrow> bool"
  assumes view_empty: "view empty = {}"
    and ok_empty: "ok empty"
    and view_announce: "ok p \<Longrightarrow> ep_PeerId e \<noteq> '''' \<Longrightarrow> view (announce c e p) =
          {t \<in> view p. fst t \<noteq> c \<or> fst (snd t) \<noteq> ep_PeerId e} \<union> {(c, ep_PeerId e, e)}"
    and announce_no_id: "ep_PeerId e = '''' \<Longrightarrow> announce c e p = p"
    and ok_announce: "ok p \<Longrightarrow> ok (announce c e p)"
    and view_forget: "ok p \<Longrightarrow> i \<noteq> '''' \<Longrightarrow> forget i p q \<Longrightarrow> view q = {t \<in> view p. fst (snd t) \<noteq> i}"
    and forget_no_id: "forget '''' p q \<Longrightarrow> q = p"
    and ok_forget: "ok p \<Longrightarrow> forget i p q \<Longrightarrow> ok q"
begin

lemma history_ok:
  "trace (\<lambda>ev p q. case ev of Announce c e \<Rightarrow> q = announce c e p | Forget i \<Rightarrow> forget i p q) empty h p \<Longrightarrow> ok p"
  by (induction rule: trace.induct)
    (auto simp: ok_empty ok_announce ok_forget split: prov_event.splits)

lemma history_view:
  "trace (\<lambda>ev p q. case ev of Announce c e \<Rightarrow> q = announce c e p | Forget i \<Rightarrow> forget i p q) empty h p \<Longrightarrow>
   (c, i, e) \<in> view p \<longleftrightarrow> latest c i (rev h) = Some e"
proof (induction arbitrary: e rule: trace.induct)
  case trace_nil
  then show ?case by (simp add: view_empty)
next
  case (trace_snoc h p ev q)
  have ok: "ok p" by (rule history_ok [OF trace_snoc.hyps(1)])
  show ?case
  proof (cases ev)
    case (Announce c' e')
    with trace_snoc.hyps(2) have "q = announce c' e' p" by simp
    then have "view q = (if ep_PeerId e' = '''' then view p else
        {t \<in> view p. fst t \<noteq> c' \<or> fst (snd t) \<noteq> ep_PeerId e'} \<union> {(c', ep_PeerId e', e')})"
      by (simp add: announce_no_id view_announce [OF ok])
    then show ?thesis by (auto simp: Announce trace_snoc.IH)
  next
    case (Forget j)
    with trace_snoc.hyps(2) have f: "forget j p q" by simp
    show ?thesis
    proof (cases "j = ''''")
      case True
      with f forget_no_id have "q = p" by simp
      with Forget True trace_snoc.IH show ?thesis by auto
    next
      case False
      with view_forget [OF ok False f] Forget trace_snoc.IH show ?thesis by auto
    qed
  qed
qed

end

definition prov_forget :: "string \<Rightarrow> ProviderRecords \<Rightarrow> ProviderRecords \<Rightarrow> bool" where
  "prov_forget i p q \<longleftrightarrow> (\<exists>ks. is_order ks p \<and> q = prov_RemovePeer ks i p)"

interpretation providers: provider_index NewProviderRecords "\<lambda>c e. prov_Add c (Some e)"
  prov_forget prov_abs prov_wf
proof unfold_locales
  fix i p q assume "prov_wf p" "i \<noteq> ''''" "prov_forget i p q"
  then show "prov_abs q = {t \<in> prov_abs p. fst (snd t) \<noteq> i}"
    by (auto simp: prov_forget_def prov_abs_RemovePeer)
next
  fix p q assume "prov_forget '''' p q"
  then show "q = p" by (auto simp: prov_forget_def prov_RemovePeer_def)
qed (auto simp: prov_abs_Add prov_wf_Add prov_forget_def intro: prov_wf_RemovePeer)

definition prov_step :: "prov_event \<Rightarrow> ProviderRecords \<Rightarrow> ProviderRecords \<Rightarrow> bool" where
  "prov_step ev p q = (case ev of Announce c e \<Rightarrow> q = prov_Add c (Some e) p | Forget i \<Rightarrow> prov_forget i p q)"

text \<open>
  After any history of announcements and removals, \<open>Get\<close> lists for a content id exactly
  the endpoints last announced by the peers that were not removed since.
\<close>

theorem prov_Get_history:
  assumes run: "trace prov_step NewProviderRecords h p"
    and ks: "case p c of None \<Rightarrow> True | Some mp \<Rightarrow> is_order ks mp"
  shows "set (prov_Get ks c p) = {e. \<exists>i. latest c i (rev h) = Some e}"
proof -
  have run': "trace (\<lambda>ev p q. case ev of Announce c e \<Rightarrow> q = prov_Add c (Some e) p
      | Forget i \<Rightarrow> prov_forget i p q) NewProviderRecords h p"
    using run by (simp add: prov_step_def [abs_def])
  have "set (prov_Get ks c p) = {e. \<exists>i. (c, i, e) \<in> prov_abs p}"
  proof (cases "p c")
    case None
    then show ?thesis by (simp add: prov_Get_def prov_abs_def)
  next
    case (Some mp)
    with ks show ?thesis by (intro set_prov_Get [OF providers.history_ok [OF run'] Some]) simp
  qed
  then show ?thesis by (simp add: providers.history_view [OF run'])
qed

definition ex_ep :: PeerEndpoint where
  "ex_ep = \<lparr>ep_PeerId = ''b'', ep_GrpcAddr = ''i:1'', ep_HttpAddr = ''''\<rparr>"

theorem prov_Get_history_witness:
  "set (prov_Get [''b''] ''c'' (prov_Add ''c'' (Some ex_ep) NewProviderRecords)) = {ex_ep}"
proof -
  have "trace prov_step NewProviderRecords ([] @ [Announce ''c'' ex_ep]) (prov_Add ''c'' (Some ex_ep) NewProviderRecords)"
    by (rule trace_snoc [OF trace_nil]) (simp add: prov_step_def)
  from prov_Get_history [OF this, where c = "''c''" and ks = "[''b'']"] show ?thesis
    by (auto simp: prov_Add_eq ex_ep_def NewProviderRecords_def is_order_def)
qed

text \<open>
  Adding commutes for different peers, so the table does not depend on the order in which
  announcements of different peers, or for different content, arrive.
\<close>

theorem prov_Add_commute:
  assumes "c \<noteq> d \<or> ep_PeerId e \<noteq> ep_PeerId f"
  shows "prov_Add c (Some e) (prov_Add d (Some f) p) = prov_Add d (Some f) (prov_Add c (Some e) p)"
  using assms by (auto simp: prov_Add_eq fun_eq_iff split: option.split)

theorem prov_Add_commute_witness:
  "prov_Add ''c'' (Some ex_ep) (prov_Add ''d'' (Some ex_ep) NewProviderRecords) =
   prov_Add ''d'' (Some ex_ep) (prov_Add ''c'' (Some ex_ep) NewProviderRecords)"
  by (rule prov_Add_commute) simp

end
