(* ===== verification/Transport.thy ===== *)
theory Transport
  imports Providers
begin

text \<open>
  Outbound calls: the messages of \<open>proto/node.proto\<close>, the connection pool
  \<open>internal/network/connection_pool.go\<close>, and \<open>grpc_client.go\<close> and \<open>transport.go\<close> of the
  same package.

  What lies outside the program is the \<open>runtime\<close> record, a parameter of every definition
  that leaves the process: the clock, the orders the Go runtime draws for map ranges and for
  the completion of goroutines, and gRPC (dialing, closing, and one field per client method:
  a failed call is an error text, a successful one a message). All of it acts on a world of
  unspecified type, so peers may answer anything, differently each time.
\<close>

section \<open>Messages\<close>

record PingRequest =
  ping_PeerId :: string

record PingResponse =
  pong_Ok :: bool

record StoreBlockRequest =
  sb_Cid :: string
  sb_Data :: bytes

record StoreBlockResponse =
  sbr_Ok :: bool
  sbr_ErrorMessage :: string

record GetBlockRequest =
  gb_Cid :: string

record GetBlockResponse =
  gbr_Data :: bytes
  gbr_ErrorMessage :: string

record FindProviderRequest =
  fp_Cid :: string

text \<open>Repeated message fields are slices of pointers, which Go code may find nil.\<close>

record FindProviderResponse =
  fpr_Providers :: "PeerEndpoint option list"

record JoinNetworkRequest =
  jn_Self :: "PeerEndpoint option"

record JoinNetworkResponse =
  jnr_KnownPeers :: "PeerEndpoint option list"
  jnr_Accepted :: bool
  jnr_ErrorMessage :: string

section \<open>The runtime\<close>

text \<open>A context is the deadline in force, if any.\<close>

type_synonym ctx = "time option"

record ('c, 'e) runtime =
  rt_now :: "'e \<Rightarrow> time"
  rt_range :: "string set \<Rightarrow> 'e \<Rightarrow> string list \<times> 'e"
  rt_sched :: "nat \<Rightarrow> 'e \<Rightarrow> nat list \<times> 'e"
  rt_DialContext :: "ctx \<Rightarrow> string \<Rightarrow> 'e \<Rightarrow> (error + 'c) \<times> 'e"
  rt_ConnClose :: "'c \<Rightarrow> 'e \<Rightarrow> error option \<times> 'e"
  rt_Ping :: "ctx \<Rightarrow> 'c \<Rightarrow> PingRequest \<Rightarrow> 'e \<Rightarrow> (error + PingResponse) \<times> 'e"
  rt_StoreBlock :: "ctx \<Rightarrow> 'c \<Rightarrow> StoreBlockRequest \<Rightarrow> 'e \<Rightarrow> (error + StoreBlockResponse) \<times> 'e"
  rt_GetBlock :: "ctx \<Rightarrow> 'c \<Rightarrow> GetBlockRequest \<Rightarrow> 'e \<Rightarrow> (error + GetBlockResponse) \<times> 'e"
  rt_FindProvider :: "ctx \<Rightarrow> 'c \<Rightarrow> FindProviderRequest \<Rightarrow> 'e \<Rightarrow> (error + FindProviderResponse) \<times> 'e"
  rt_JoinNetwork :: "ctx \<Rightarrow> 'c \<Rightarrow> JoinNetworkRequest \<Rightarrow> 'e \<Rightarrow> (error + JoinNetworkResponse) \<times> 'e"

text \<open>
  What the language promises of the drawn orders: a range visits every key once, and every
  one of n goroutines completes once.
\<close>

definition runtime_ok :: "('c, 'e) runtime \<Rightarrow> bool" where
  "runtime_ok rt \<longleftrightarrow>
     (\<forall>K e. finite K \<longrightarrow> distinct (fst (rt_range rt K e)) \<and> set (fst (rt_range rt K e)) = K) \<and>
     (\<forall>n e. distinct (fst (rt_sched rt n e)) \<and> set (fst (rt_sched rt n e)) = {..<n})"

lemma runtime_order [go_range]:
  "runtime_ok rt \<Longrightarrow> finite (dom m) \<Longrightarrow> rt_range rt (dom m) e = (ks, e') \<Longrightarrow> is_order ks m"
  by (metis runtime_ok_def is_order_def fst_conv)

lemma runtime_sched:
  "runtime_ok rt \<Longrightarrow> rt_sched rt n e = (is, e') \<Longrightarrow> distinct is \<and> set is = {..<n}"
  by (metis runtime_ok_def fst_conv)

section \<open>Pool and client\<close>

text \<open>The pool and the world it talks to.\<close>

type_synonym ('c, 'e) net = "(string \<rightharpoonup> 'c) \<times> 'e"

definition NewPool :: "string \<rightharpoonup> 'c" where
  "NewPool = Map.empty"

definition WithDeadline :: "ctx \<Rightarrow> int \<Rightarrow> time \<Rightarrow> ctx" where
  "WithDeadline parent d now =
     Some (case parent of None \<Rightarrow> now + d | Some t \<Rightarrow> min t (now + d))"

definition WithTimeout ::
  "('c, 'e) runtime \<Rightarrow> ctx \<Rightarrow> int \<Rightarrow> (ctx \<Rightarrow> ('c, 'e) net \<Rightarrow> 'r \<times> ('c, 'e) net) \<Rightarrow>
   ('c, 'e) net \<Rightarrow> 'r \<times> ('c, 'e) net" where
  "WithTimeout rt parent d fn n = fn (WithDeadline parent d (rt_now rt (snd n))) n"

definition DialPeer :: "('c, 'e) runtime \<Rightarrow> ctx \<Rightarrow> string \<Rightarrow> 'e \<Rightarrow> (error + 'c) \<times> 'e" where
  "DialPeer rt ctx addr e = rt_DialContext rt (WithDeadline ctx (8 * second) (rt_now rt e)) addr e"

definition Conn ::
  "('c, 'e) runtime \<Rightarrow> ctx \<Rightarrow> string \<Rightarrow> ('c, 'e) net \<Rightarrow> (error + 'c) \<times> ('c, 'e) net" where
  "Conn rt ctx addr n =
     (case n of (conns, e) \<Rightarrow>
        case conns addr of
          Some c \<Rightarrow> (Inr c, n)
        | None \<Rightarrow>
            (case DialPeer rt ctx addr e of
               (Inl err, e') \<Rightarrow> (Inl err, (conns, e'))
             | (Inr c, e') \<Rightarrow> (Inr c, (conns(addr \<mapsto> c), e'))))"

definition NodeClient ::
  "('c, 'e) runtime \<Rightarrow> ctx \<Rightarrow> string \<Rightarrow> ('c, 'e) net \<Rightarrow> (error + 'c) \<times> ('c, 'e) net" where
  "NodeClient rt ctx addr n =
     (case Conn rt ctx addr n of (Inl err, n') \<Rightarrow> (Inl err, n') | (Inr c, n') \<Rightarrow> (Inr c, n'))"

text \<open>\<open>ks\<close> is the order of the loop over the connections.\<close>

fun close_conns ::
  "('c, 'e) runtime \<Rightarrow> string list \<Rightarrow> error option \<Rightarrow> ('c, 'e) net \<Rightarrow> error option \<times> ('c, 'e) net" where
  "close_conns rt [] firstErr n = (firstErr, n)"
| "close_conns rt (addr # ks) firstErr (conns, e) =
     (case conns addr of
        None \<Rightarrow> close_conns rt ks firstErr (conns, e)
      | Some c \<Rightarrow>
          (case rt_ConnClose rt c e of (err, e') \<Rightarrow>
             close_conns rt ks (if err \<noteq> None \<and> firstErr = None then err else firstErr)
               (conns(addr := None), e')))"

definition pool_Close :: "('c, 'e) runtime \<Rightarrow> ('c, 'e) net \<Rightarrow> error option \<times> ('c, 'e) net" where
  "pool_Close rt n =
     (case n of (conns, e) \<Rightarrow>
        case rt_range rt (dom conns) e of (ks, e') \<Rightarrow> close_conns rt ks None (conns, e'))"

text \<open>
  \<open>status_code\<close> stands for \<open>status.FromError\<close>: the gRPC code an error carries, if it is a
  status. The codes are those of the gRPC protocol.
\<close>

definition codes_DeadlineExceeded :: nat where "codes_DeadlineExceeded = 4"
definition codes_ResourceExhausted :: nat where "codes_ResourceExhausted = 8"
definition codes_Unavailable :: nat where "codes_Unavailable = 14"

definition IsUnavailable :: "(error \<Rightarrow> nat option) \<Rightarrow> error option \<Rightarrow> bool" where
  "IsUnavailable status_code err =
     (case err of
        None \<Rightarrow> False
      | Some e \<Rightarrow>
          (case status_code e of
             None \<Rightarrow> True
           | Some c \<Rightarrow> c = codes_Unavailable \<or> c = codes_DeadlineExceeded \<or> c = codes_ResourceExhausted))"

text \<open>
  The call pattern of every caller: under a timeout, get a client for the address, return
  its error, or go on with the body.
\<close>

definition with_client ::
  "('c, 'e) runtime \<Rightarrow> ctx \<Rightarrow> int \<Rightarrow> string \<Rightarrow> (ctx \<Rightarrow> 'c \<Rightarrow> 'e \<Rightarrow> (error + 'r) \<times> 'e) \<Rightarrow>
   ('c, 'e) net \<Rightarrow> (error + 'r) \<times> ('c, 'e) net" where
  "with_client rt ctx d addr body =
     WithTimeout rt ctx d (\<lambda>cctx n.
       case NodeClient rt cctx addr n of
         (Inl err, n') \<Rightarrow> (Inl err, n')
       | (Inr cli, (conns, e)) \<Rightarrow>
           (case body cctx cli e of (r, e') \<Rightarrow> (r, (conns, e'))))"

section \<open>The pool\<close>

lemma NodeClient_Conn [simp]: "NodeClient rt ctx addr n = Conn rt ctx addr n"
  by (auto simp: NodeClient_def split: prod.split sum.split)

lemma Conn_cached [simp]: "conns addr = Some c \<Longrightarrow> Conn rt ctx addr (conns, e) = (Inr c, (conns, e))"
  by (simp add: Conn_def)

lemma Conn_dials:
  "conns addr = None \<Longrightarrow> Conn rt ctx addr (conns, e) =
     (case DialPeer rt ctx addr e of
        (Inl err, e') \<Rightarrow> (Inl err, (conns, e'))
      | (Inr c, e') \<Rightarrow> (Inr c, (conns(addr \<mapsto> c), e')))"
  by (simp add: Conn_def)

text \<open>
  The pool dials an address once. A successful \<open>Conn\<close> leaves the connection it returned
  in the pool, from where every later call for the address takes it without touching the
  network, whatever its context; a failed dial caches nothing; and no other address is
  affected.
\<close>

theorem Conn_spec:
  "case Conn rt ctx addr (conns, e) of
     (Inl err, (conns', e')) \<Rightarrow> conns' = conns \<and> conns addr = None
   | (Inr c, (conns', e')) \<Rightarrow>
       conns' = conns(addr \<mapsto> c) \<and> Conn rt ctx' addr (conns', e'') = (Inr c, (conns', e''))"
proof (cases "conns addr")
  case None
  then show ?thesis by (simp add: Conn_dials split: prod.split sum.split)
next
  case (Some c)
  then show ?thesis by (simp add: fun_upd_idem)
qed

lemma finite_Conn: "finite (dom (fst n)) \<Longrightarrow> Conn rt ctx addr n = (r, n') \<Longrightarrow> finite (dom (fst n'))"
  by (auto simp: Conn_def split: option.splits sum.splits prod.splits)

text \<open>The connections of the pool closed one after the other, and the errors they give.\<close>

fun close_all :: "('c, 'e) runtime \<Rightarrow> 'c list \<Rightarrow> 'e \<Rightarrow> error list \<times> 'e" where
  "close_all rt [] e = ([], e)"
| "close_all rt (c # cs) e =
     (case rt_ConnClose rt c e of (err, e') \<Rightarrow>
        case close_all rt cs e' of (errs, e'') \<Rightarrow>
          (case err of None \<Rightarrow> (errs, e'') | Some x \<Rightarrow> (x # errs, e'')))"

definition first_error :: "error option \<Rightarrow> error list \<Rightarrow> error option" where
  "first_error sofar errs = (case sofar of Some x \<Rightarrow> Some x | None \<Rightarrow> case errs of [] \<Rightarrow> None | x # _ \<Rightarrow> Some x)"

lemma close_conns_all:
  "distinct ks \<Longrightarrow> close_conns rt ks sofar (conns, e) =
     (case close_all rt (range_values ks conns) e of (errs, e') \<Rightarrow>
        (first_error sofar errs, (conns |` (- set ks), e')))"
proof (induction ks arbitrary: sofar conns e)
  case Nil
  then show ?case by (simp add: first_error_def restrict_map_def split: option.split)
next
  case (Cons k ks)
  have same: "range_values ks (conns(k := None)) = range_values ks conns"
    using Cons.prems by (induction ks) (auto split: option.split)
  have cut: "conns(k := None) |` (- set ks) = conns |` (- insert k (set ks))"
    by (auto simp: restrict_map_def)
  have skip: "conns k = None \<Longrightarrow> conns |` (- set ks) = conns |` (- insert k (set ks))"
    by (auto simp: restrict_map_def)
  show ?case
  proof (cases "conns k")
    case None
    with Cons skip show ?thesis by simp
  next
    case (Some c)
    obtain err e' where c: "rt_ConnClose rt c e = (err, e')" by fastforce
    with Cons Some show ?thesis
      by (auto simp: same cut [unfolded fun_upd_restrict_conv] cut first_error_def
          simp del: restrict_complement_singleton_eq restrict_fun_upd fun_upd_restrict_conv
          split: prod.split option.split list.split)
  qed
qed

text \<open>
  Closing the pool closes every pooled connection exactly once, in some order, goes on
  past failures, empties the pool, and reports the first error there was.
\<close>

theorem pool_Close_spec:
  assumes "runtime_ok rt" "finite (dom conns)"
  shows "\<exists>ks e1 errs e'. is_order ks conns \<and>
           close_all rt (map (the \<circ> conns) ks) e1 = (errs, e') \<and>
           pool_Close rt (conns, e) = (if errs = [] then None else Some (hd errs), (Map.empty, e'))"
proof -
  obtain ks e1 where ks: "rt_range rt (dom conns) e = (ks, e1)" by fastforce
  with assms have o: "is_order ks conns" by (rule_tac runtime_order)
  have "range_values l conns = map (the \<circ> conns) l" if "set l \<subseteq> dom conns" for l
    using that by (induction l) auto
  then have v: "range_values ks conns = map (the \<circ> conns) ks" using o by (simp add: is_order_def)
  have "conns |` (- dom conns) = Map.empty" by (auto simp: restrict_map_def)
  moreover obtain errs e' where "close_all rt (map (the \<circ> conns) ks) e1 = (errs, e')" by fastforce
  ultimately show ?thesis using ks o v
    by (intro exI [of _ ks] exI [of _ e1] exI [of _ errs] exI [of _ e'])
       (auto simp: pool_Close_def close_conns_all is_order_def first_error_def split: list.split)
qed

text \<open>A network for the examples: every address answers, with the block or peers given.\<close>

definition ex_rt :: "bytes \<Rightarrow> PeerEndpoint list \<Rightarrow> (string, nat) runtime" where
  "ex_rt block eps =
     \<lparr>rt_now = int, rt_range = (\<lambda>K e. (sorted_list_of_set K, e)), rt_sched = (\<lambda>n e. ([0..<n], e)),
      rt_DialContext = (\<lambda>ctx addr e. (Inr addr, e + 1)), rt_ConnClose = (\<lambda>c e. (Some c, e + 1)),
      rt_Ping = (\<lambda>ctx c req e. (Inr \<lparr>pong_Ok = True\<rparr>, e)),
      rt_StoreBlock = (\<lambda>ctx c req e. (Inr \<lparr>sbr_Ok = True, sbr_ErrorMessage = ''''\<rparr>, e)),
      rt_GetBlock = (\<lambda>ctx c req e. (Inr \<lparr>gbr_Data = block, gbr_ErrorMessage = ''''\<rparr>, e)),
      rt_FindProvider = (\<lambda>ctx c req e. (Inr \<lparr>fpr_Providers = map Some eps\<rparr>, e)),
      rt_JoinNetwork = (\<lambda>ctx c req e. (Inr \<lparr>jnr_KnownPeers = map Some eps, jnr_Accepted = True,
                                          jnr_ErrorMessage = ''''\<rparr>, e))\<rparr>"

lemma ex_rt_ok [simp]: "runtime_ok (ex_rt block eps)"
  by (auto simp: runtime_ok_def ex_rt_def)

theorem pool_Close_spec_witness:
  "\<exists>ks e1 errs e'. is_order ks [''a'' \<mapsto> ''c''] \<and>
     close_all (ex_rt [] []) (map (the \<circ> [''a'' \<mapsto> ''c'']) ks) e1 = (errs, e') \<and>
     pool_Close (ex_rt [] []) ([''a'' \<mapsto> ''c''], 5) =
       (if errs = [] then None else Some (hd errs), (Map.empty, e'))"
  by (rule pool_Close_spec) simp_all

end
