(* ===== verification/Lookup.thy ===== *)
theory Lookup
  imports Transport Peer
begin

text \<open>
  Finding the providers of a content id: \<open>internal/dht/lookup.go\<close>. The function collects the
  local records, then asks every other active peer in its own goroutine. The goroutines share
  the closure \<open>add\<close> under a mutex; each is one unit here, run in the order the runtime draws.
\<close>

section \<open>Operations\<close>

text \<open>The closure \<open>add\<close> over its two variables, the set of ids seen and the output.\<close>

definition lookup_add ::
  "string set \<times> PeerEndpoint list \<Rightarrow> PeerEndpoint option \<Rightarrow> string set \<times> PeerEndpoint list" where
  "lookup_add s ep =
     (case ep of
        None \<Rightarrow> s
      | Some ep \<Rightarrow>
          (case s of (seen, out) \<Rightarrow>
             if ep_PeerId ep = '''' then (seen, out)
             else if ep_PeerId ep \<in> seen then (seen, out)
             else (insert (ep_PeerId ep) seen, out @ [ep])))"

text \<open>The peers the loop starts a goroutine for, by their address.\<close>

definition lookup_targets :: "string \<Rightarrow> Record list \<Rightarrow> string list" where
  "lookup_targets selfGrpc peers =
     map rec_GrpcAddr
       (filter (\<lambda>pr. rec_State pr = StateActive \<and> rec_GrpcAddr pr \<noteq> '''' \<and> rec_GrpcAddr pr \<noteq> selfGrpc) peers)"

definition RetryAttempts :: nat where
  "RetryAttempts = 2"

record NetDefaults =
  nd_GRPCTimeoutSec :: int
  nd_RetryAttempts :: nat

definition DefaultNet :: NetDefaults where
  "DefaultNet = \<lparr>nd_GRPCTimeoutSec = DefaultGRPCTimeoutSec, nd_RetryAttempts = RetryAttempts\<rparr>"

text \<open>One goroutine: the call, and what it gave to add.\<close>

definition ask_provider ::
  "('c, 'e) runtime \<Rightarrow> ctx \<Rightarrow> string \<Rightarrow> string \<Rightarrow> ('c, 'e) net \<Rightarrow>
   (error + FindProviderResponse) \<times> ('c, 'e) net" where
  "ask_provider rt ctx cidHex addr n =
     with_client rt ctx (nd_GRPCTimeoutSec DefaultNet * second) addr
       (\<lambda>cctx cli e. rt_FindProvider rt cctx cli \<lparr>fp_Cid = cidHex\<rparr> e) n"

fun run_lookups ::
  "('c, 'e) runtime \<Rightarrow> ctx \<Rightarrow> string \<Rightarrow> string list \<Rightarrow> string set \<times> PeerEndpoint list \<Rightarrow>
   ('c, 'e) net \<Rightarrow> (string set \<times> PeerEndpoint list) \<times> ('c, 'e) net" where
  "run_lookups rt ctx cidHex [] s n = (s, n)"
| "run_lookups rt ctx cidHex (addr # addrs) s n =
     (case ask_provider rt ctx cidHex addr n of
        (Inl err, n') \<Rightarrow> run_lookups rt ctx cidHex addrs s n'
      | (Inr resp, n') \<Rightarrow>
          run_lookups rt ctx cidHex addrs (foldl lookup_add s (fpr_Providers resp)) n')"

definition LookupProviders ::
  "('c, 'e) runtime \<Rightarrow> ctx \<Rightarrow> ProviderRecords \<Rightarrow> string \<Rightarrow> Record list \<Rightarrow> string \<Rightarrow>
   ('c, 'e) net \<Rightarrow> PeerEndpoint list \<times> ('c, 'e) net" where
  "LookupProviders rt ctx local selfGrpc peers cidHex n =
     (case n of (conns, e) \<Rightarrow>
        case rt_range rt (case local cidHex of None \<Rightarrow> {} | Some mp \<Rightarrow> dom mp) e of
          (ks, e1) \<Rightarrow>
            let s = foldl lookup_add ({}, []) (map Some (prov_Get ks cidHex local));
                targets = lookup_targets selfGrpc peers
            in case rt_sched rt (length targets) e1 of
                 (perm, e2) \<Rightarrow>
                   (case run_lookups rt ctx cidHex (map (\<lambda>i. targets ! i) perm) s (conns, e2) of
                      ((seen, out), n') \<Rightarrow> (out, n')))"

section \<open>The endpoints collected\<close>

text \<open>The first endpoint offered for each nonempty peer id, in the order they were offered.\<close>

fun first_by_id :: "string set \<Rightarrow> PeerEndpoint list \<Rightarrow> PeerEndpoint list" where
  "first_by_id seen [] = []"
| "first_by_id seen (ep # eps) =
     (if ep_PeerId ep = '''' \<or> ep_PeerId ep \<in> seen then first_by_id seen eps
      else ep # first_by_id (insert (ep_PeerId ep) seen) eps)"

definition offered :: "PeerEndpoint option list \<Rightarrow> PeerEndpoint list" where
  "offered eps = List.map_filter (\<lambda>x. x) eps"

lemma offered_simps [simp]:
  "offered [] = []" "offered (None # eps) = offered eps" "offered (Some e # eps) = e # offered eps"
  "offered (xs @ ys) = offered xs @ offered ys"
  by (simp_all add: offered_def map_filter_simps) (simp add: map_filter_def)

lemma offered_map_Some [simp]: "offered (map Some eps) = eps"
  by (induction eps) simp_all

definition ids_seen :: "string set \<Rightarrow> PeerEndpoint list \<Rightarrow> string set" where
  "ids_seen seen eps = seen \<union> {i. i \<noteq> '''' \<and> (\<exists>e\<in>set eps. ep_PeerId e = i)}"

lemma lookup_add_fold:
  "foldl lookup_add (seen, out) eps = (ids_seen seen (offered eps), out @ first_by_id seen (offered eps))"
proof (induction eps arbitrary: seen out)
  case (Cons ep eps)
  then show ?case by (cases ep) (auto simp: lookup_add_def ids_seen_def)
qed (simp add: ids_seen_def)

lemma first_by_id_append:
  "first_by_id seen (xs @ ys) = first_by_id seen xs @ first_by_id (ids_seen seen xs) ys"
proof (induction xs arbitrary: seen)
  case (Cons x xs)
  have "ids_seen (insert (ep_PeerId x) seen) xs = ids_seen seen (x # xs)" if "ep_PeerId x \<noteq> ''''"
    using that by (auto simp: ids_seen_def)
  moreover have "ids_seen seen xs = ids_seen seen (x # xs)" if "ep_PeerId x = '''' \<or> ep_PeerId x \<in> seen"
    using that by (auto simp: ids_seen_def)
  ultimately show ?case using Cons by auto
qed (simp add: ids_seen_def)

lemma ids_seen_append: "ids_seen seen (xs @ ys) = ids_seen (ids_seen seen xs) ys"
  by (auto simp: ids_seen_def)

text \<open>The facts of the collection that the callers rest on.\<close>

lemma first_by_id_facts:
  "distinct (map ep_PeerId (first_by_id seen eps))" (is ?a)
  "set (first_by_id seen eps) \<subseteq> set eps" (is ?b)
  "ep_PeerId ` set (first_by_id seen eps) = ep_PeerId ` set eps - insert '''' seen" (is ?c)
proof -
  have "?a \<and> ?b \<and> ?c"
  proof (induction seen eps rule: first_by_id.induct)
    case (2 seen ep eps)
    then show ?case by (cases "ep_PeerId ep = '''' \<or> ep_PeerId ep \<in> seen") auto
  qed simp
  then show ?a ?b ?c by simp_all
qed

text \<open>The replies a run of goroutines got, in the order they arrived.\<close>

fun replies ::
  "('c, 'e) runtime \<Rightarrow> ctx \<Rightarrow> string \<Rightarrow> string list \<Rightarrow> ('c, 'e) net \<Rightarrow>
   PeerEndpoint option list \<times> ('c, 'e) net" where
  "replies rt ctx cidHex [] n = ([], n)"
| "replies rt ctx cidHex (addr # addrs) n =
     (case ask_provider rt ctx cidHex addr n of
        (r, n') \<Rightarrow>
          (case replies rt ctx cidHex addrs n' of
             (eps, n'') \<Rightarrow> ((case r of Inl _ \<Rightarrow> [] | Inr resp \<Rightarrow> fpr_Providers resp) @ eps, n'')))"

lemma run_lookups_replies:
  "run_lookups rt ctx cidHex addrs (seen, out) n =
     (case replies rt ctx cidHex addrs n of
        (eps, n') \<Rightarrow> ((ids_seen seen (offered eps), out @ first_by_id seen (offered eps)), n'))"
proof (induction addrs arbitrary: seen out n)
  case Nil
  then show ?case by (simp add: ids_seen_def)
next
  case (Cons a addrs)
  then show ?case
    by (auto simp: lookup_add_fold first_by_id_append ids_seen_append ids_seen_def [of seen "[]"]
        split: prod.split sum.split)
qed

section \<open>What a lookup returns\<close>

lemma map_perm_mset:
  "distinct perm \<Longrightarrow> set perm = {..<length xs} \<Longrightarrow> mset (map (\<lambda>i. xs ! i) perm) = mset xs"
proof -
  assume a: "distinct perm" "set perm = {..<length xs}"
  then have "mset perm = mset [0..<length xs]"
    by (metis set_eq_iff_mset_eq_distinct distinct_upt atLeast_upt)
  then have "mset (map (\<lambda>i. xs ! i) perm) = mset (map (\<lambda>i. xs ! i) [0..<length xs])" by simp
  then show ?thesis by (simp add: map_nth)
qed

lemma LookupProviders_eq:
  assumes "runtime_ok rt" "prov_wf local"
  obtains ks e1 perm addrs e2 eps n' where
    "rt_range rt (case local cid of None \<Rightarrow> {} | Some mp \<Rightarrow> dom mp) (snd n) = (ks, e1)"
    "rt_sched rt (length (lookup_targets self peers)) e1 = (perm, e2)"
    "\<And>mp. local cid = Some mp \<Longrightarrow> is_order ks mp"
    "mset addrs = mset (lookup_targets self peers)"
    "replies rt ctx cid addrs (fst n, e2) = (eps, n')"
    "LookupProviders rt ctx local self peers cid n =
       (first_by_id {} (prov_Get ks cid local @ offered eps), n')"
proof -
  let ?K = "case local cid of None \<Rightarrow> {} | Some mp \<Rightarrow> dom mp"
  let ?t = "lookup_targets self peers"
  obtain ks e1 where ks: "rt_range rt ?K (snd n) = (ks, e1)" by fastforce
  obtain perm e2 where pm: "rt_sched rt (length ?t) e1 = (perm, e2)" by fastforce
  let ?a = "map (\<lambda>i. ?t ! i) perm"
  obtain eps n' where r: "replies rt ctx cid ?a (fst n, e2) = (eps, n')" by (rule prod.exhaust)
  have "is_order ks mp" if "local cid = Some mp" for mp
    using runtime_order [OF assms(1), of mp "snd n" ks e1] that ks assms(2) by (auto simp: prov_wf_def)
  moreover have "mset ?a = mset ?t"
    using runtime_sched [OF assms(1) pm] by (intro map_perm_mset) simp_all
  moreover have "LookupProviders rt ctx local self peers cid n =
       (first_by_id {} (prov_Get ks cid local @ offered eps), n')"
    using ks pm r
    by (cases n) (simp add: LookupProviders_def Let_def lookup_add_fold run_lookups_replies first_by_id_append)
  ultimately show thesis using ks pm r by (rule_tac that)
qed

lemma first_by_id_self:
  "distinct (map ep_PeerId xs) \<Longrightarrow> \<forall>e\<in>set xs. ep_PeerId e \<noteq> '''' \<and> ep_PeerId e \<notin> seen \<Longrightarrow>
   first_by_id seen xs = xs"
proof (induction xs arbitrary: seen)
  case (Cons x xs)
  have "first_by_id (insert (ep_PeerId x) seen) xs = xs"
    by (rule Cons.IH) (use Cons.prems in \<open>auto simp: image_iff\<close>)
  with Cons.prems show ?case by simp
qed simp

lemma prov_Get_ids:
  assumes "prov_wf local" "\<And>mp. local cid = Some mp \<Longrightarrow> is_order ks mp"
  shows "first_by_id {} (prov_Get ks cid local) = prov_Get ks cid local"
proof (cases "local cid")
  case (Some mp)
  have "map ep_PeerId (range_values l mp) = l" if "set l \<subseteq> dom mp" for l
    using that assms(1) Some by (induction l) (auto simp: prov_wf_def)
  from this [of ks] have m: "map ep_PeerId (range_values ks mp) = ks" "distinct ks"
    using assms(2) [OF Some] by (simp_all add: is_order_def)
  have "'''' \<notin> dom mp" using assms(1) Some by (force simp: prov_wf_def)
  then have "'''' \<notin> ep_PeerId ` set (range_values ks mp)"
    using m assms(2) [OF Some] by (simp add: is_order_def flip: set_map)
  with m have "first_by_id {} (range_values ks mp) = range_values ks mp"
    by (intro first_by_id_self) (auto simp: image_iff)
  then show ?thesis using Some by (simp add: prov_Get_def)
qed (simp add: prov_Get_def)

lemma prov_Get_set:
  "prov_wf local \<Longrightarrow> (\<And>mp. local cid = Some mp \<Longrightarrow> is_order ks mp) \<Longrightarrow>
   set (prov_Get ks cid local) = {e. \<exists>i. (cid, i, e) \<in> prov_abs local}"
  by (cases "local cid") (auto simp: set_prov_Get, simp_all add: prov_Get_def prov_abs_def)



end
