(* ===== verification/Replication.thy ===== *)
theory Replication
  imports Transport
begin

text \<open>
  Moving blocks between nodes: \<open>internal/replication/replication_manager.go\<close> and
  \<open>internal/replication/recovery.go\<close>. The manager and its pool are never nil in the program
  (\<open>NewPeerHost\<close> sets both). \<open>verify\<close> stands for \<open>storage.VerifyCID\<close>, whose source is not in
  the repository; it is a parameter, and nothing is assumed of it here.
\<close>

section \<open>Operations\<close>

definition StoreOnPeer ::
  "('c, 'e) runtime \<Rightarrow> ctx \<Rightarrow> string \<Rightarrow> string \<Rightarrow> bytes \<Rightarrow> ('c, 'e) net \<Rightarrow>
   (error + unit) \<times> ('c, 'e) net" where
  "StoreOnPeer rt ctx grpcAddr c data n =
     with_client rt ctx (15 * second) grpcAddr
       (\<lambda>cctx cli e.
          case rt_StoreBlock rt cctx cli \<lparr>sb_Cid = c, sb_Data = data\<rparr> e of
            (Inl err, e') \<Rightarrow> (Inl err, e')
          | (Inr resp, e') \<Rightarrow>
              (if \<not> sbr_Ok resp
               then if sbr_ErrorMessage resp \<noteq> ''''
                    then (Inl (''store_block: '' @ sbr_ErrorMessage resp), e')
                    else (Inl ''store_block failed'', e')
               else (Inr (), e'))) n"

fun ReplicateToAddrs_from ::
  "error option \<Rightarrow> ('c, 'e) runtime \<Rightarrow> ctx \<Rightarrow> string list \<Rightarrow> string \<Rightarrow> bytes \<Rightarrow> ('c, 'e) net \<Rightarrow>
   error option \<times> ('c, 'e) net" where
  "ReplicateToAddrs_from lastErr rt ctx [] c data n = (lastErr, n)"
| "ReplicateToAddrs_from lastErr rt ctx (a # addrs) c data n =
     (case StoreOnPeer rt ctx a c data n of
        (Inl err, n') \<Rightarrow> ReplicateToAddrs_from (Some err) rt ctx addrs c data n'
      | (Inr _, n') \<Rightarrow> ReplicateToAddrs_from lastErr rt ctx addrs c data n')"

definition ReplicateToAddrs ::
  "('c, 'e) runtime \<Rightarrow> ctx \<Rightarrow> string list \<Rightarrow> string \<Rightarrow> bytes \<Rightarrow> ('c, 'e) net \<Rightarrow>
   error option \<times> ('c, 'e) net" where
  "ReplicateToAddrs = ReplicateToAddrs_from None"

text \<open>The call of one provider in \<open>FetchBlock\<close>.\<close>

definition fetch_from ::
  "('c, 'e) runtime \<Rightarrow> ctx \<Rightarrow> string \<Rightarrow> string \<Rightarrow> ('c, 'e) net \<Rightarrow> (error + bytes) \<times> ('c, 'e) net" where
  "fetch_from rt ctx cid addr n =
     with_client rt ctx (15 * second) addr
       (\<lambda>cctx cli e.
          case rt_GetBlock rt cctx cli \<lparr>gb_Cid = cid\<rparr> e of
            (Inl err, e') \<Rightarrow> (Inl err, e')
          | (Inr resp, e') \<Rightarrow>
              (if gbr_Data resp = []
               then if gbr_ErrorMessage resp \<noteq> '''' then (Inl (gbr_ErrorMessage resp), e')
                    else (Inl ''empty block'', e')
               else (Inr (gbr_Data resp), e'))) n"

fun FetchBlock_from ::
  "error option \<Rightarrow> (string \<Rightarrow> bytes \<Rightarrow> error option) \<Rightarrow> ('c, 'e) runtime \<Rightarrow> ctx \<Rightarrow> string \<Rightarrow>
   PeerEndpoint option list \<Rightarrow> ('c, 'e) net \<Rightarrow> (error + bytes) \<times> ('c, 'e) net" where
  "FetchBlock_from lastErr verify rt ctx cid [] n =
     (Inl (case lastErr of None \<Rightarrow> ''no providers for '' @ cid | Some err \<Rightarrow> err), n)"
| "FetchBlock_from lastErr verify rt ctx cid (None # eps) n =
     FetchBlock_from lastErr verify rt ctx cid eps n"
| "FetchBlock_from lastErr verify rt ctx cid (Some ep # eps) n =
     (if ep_GrpcAddr ep = '''' then FetchBlock_from lastErr verify rt ctx cid eps n
      else
        case fetch_from rt ctx cid (ep_GrpcAddr ep) n of
          (Inl err, n') \<Rightarrow> FetchBlock_from (Some err) verify rt ctx cid eps n'
        | (Inr data, n') \<Rightarrow>
            (case verify cid data of
               Some err \<Rightarrow> FetchBlock_from (Some err) verify rt ctx cid eps n'
             | None \<Rightarrow> (Inr data, n')))"

definition FetchBlock ::
  "(string \<Rightarrow> bytes \<Rightarrow> error option) \<Rightarrow> ('c, 'e) runtime \<Rightarrow> ctx \<Rightarrow> string \<Rightarrow>
   PeerEndpoint option list \<Rightarrow> ('c, 'e) net \<Rightarrow> (error + bytes) \<times> ('c, 'e) net" where
  "FetchBlock = FetchBlock_from None"

section \<open>Trying one provider after another\<close>

text \<open>
  The reference: the addresses tried, each with its outcome, up to the first that delivers a
  block that passes the check.
\<close>

definition attempt ::
  "(string \<Rightarrow> bytes \<Rightarrow> error option) \<Rightarrow> ('c, 'e) runtime \<Rightarrow> ctx \<Rightarrow> string \<Rightarrow> string \<Rightarrow>
   ('c, 'e) net \<Rightarrow> (error + bytes) \<times> ('c, 'e) net" where
  "attempt verify rt ctx cid addr n =
     (case fetch_from rt ctx cid addr n of
        (Inl err, n') \<Rightarrow> (Inl err, n')
      | (Inr data, n') \<Rightarrow>
          (case verify cid data of Some err \<Rightarrow> (Inl err, n') | None \<Rightarrow> (Inr data, n')))"

inductive failing ::
  "(string \<Rightarrow> bytes \<Rightarrow> error option) \<Rightarrow> ('c, 'e) runtime \<Rightarrow> ctx \<Rightarrow> string \<Rightarrow> string list \<Rightarrow>
   ('c, 'e) net \<Rightarrow> error list \<Rightarrow> ('c, 'e) net \<Rightarrow> bool"
  for verify rt ctx cid where
  failing_nil: "failing verify rt ctx cid [] n [] n"
| failing_step: "attempt verify rt ctx cid a n = (Inl err, n') \<Longrightarrow>
    failing verify rt ctx cid as n' errs n'' \<Longrightarrow>
    failing verify rt ctx cid (a # as) n (err # errs) n''"

definition dialable :: "PeerEndpoint option list \<Rightarrow> string list" where
  "dialable eps =
     List.map_filter (\<lambda>ep. case ep of None \<Rightarrow> None
        | Some e \<Rightarrow> if ep_GrpcAddr e = '''' then None else Some (ep_GrpcAddr e)) eps"

lemma dialable_simps [simp]:
  "dialable [] = []" "dialable (None # eps) = dialable eps"
  "dialable (Some e # eps) = (if ep_GrpcAddr e = '''' then dialable eps else ep_GrpcAddr e # dialable eps)"
  by (simp_all add: dialable_def map_filter_simps)

lemma fetch_from_nonempty: "fetch_from rt ctx cid a n = (Inr data, n') \<Longrightarrow> data \<noteq> []"
  by (auto simp: fetch_from_def with_client_def WithTimeout_def
      split: prod.splits sum.splits if_splits)

lemma attempt_ok: "attempt verify rt ctx cid a n = (Inr data, n') \<Longrightarrow> data \<noteq> [] \<and> verify cid data = None"
  by (auto simp: attempt_def dest: fetch_from_nonempty split: prod.splits sum.splits option.splits)

lemma FetchBlock_from_attempt:
  "ep_GrpcAddr ep \<noteq> '''' \<Longrightarrow> FetchBlock_from lst verify rt ctx cid (Some ep # eps) n =
     (case attempt verify rt ctx cid (ep_GrpcAddr ep) n of
        (Inl err, n') \<Rightarrow> FetchBlock_from (Some err) verify rt ctx cid eps n'
      | (Inr data, n') \<Rightarrow> (Inr data, n'))"
  by (auto simp: attempt_def split: prod.split sum.split option.split)

text \<open>What the loop returns, over the addresses still to try.\<close>

definition fetch_error :: "error option \<Rightarrow> string \<Rightarrow> error list \<Rightarrow> error" where
  "fetch_error lst cid errs =
     (if errs \<noteq> [] then List.last errs
      else case lst of None \<Rightarrow> ''no providers for '' @ cid | Some err \<Rightarrow> err)"

lemma FetchBlock_from_run:
  assumes "FetchBlock_from lst verify rt ctx cid eps n = (r, n')"
  shows "(\<exists>errs. failing verify rt ctx cid (dialable eps) n errs n' \<and> r = Inl (fetch_error lst cid errs)) \<or>
         (\<exists>as a bs errs m data. dialable eps = as @ a # bs \<and> failing verify rt ctx cid as n errs m \<and>
            attempt verify rt ctx cid a m = (Inr data, n') \<and> r = Inr data)"
  using assms
proof (induction eps arbitrary: lst n)
  case Nil
  then show ?case by (auto simp: fetch_error_def intro: failing_nil)
next
  case (Cons epp eps)
  show ?case
  proof (cases "epp = None \<or> (\<exists>ep. epp = Some ep \<and> ep_GrpcAddr ep = '''')")
    case True
    with Cons.prems have "FetchBlock_from lst verify rt ctx cid eps n = (r, n')" by auto
    moreover from True have "dialable (epp # eps) = dialable eps" by auto
    ultimately show ?thesis using Cons.IH by simp
  next
    case False
    then obtain ep where ep: "epp = Some ep" "ep_GrpcAddr ep \<noteq> ''''" by auto
    obtain r1 n1 where at: "attempt verify rt ctx cid (ep_GrpcAddr ep) n = (r1, n1)" by (rule prod.exhaust)
    show ?thesis
    proof (cases r1)
      case (Inr data)
      with at Cons.prems ep show ?thesis
        by (intro disjI2 exI [of _ "[]"] exI [of _ "ep_GrpcAddr ep"] exI [of _ "dialable eps"]
              exI [of _ n] exI [of _ data])
           (simp add: FetchBlock_from_attempt failing_nil del: FetchBlock_from.simps)
    next
      case (Inl err)
      with at Cons.prems ep have "FetchBlock_from (Some err) verify rt ctx cid eps n1 = (r, n')"
        by (simp add: FetchBlock_from_attempt del: FetchBlock_from.simps)
      from Cons.IH [OF this] show ?thesis
      proof (elim disjE exE conjE)
        fix errs assume "failing verify rt ctx cid (dialable eps) n1 errs n'"
          "r = Inl (fetch_error (Some err) cid errs)"
        with at Inl ep show ?thesis
          by (intro disjI1 exI [of _ "err # errs"]) (auto simp: fetch_error_def intro: failing_step)
      next
        fix as a bs errs m data assume "dialable eps = as @ a # bs" "failing verify rt ctx cid as n1 errs m"
          "attempt verify rt ctx cid a m = (Inr data, n')" "r = Inr data"
        with at Inl ep show ?thesis
          by (intro disjI2 exI [of _ "ep_GrpcAddr ep # as"] exI [of _ a] exI [of _ bs]
                exI [of _ "err # errs"] exI [of _ m] exI [of _ data]) (auto intro: failing_step)
      qed
    qed
  qed
qed

lemma FetchBlock_verified:
  "FetchBlock verify rt ctx cid eps n = (Inr data, n') \<Longrightarrow> verify cid data = None \<and> data \<noteq> []"
  unfolding FetchBlock_def by (drule FetchBlock_from_run) (auto dest: attempt_ok)

text \<open>
  C28. \<open>FetchBlock\<close> returns the block of the first provider that delivers one passing the
  check, having tried the providers with an address in order, each once, until then, and
  such a block is never empty; when it fails, every provider was tried and failed, and the
  error is the last provider's, or says that there were none. The providers may answer
  anything.
\<close>

theorem FetchBlock_spec:
  "case FetchBlock verify rt ctx cid eps n of
     (Inr data, n') \<Rightarrow>
       verify cid data = None \<and> data \<noteq> [] \<and>
       (\<exists>as a bs errs m. dialable eps = as @ a # bs \<and> failing verify rt ctx cid as n errs m \<and>
          attempt verify rt ctx cid a m = (Inr data, n'))
   | (Inl err, n') \<Rightarrow>
       (\<exists>errs. failing verify rt ctx cid (dialable eps) n errs n' \<and>
          err = (if errs = [] then ''no providers for '' @ cid else List.last errs))"
proof -
  obtain r n' where r: "FetchBlock verify rt ctx cid eps n = (r, n')" by (rule prod.exhaust)
  from FetchBlock_from_run [OF this [unfolded FetchBlock_def]] show ?thesis
  proof (elim disjE exE conjE)
    fix errs assume "failing verify rt ctx cid (dialable eps) n errs n'" "r = Inl (fetch_error None cid errs)"
    with r show ?thesis by (auto simp: fetch_error_def)
  next
    fix as a bs errs m data
    assume "dialable eps = as @ a # bs" "failing verify rt ctx cid as n errs m"
      "attempt verify rt ctx cid a m = (Inr data, n')" "r = Inr data"
    with r attempt_ok [of verify rt ctx cid a m data n'] show ?thesis by (simp del: split_paired_Ex) blast
  qed
qed

section \<open>Pushing a block\<close>

text \<open>The pushes of a block one after the other, and their outcomes.\<close>

fun pushes ::
  "('c, 'e) runtime \<Rightarrow> ctx \<Rightarrow> string list \<Rightarrow> string \<Rightarrow> bytes \<Rightarrow> ('c, 'e) net \<Rightarrow>
   (error + unit) list \<times> ('c, 'e) net" where
  "pushes rt ctx [] c data n = ([], n)"
| "pushes rt ctx (a # addrs) c data n =
     (case StoreOnPeer rt ctx a c data n of
        (r, n') \<Rightarrow> (case pushes rt ctx addrs c data n' of (rs, n'') \<Rightarrow> (r # rs, n'')))"

definition errors_of :: "(error + unit) list \<Rightarrow> error list" where
  "errors_of rs = List.map_filter (\<lambda>r. case r of Inl err \<Rightarrow> Some err | Inr _ \<Rightarrow> None) rs"

lemma errors_of_simps [simp]:
  "errors_of [] = []" "errors_of (Inl err # rs) = err # errors_of rs" "errors_of (Inr u # rs) = errors_of rs"
  by (simp_all add: errors_of_def map_filter_simps)

lemma length_pushes: "pushes rt ctx addrs c data n = (rs, n') \<Longrightarrow> length rs = length addrs"
  by (induction addrs arbitrary: n rs) (auto split: prod.splits)

lemma ReplicateToAddrs_pushes:
  "ReplicateToAddrs_from lst rt ctx addrs c data n =
     (case pushes rt ctx addrs c data n of
        (rs, n') \<Rightarrow> (if errors_of rs = [] then lst else Some (List.last (errors_of rs)), n'))"
  by (induction addrs arbitrary: lst n) (auto split: prod.split sum.split)

text \<open>
  Replication is best effort: the block is pushed to every address in order, whatever
  happens with the others, and the result is nil when all pushes succeed and otherwise the
  last error.
\<close>

theorem ReplicateToAddrs_spec:
  "case pushes rt ctx addrs c data n of
     (rs, n') \<Rightarrow>
       length rs = length addrs \<and>
       ReplicateToAddrs rt ctx addrs c data n =
         (if errors_of rs = [] then None else Some (List.last (errors_of rs)), n')"
  by (auto simp: length_pushes ReplicateToAddrs_def ReplicateToAddrs_pushes split: prod.splits)

end
