(* ===== verification/Json.thy ===== *)
theory Json
  imports Prelude
begin

text \<open>
  The part of \<open>encoding/json\<close> the program uses, as the Go 1.24 library has it: the scanner as
  a pushdown machine over characters (\<open>scan_step\<close>, with the library's states and its limit on
  nesting), the unquoting of strings with the replacement of invalid UTF-8, the escaping
  encoder, and the decoding of a value into a struct, which matches field names up to case,
  keeps going after a value of a wrong type, and reports the first such error at the end.
  The texts of the library's errors are not modelled beyond a fixed message each.
\<close>

section \<open>Values and the scanner\<close>

datatype json =
    JNull
  | JBool bool
  | JNum string
  | JStr string
  | JArr "json list"
  | JObj "(string \<times> json) list"

text \<open>What is open around the value being read: an array so far, or an object so far and the key.\<close>

datatype frame = FArr "json list" | FObj "(string \<times> json) list" string

datatype num_state = NNeg | NZero | NDigits | NDot | NFrac | NExp | NExpSign | NExpDigits

text \<open>In a string: outside an escape, after a backslash, or inside one with n hex digits to come.\<close>

datatype str_state = SText | SEsc | SHex nat

datatype mode =
    BeginValue
  | BeginValueOrEmpty
  | BeginStringOrEmpty
  | BeginString
  | InString bool str_state string
  | InNumber num_state string
  | InLiteral string json
  | EndKey
  | EndValue
  | EndTop json

type_synonym scanner = "mode \<times> frame list"

definition is_json_space :: "char \<Rightarrow> bool" where
  "is_json_space c \<longleftrightarrow> c = CHR '' '' \<or> c = CHR 0x09 \<or> c = CHR 0x0D \<or> c = CHR 0x0A"

definition is_digit_char :: "char \<Rightarrow> bool" where
  "is_digit_char c \<longleftrightarrow> CHR ''0'' \<le> c \<and> c \<le> CHR ''9''"

definition hex_value :: "char \<Rightarrow> nat option" where
  "hex_value c =
     (let n = (of_char c :: nat)
      in if 48 \<le> n \<and> n \<le> 57 then Some (n - 48)
         else if 97 \<le> n \<and> n \<le> 102 then Some (n - 87)
         else if 65 \<le> n \<and> n \<le> 70 then Some (n - 55)
         else None)"

definition maxNestingDepth :: nat where
  "maxNestingDepth = 10000"

text \<open>The sizes of the valid UTF-8 sequences: 0 where \<open>utf8.DecodeRune\<close> reports an error.\<close>

definition in_range :: "nat \<Rightarrow> nat \<Rightarrow> char \<Rightarrow> bool" where
  "in_range a b c \<longleftrightarrow> a \<le> (of_char c :: nat) \<and> (of_char c :: nat) \<le> b"

definition utf8_size :: "string \<Rightarrow> nat" where
  "utf8_size s =
     (case s of
        [] \<Rightarrow> 0
      | c # s1 \<Rightarrow>
          if in_range 0 127 c then 1
          else case s1 of
            [] \<Rightarrow> 0
          | c1 # s2 \<Rightarrow>
              if in_range 194 223 c then (if in_range 128 191 c1 then 2 else 0)
              else case s2 of
                [] \<Rightarrow> 0
              | c2 # s3 \<Rightarrow>
                  if in_range 224 239 c
                  then (if in_range (if of_char c = (224 :: nat) then 160 else 128)
                               (if of_char c = (237 :: nat) then 159 else 191) c1 \<and>
                           in_range 128 191 c2 then 3 else 0)
                  else case s3 of
                    [] \<Rightarrow> 0
                  | c3 # s4 \<Rightarrow>
                      if in_range 240 244 c
                      then (if in_range (if of_char c = (240 :: nat) then 144 else 128)
                                   (if of_char c = (244 :: nat) then 143 else 191) c1 \<and>
                               in_range 128 191 c2 \<and> in_range 128 191 c3 then 4 else 0)
                      else 0)"

text \<open>\<open>utf8.AppendRune\<close>, for the code points an escape can give, and U+FFFD.\<close>

definition encode_rune :: "nat \<Rightarrow> string" where
  "encode_rune r =
     (if r < 128 then [char_of r]
      else if r < 2048 then [char_of (192 + r div 64), char_of (128 + r mod 64)]
      else if r < 65536
      then [char_of (224 + r div 4096), char_of (128 + r div 64 mod 64), char_of (128 + r mod 64)]
      else [char_of (240 + r div 262144), char_of (128 + r div 4096 mod 64),
            char_of (128 + r div 64 mod 64), char_of (128 + r mod 64)])"

definition RuneError :: nat where
  "RuneError = 65533"

definition get_u4 :: "string \<Rightarrow> nat option" where
  "get_u4 s =
     (case s of
        b # u # a1 # a2 # a3 # a4 # _ \<Rightarrow>
          (if b = CHR 0x5C \<and> u = CHR ''u''
           then case (hex_value a1, hex_value a2, hex_value a3, hex_value a4) of
                  (Some x1, Some x2, Some x3, Some x4) \<Rightarrow> Some (4096 * x1 + 256 * x2 + 16 * x3 + x4)
                | _ \<Rightarrow> None
           else None)
      | _ \<Rightarrow> None)"

definition is_surrogate :: "nat \<Rightarrow> bool" where
  "is_surrogate r \<longleftrightarrow> 55296 \<le> r \<and> r < 57344"

text \<open>\<open>utf16.DecodeRune\<close>: the code point of a surrogate pair.\<close>

definition surrogate_pair :: "nat \<Rightarrow> nat \<Rightarrow> nat option" where
  "surrogate_pair r1 r2 =
     (if 55296 \<le> r1 \<and> r1 < 56320 \<and> 56320 \<le> r2 \<and> r2 < 57344
      then Some ((r1 - 55296) * 1024 + (r2 - 56320) + 65536) else None)"

text \<open>The characters between the quotes, as the scanner accepted them, to a string.\<close>

function unquote :: "string \<Rightarrow> string" where
  "unquote [] = []"
| "unquote (c # s) =
     (if c = CHR 0x5C then
        (case s of
           [] \<Rightarrow> []
         | d # s' \<Rightarrow>
             if d = CHR ''u'' then
               (case get_u4 (c # s) of
                  None \<Rightarrow> unquote s'
                | Some r \<Rightarrow>
                    if is_surrogate r
                    then (case get_u4 (drop 5 s) of
                            None \<Rightarrow> encode_rune RuneError @ unquote (drop 5 s)
                          | Some r2 \<Rightarrow>
                              (case surrogate_pair r r2 of
                                 None \<Rightarrow> encode_rune RuneError @ unquote (drop 5 s)
                               | Some x \<Rightarrow> encode_rune x @ unquote (drop 11 s)))
                    else encode_rune r @ unquote (drop 5 s))
             else (if d = CHR ''b'' then CHR 0x08 else if d = CHR ''f'' then CHR 0x0C
                   else if d = CHR ''n'' then CHR 0x0A else if d = CHR ''r'' then CHR 0x0D
                   else if d = CHR ''t'' then CHR 0x09 else d) # unquote s')
      else if utf8_size (c # s) = 0 then encode_rune RuneError @ unquote s
      else take (utf8_size (c # s)) (c # s) @ unquote (drop (utf8_size (c # s) - 1) s))"
  by pat_completeness auto
termination by (relation "measure length") auto

section \<open>The scanner\<close>

text \<open>A value is complete: it goes into the innermost open array or object.\<close>

definition deliver :: "json \<Rightarrow> frame list \<Rightarrow> scanner" where
  "deliver v st =
     (case st of
        [] \<Rightarrow> (EndTop v, [])
      | FArr vs # st' \<Rightarrow> (EndValue, FArr (vs @ [v]) # st')
      | FObj fs k # st' \<Rightarrow> (EndValue, FObj (fs @ [(k, v)]) k # st'))"

definition push_frame :: "mode \<Rightarrow> frame \<Rightarrow> frame list \<Rightarrow> scanner option" where
  "push_frame m f st = (if length st < maxNestingDepth then Some (m, f # st) else None)"

definition begin_value :: "frame list \<Rightarrow> char \<Rightarrow> scanner option" where
  "begin_value st c =
     (if is_json_space c then Some (BeginValue, st)
      else if c = CHR ''{'' then push_frame BeginStringOrEmpty (FObj [] []) st
      else if c = CHR ''['' then push_frame BeginValueOrEmpty (FArr []) st
      else if c = CHR 0x22 then Some (InString False SText [], st)
      else if c = CHR ''-'' then Some (InNumber NNeg [c], st)
      else if c = CHR ''0'' then Some (InNumber NZero [c], st)
      else if c = CHR ''t'' then Some (InLiteral ''rue'' (JBool True), st)
      else if c = CHR ''f'' then Some (InLiteral ''alse'' (JBool False), st)
      else if c = CHR ''n'' then Some (InLiteral ''ull'' JNull, st)
      else if is_digit_char c then Some (InNumber NDigits [c], st)
      else None)"

definition begin_string :: "frame list \<Rightarrow> char \<Rightarrow> scanner option" where
  "begin_string st c =
     (if is_json_space c then Some (BeginString, st)
      else if c = CHR 0x22 then Some (InString True SText [], st) else None)"

text \<open>\<open>stateEndValue\<close> and \<open>stateEndTop\<close>, by what is open.\<close>

definition end_value :: "frame list \<Rightarrow> char \<Rightarrow> scanner option" where
  "end_value st c =
     (if is_json_space c then Some (EndValue, st)
      else case st of
        FArr vs # st' \<Rightarrow>
          (if c = CHR '','' then Some (BeginValue, st)
           else if c = CHR '']'' then Some (deliver (JArr vs) st') else None)
      | FObj fs k # st' \<Rightarrow>
          (if c = CHR '','' then Some (BeginString, st)
           else if c = CHR ''}'' then Some (deliver (JObj fs) st') else None)
      | [] \<Rightarrow> None)"

definition end_top :: "json \<Rightarrow> char \<Rightarrow> scanner option" where
  "end_top v c = (if is_json_space c then Some (EndTop v, []) else None)"

definition after_value :: "scanner \<Rightarrow> char \<Rightarrow> scanner option" where
  "after_value cfg c =
     (case cfg of (EndTop v, _) \<Rightarrow> end_top v c | (_, st) \<Rightarrow> end_value st c)"

text \<open>The end of a string: a key waits for its colon, a value is delivered.\<close>

definition string_done :: "bool \<Rightarrow> string \<Rightarrow> frame list \<Rightarrow> scanner option" where
  "string_done is_key raw st =
     (if is_key
      then (case st of FObj fs k # st' \<Rightarrow> Some (EndKey, FObj fs (unquote raw) # st') | _ \<Rightarrow> None)
      else Some (deliver (JStr (unquote raw)) st))"

definition in_string :: "bool \<Rightarrow> str_state \<Rightarrow> string \<Rightarrow> frame list \<Rightarrow> char \<Rightarrow> scanner option" where
  "in_string is_key e raw st c =
     (case e of
        SText \<Rightarrow>
          (if c = CHR 0x22 then string_done is_key raw st
           else if c = CHR 0x5C then Some (InString is_key SEsc (raw @ [c]), st)
           else if (of_char c :: nat) < 32 then None
           else Some (InString is_key SText (raw @ [c]), st))
      | SEsc \<Rightarrow>
          (if c = CHR ''u'' then Some (InString is_key (SHex 4) (raw @ [c]), st)
           else if c \<in> {CHR ''b'', CHR ''f'', CHR ''n'', CHR ''r'', CHR ''t'', CHR 0x5C, CHR ''/'', CHR 0x22}
           then Some (InString is_key SText (raw @ [c]), st) else None)
      | SHex n \<Rightarrow>
          (if hex_value c = None then None
           else Some (InString is_key (if n \<le> 1 then SText else SHex (n - 1)) (raw @ [c]), st)))"

text \<open>A number goes on, or ends and the character is read after the value.\<close>

definition num_next :: "num_state \<Rightarrow> char \<Rightarrow> num_state option" where
  "num_next n c =
     (case n of
        NNeg \<Rightarrow> if c = CHR ''0'' then Some NZero else if is_digit_char c then Some NDigits else None
      | NZero \<Rightarrow> if c = CHR ''.'' then Some NDot
                else if c = CHR ''e'' \<or> c = CHR ''E'' then Some NExp else None
      | NDigits \<Rightarrow> if is_digit_char c then Some NDigits else if c = CHR ''.'' then Some NDot
                  else if c = CHR ''e'' \<or> c = CHR ''E'' then Some NExp else None
      | NDot \<Rightarrow> if is_digit_char c then Some NFrac else None
      | NFrac \<Rightarrow> if is_digit_char c then Some NFrac
                else if c = CHR ''e'' \<or> c = CHR ''E'' then Some NExp else None
      | NExp \<Rightarrow> if c = CHR ''+'' \<or> c = CHR ''-'' then Some NExpSign
               else if is_digit_char c then Some NExpDigits else None
      | NExpSign \<Rightarrow> if is_digit_char c then Some NExpDigits else None
      | NExpDigits \<Rightarrow> if is_digit_char c then Some NExpDigits else None)"

definition num_complete :: "num_state \<Rightarrow> bool" where
  "num_complete n \<longleftrightarrow> n = NZero \<or> n = NDigits \<or> n = NFrac \<or> n = NExpDigits"

definition scan_step :: "scanner \<Rightarrow> char \<Rightarrow> scanner option" where
  "scan_step cfg c =
     (case cfg of (m, st) \<Rightarrow>
        (case m of
           BeginValue \<Rightarrow> begin_value st c
         | BeginValueOrEmpty \<Rightarrow>
             (if is_json_space c then Some (m, st)
              else if c = CHR '']'' then end_value st c else begin_value st c)
         | BeginStringOrEmpty \<Rightarrow>
             (if is_json_space c then Some (m, st)
              else if c = CHR ''}'' then end_value st c else begin_string st c)
         | BeginString \<Rightarrow> begin_string st c
         | InString is_key e raw \<Rightarrow> in_string is_key e raw st c
         | InNumber n s \<Rightarrow>
             (case num_next n c of
                Some n' \<Rightarrow> Some (InNumber n' (s @ [c]), st)
              | None \<Rightarrow> if num_complete n then after_value (deliver (JNum s) st) c else None)
         | InLiteral rest v \<Rightarrow>
             (case rest of
                [] \<Rightarrow> None
              | d # ds \<Rightarrow> if c = d then Some (if ds = [] then deliver v st else (InLiteral ds v, st)) else None)
         | EndKey \<Rightarrow>
             (if is_json_space c then Some (m, st)
              else if c = CHR '':'' then Some (BeginValue, st) else None)
         | EndValue \<Rightarrow> end_value st c
         | EndTop v \<Rightarrow> end_top v c))"

fun scan :: "scanner \<Rightarrow> string \<Rightarrow> scanner option" where
  "scan cfg [] = Some cfg"
| "scan cfg (c # s) = (case scan_step cfg c of None \<Rightarrow> None | Some cfg' \<Rightarrow> scan cfg' s)"

text \<open>At the end of the input a top-level number is complete too.\<close>

definition scan_eof :: "scanner \<Rightarrow> json option" where
  "scan_eof cfg =
     (case cfg of
        (EndTop v, _) \<Rightarrow> Some v
      | (InNumber n s, []) \<Rightarrow> (if num_complete n then Some (JNum s) else None)
      | _ \<Rightarrow> None)"

text \<open>\<open>json.Unmarshal\<close> first checks the whole input; \<open>None\<close> is a syntax error.\<close>

definition parse_json :: "string \<Rightarrow> json option" where
  "parse_json s = (case scan (BeginValue, []) s of None \<Rightarrow> None | Some cfg \<Rightarrow> scan_eof cfg)"

text \<open>\<open>json.Decoder.Decode\<close> reads one value and leaves what follows it.\<close>

fun decode_first :: "scanner \<Rightarrow> string \<Rightarrow> json option" where
  "decode_first cfg [] = scan_eof cfg"
| "decode_first cfg (c # s) =
     (case cfg of
        (EndTop v, _) \<Rightarrow> Some v
      | (InNumber n d, []) \<Rightarrow>
          (if num_next n c = None \<and> num_complete n then Some (JNum d)
           else case scan_step cfg c of None \<Rightarrow> None | Some cfg' \<Rightarrow> decode_first cfg' s)
      | _ \<Rightarrow> (case scan_step cfg c of None \<Rightarrow> None | Some cfg' \<Rightarrow> decode_first cfg' s))"

definition decode_json :: "string \<Rightarrow> json option" where
  "decode_json s = decode_first (BeginValue, []) s"

section \<open>The encoder\<close>

definition html_safe :: "char \<Rightarrow> bool" where
  "html_safe c \<longleftrightarrow> 32 \<le> (of_char c :: nat) \<and> (of_char c :: nat) < 128 \<and>
     c \<notin> {CHR 0x22, CHR 0x5C, CHR ''<'', CHR ''>'', CHR ''&''}"

definition low_hex :: "nat \<Rightarrow> char" where
  "low_hex n = (if n < 10 then char_of (n + 48) else char_of (n + 87))"

definition escape_char :: "char \<Rightarrow> string" where
  "escape_char c =
     (if html_safe c then [c]
      else if c = CHR 0x22 \<or> c = CHR 0x5C then [CHR 0x5C, c]
      else if c = CHR 0x08 then [CHR 0x5C, CHR ''b'']
      else if c = CHR 0x0C then [CHR 0x5C, CHR ''f'']
      else if c = CHR 0x0A then [CHR 0x5C, CHR ''n'']
      else if c = CHR 0x0D then [CHR 0x5C, CHR ''r'']
      else if c = CHR 0x09 then [CHR 0x5C, CHR ''t'']
      else [CHR 0x5C, CHR ''u'', CHR ''0'', CHR ''0'', low_hex (of_char c div 16), low_hex (of_char c mod 16)])"

function escape_string :: "string \<Rightarrow> string" where
  "escape_string [] = []"
| "escape_string (c # s) =
     (if (of_char c :: nat) < 128 then escape_char c @ escape_string s
      else
        let n = utf8_size (c # s)
        in if n = 0 then CHR 0x5C # ''ufffd'' @ escape_string s
           else if take n (c # s) = [CHR 0xE2, CHR 0x80, CHR 0xA8]
           then CHR 0x5C # ''u2028'' @ escape_string (drop (n - 1) s)
           else if take n (c # s) = [CHR 0xE2, CHR 0x80, CHR 0xA9]
           then CHR 0x5C # ''u2029'' @ escape_string (drop (n - 1) s)
           else take n (c # s) @ escape_string (drop (n - 1) s))"
  by pat_completeness auto
termination by (relation "measure length") auto

definition print_string :: "string \<Rightarrow> string" where
  "print_string s = CHR 0x22 # escape_string s @ [CHR 0x22]"

fun commas :: "string list \<Rightarrow> string" where
  "commas [] = []"
| "commas [x] = x"
| "commas (x # y # xs) = x @ '','' @ commas (y # xs)"

text \<open>\<open>json.Marshal\<close> of a value whose struct fields or map keys are already in order.\<close>

fun print_json :: "json \<Rightarrow> string" where
  "print_json JNull = ''null''"
| "print_json (JBool b) = (if b then ''true'' else ''false'')"
| "print_json (JNum s) = s"
| "print_json (JStr s) = print_string s"
| "print_json (JArr vs) = ''['' @ commas (map print_json vs) @ '']''"
| "print_json (JObj fs) =
     ''{'' @ commas (map (\<lambda>(k, v). print_string k @ '':'' @ print_json v) fs) @ ''}''"

section \<open>Decoding into structs\<close>

text \<open>
  Folding of a key: ASCII letters to upper case, the Kelvin sign to K and the long s to S,
  which are the only other characters whose fold is an ASCII letter. Other characters stay as
  they are, which is enough to compare with the ASCII names of the program's fields.
\<close>

definition upper_char :: "char \<Rightarrow> char" where
  "upper_char c =
     (if 97 \<le> (of_char c :: nat) \<and> (of_char c :: nat) \<le> 122 then char_of ((of_char c :: nat) - 32) else c)"

fun fold_name :: "string \<Rightarrow> string" where
  "fold_name [] = []"
| "fold_name [a] = [upper_char a]"
| "fold_name [a, b] =
     (if [a, b] = [CHR 0xC5, CHR 0xBF] then ''S'' else upper_char a # fold_name [b])"
| "fold_name (a # b # c # s) =
     (if [a, b] = [CHR 0xC5, CHR 0xBF] then CHR ''S'' # fold_name (c # s)
      else if [a, b, c] = [CHR 0xE2, CHR 0x84, CHR 0xAA] then CHR ''K'' # fold_name s
      else upper_char a # fold_name (b # c # s))"

text \<open>The field an object key addresses: an exact match first, else one up to case.\<close>

definition match_field :: "string list \<Rightarrow> string \<Rightarrow> string option" where
  "match_field names key =
     (if key \<in> set names then Some key
      else find (\<lambda>name. fold_name name = fold_name key) names)"

text \<open>The first error of a decoding is kept; later ones are dropped.\<close>

definition json_type_error :: error where
  "json_type_error = ''json: cannot unmarshal value into Go value of another type''"

definition json_syntax_error :: error where
  "json_syntax_error = ''invalid JSON''"

definition save_error :: "error option \<Rightarrow> error option \<Rightarrow> error option" where
  "save_error first new = (case first of Some e \<Rightarrow> Some e | None \<Rightarrow> new)"

text \<open>A string field: null leaves it alone.\<close>

definition decode_string :: "string \<Rightarrow> json \<Rightarrow> string \<times> error option" where
  "decode_string old v =
     (case v of
        JStr s \<Rightarrow> (s, None)
      | JNull \<Rightarrow> (old, None)
      | _ \<Rightarrow> (old, Some json_type_error))"

text \<open>
  A slice is its backing array, as far as ever written, and its length. Decoding an array
  starts over at index 0, and a null element keeps what the backing array holds there.
\<close>

type_synonym 'a slice = "'a list \<times> nat"

definition slice_elems :: "'a slice \<Rightarrow> 'a list" where
  "slice_elems s = take (snd s) (fst s)"

fun decode_elems ::
  "'a \<Rightarrow> ('a \<Rightarrow> json \<Rightarrow> 'a \<times> error option) \<Rightarrow> json list \<Rightarrow> 'a list \<Rightarrow> 'a list \<times> error option" where
  "decode_elems zero dec [] backing = (backing, None)"
| "decode_elems zero dec (v # vs) backing =
     (case dec (case backing of [] \<Rightarrow> zero | b # _ \<Rightarrow> b) v of
        (x, err) \<Rightarrow>
          (case decode_elems zero dec vs (tl backing) of
             (xs, err') \<Rightarrow> (x # xs, save_error err err')))"

definition decode_slice ::
  "'a \<Rightarrow> ('a \<Rightarrow> json \<Rightarrow> 'a \<times> error option) \<Rightarrow> 'a slice \<Rightarrow> json \<Rightarrow> 'a slice \<times> error option" where
  "decode_slice zero dec old v =
     (case v of
        JArr [] \<Rightarrow> (([], 0), None)
      | JArr vs \<Rightarrow>
          (case decode_elems zero dec vs (fst old) of (xs, err) \<Rightarrow> ((xs, length vs), err))
      | JNull \<Rightarrow> (([], 0), None)
      | _ \<Rightarrow> (old, Some json_type_error))"

text \<open>A struct: each key of the object in turn goes to its field, unknown keys are skipped.\<close>

fun decode_fields ::
  "string list \<Rightarrow> (string \<Rightarrow> 'r \<Rightarrow> json \<Rightarrow> 'r \<times> error option) \<Rightarrow> (string \<times> json) list \<Rightarrow> 'r \<Rightarrow>
   'r \<times> error option" where
  "decode_fields names set_field [] r = (r, None)"
| "decode_fields names set_field ((k, v) # fs) r =
     (case match_field names k of
        None \<Rightarrow> decode_fields names set_field fs r
      | Some name \<Rightarrow>
          (case set_field name r v of
             (r', err) \<Rightarrow>
               (case decode_fields names set_field fs r' of (r'', err') \<Rightarrow> (r'', save_error err err'))))"

definition decode_struct ::
  "string list \<Rightarrow> (string \<Rightarrow> 'r \<Rightarrow> json \<Rightarrow> 'r \<times> error option) \<Rightarrow> 'r \<Rightarrow> json \<Rightarrow> 'r \<times> error option" where
  "decode_struct names set_field r v =
     (case v of
        JObj fs \<Rightarrow> decode_fields names set_field fs r
      | JNull \<Rightarrow> (r, None)
      | _ \<Rightarrow> (r, Some json_type_error))"

text \<open>\<open>json.Unmarshal(b, &r)\<close>: on a syntax error the target stays as it was.\<close>

definition unmarshal ::
  "('r \<Rightarrow> json \<Rightarrow> 'r \<times> error option) \<Rightarrow> 'r \<Rightarrow> string \<Rightarrow> 'r \<times> error option" where
  "unmarshal dec r s =
     (case parse_json s of None \<Rightarrow> (r, Some json_syntax_error) | Some v \<Rightarrow> dec r v)"

text \<open>
  \<open>json.Unmarshal\<close> into an \<open>any\<close> and back: the map of an object keeps the last value of a key
  and is marshalled with its keys in order. A number becomes a float64 on the way; none
  occurs in what the program encodes, and numbers are left as they are here.
\<close>

fun canonical :: "json \<Rightarrow> json" where
  "canonical (JArr vs) = JArr (map canonical vs)"
| "canonical (JObj fs) =
     JObj (map (\<lambda>k. (k, the (map_of (rev (map (\<lambda>(k, v). (k, canonical v)) fs)) k)))
             (sorted_list_of_set (set (map fst fs))))"
| "canonical v = v"

section \<open>What was printed is read back\<close>

named_theorems json \<open>how the scanner and the decoder act on printed values\<close>

lemma scan_append: "scan cfg (s @ t) = (case scan cfg s of None \<Rightarrow> None | Some cfg' \<Rightarrow> scan cfg' t)"
  by (induction s arbitrary: cfg) (auto split: option.split)

lemma scan_append_Some [json]: "scan cfg s = Some cfg' \<Longrightarrow> scan cfg (s @ t) = scan cfg' t"
  by (simp add: scan_append)

lemma hex_value_low_hex [simp]: "n < 16 \<Longrightarrow> hex_value (low_hex n) = Some n"
  by (auto simp: hex_value_def low_hex_def Let_def)

definition ascii :: "string \<Rightarrow> bool" where
  "ascii s \<longleftrightarrow> (\<forall>c\<in>set s. (of_char c :: nat) < 128)"

lemma ascii_simps [simp]:
  "ascii []" "ascii (c # s) \<longleftrightarrow> (of_char c :: nat) < 128 \<and> ascii s"
  "ascii (s @ t) \<longleftrightarrow> ascii s \<and> ascii t"
  by (auto simp: ascii_def)

lemma escape_ascii [simp]:
  "ascii s \<Longrightarrow> escape_string s = concat (map escape_char s)"
  by (induction s) (simp_all add: Let_def)

text \<open>The three shapes of an escaped character.\<close>

lemma escape_char_cases:
  assumes "(of_char c :: nat) < 128"
  obtains "escape_char c = [c]" "32 \<le> (of_char c :: nat)" "c \<noteq> CHR 0x22" "c \<noteq> CHR 0x5C"
  | d where "escape_char c = [CHR 0x5C, d]" "(d, c) \<in> {(CHR 0x22, CHR 0x22), (CHR 0x5C, CHR 0x5C),
      (CHR ''b'', CHR 0x08), (CHR ''f'', CHR 0x0C), (CHR ''n'', CHR 0x0A), (CHR ''r'', CHR 0x0D),
      (CHR ''t'', CHR 0x09)}"
  | "escape_char c = [CHR 0x5C, CHR ''u'', CHR ''0'', CHR ''0'', low_hex (of_char c div 16), low_hex (of_char c mod 16)]"
proof (cases "html_safe c")
  case True
  then show thesis using that(1) by (simp add: escape_char_def html_safe_def)
next
  case False
  show thesis
  proof (cases "c \<in> {CHR 0x22, CHR 0x5C, CHR 0x08, CHR 0x0C, CHR 0x0A, CHR 0x0D, CHR 0x09}")
    case True
    then show thesis using that(2) False by (auto simp: escape_char_def)
  next
    case other: False
    then show thesis using that(3) False by (simp add: escape_char_def)
  qed
qed

lemma scan_escape_char [json]:
  assumes "(of_char c :: nat) < 128"
  shows "scan (InString k SText raw, st) (escape_char c @ t) =
           scan (InString k SText (raw @ escape_char c), st) t"
  using assms
proof (cases rule: escape_char_cases)
  case 1
  then show ?thesis by (simp add: scan_step_def in_string_def)
next
  case (2 d)
  then show ?thesis by (auto simp: scan_step_def in_string_def)
next
  case 3
  have "(of_char c :: nat) div 16 < 16" "hex_value CHR ''0'' = Some 0"
    using assms by (simp_all add: hex_value_def)
  with 3 show ?thesis by (simp add: scan_step_def in_string_def)
qed

lemma scan_escape [json]:
  "ascii s \<Longrightarrow> scan (InString k SText raw, st) (escape_string s @ t) =
     scan (InString k SText (raw @ escape_string s), st) t"
  by (induction s arbitrary: raw) (simp_all add: json)

lemma unquote_escape_char [json]:
  assumes "(of_char c :: nat) < 128"
  shows "unquote (escape_char c @ s) = c # unquote s"
  using assms
proof (cases rule: escape_char_cases)
  case 1
  then show ?thesis using assms by (simp add: utf8_size_def in_range_def)
next
  case (2 d)
  then show ?thesis by auto
next
  case 3
  have "(of_char c :: nat) div 16 < 16" "hex_value CHR ''0'' = Some 0"
    using assms by (simp_all add: hex_value_def)
  then have "get_u4 (escape_char c @ s) = Some (of_char c)"
    using 3 by (simp add: get_u4_def)
  then show ?thesis using 3 assms
    by (simp add: is_surrogate_def encode_rune_def)
qed

lemma unquote_escape [json]: "ascii s \<Longrightarrow> unquote (escape_string s) = s"
  by (induction s) (simp_all add: json del: unquote.simps(2))

text \<open>Values without numbers over ASCII strings, and how deep they nest.\<close>

fun plain :: "json \<Rightarrow> bool" where
  "plain JNull = True"
| "plain (JBool b) = True"
| "plain (JNum s) = False"
| "plain (JStr s) = ascii s"
| "plain (JArr vs) = (\<forall>v\<in>set vs. plain v)"
| "plain (JObj fs) = (\<forall>(k, v)\<in>set fs. ascii k \<and> plain v)"

fun nesting :: "json \<Rightarrow> nat" where
  "nesting (JArr vs) = Suc (foldr max (map nesting vs) 0)"
| "nesting (JObj fs) = Suc (foldr max (map (\<lambda>(k, v). nesting v) fs) 0)"
| "nesting v = 0"

lemma foldr_max_ge: "x \<in> set xs \<Longrightarrow> x \<le> foldr max xs (0 :: nat)"
  by (induction xs) auto

lemma scan_print_string [json]:
  "ascii s \<Longrightarrow> scan (InString k SText [], st) (escape_string s @ CHR 0x22 # t) =
     (case string_done k (escape_string s) st of None \<Rightarrow> None | Some cfg \<Rightarrow> scan cfg t)"
  by (simp add: scan_escape del: escape_ascii) (simp add: scan_step_def in_string_def)

definition starts_value :: "string \<Rightarrow> bool" where
  "starts_value s \<longleftrightarrow> (\<exists>c t. s = c # t \<and> \<not> is_json_space c \<and> c \<noteq> CHR '']'')"

lemma print_starts: "plain v \<Longrightarrow> starts_value (print_json v)"
  by (cases v) (auto simp: starts_value_def print_string_def is_json_space_def)

lemma starts_value_or_empty [json]:
  "starts_value s \<Longrightarrow> scan (BeginValueOrEmpty, st) (s @ t) = scan (BeginValue, st) (s @ t)"
  by (auto simp: starts_value_def scan_step_def)

lemma scan_elems:
  assumes "vs \<noteq> []"
    and "\<And>v acc t. v \<in> set vs \<Longrightarrow> scan (BeginValue, FArr acc # st) (print_json v @ t) = scan (deliver v (FArr acc # st)) t"
  shows "scan (BeginValue, FArr acc # st) (commas (map print_json vs) @ CHR '']'' # t) =
           scan (deliver (JArr (acc @ vs)) st) t"
  using assms
proof (induction vs arbitrary: acc rule: induct_list012)
  case (2 v)
  then show ?case by (simp add: deliver_def scan_step_def end_value_def is_json_space_def)
next
  case (3 v w vs)
  from 3(2) [of "acc @ [v]"] 3(4) have "scan (BeginValue, FArr (acc @ [v]) # st)
      (commas (map print_json (w # vs)) @ CHR '']'' # t) = scan (deliver (JArr (acc @ v # w # vs)) st) t"
    by simp
  with 3(4) [of v acc] show ?case
    by (simp add: deliver_def scan_step_def end_value_def is_json_space_def)
qed simp

definition print_field :: "string \<times> json \<Rightarrow> string" where
  "print_field kv = print_string (fst kv) @ '':'' @ print_json (snd kv)"

lemma print_json_JObj [simp]:
  "print_json (JObj fs) = ''{'' @ commas (map print_field fs) @ ''}''"
  by (simp add: print_field_def [abs_def] case_prod_beta')

declare print_json.simps(6) [simp del]

text \<open>One field, read where a key is expected.\<close>

lemma scan_field:
  assumes "ascii (fst kv)"
    and "\<And>acc k t. scan (BeginValue, FObj acc k # st) (print_json (snd kv) @ t) =
           scan (deliver (snd kv) (FObj acc k # st)) t"
  shows "scan (BeginString, FObj acc k # st) (print_field kv @ t) =
           scan (EndValue, FObj (acc @ [kv]) (fst kv) # st) t"
    and "scan (BeginStringOrEmpty, FObj acc k # st) (print_field kv @ t) =
           scan (EndValue, FObj (acc @ [kv]) (fst kv) # st) t"
  using assms
  by (simp_all add: print_field_def print_string_def scan_step_def begin_string_def is_json_space_def
      scan_print_string string_done_def unquote_escape deliver_def del: escape_ascii)

lemma scan_fields:
  assumes "fs \<noteq> []" "m = BeginString \<or> m = BeginStringOrEmpty"
    and "\<And>kv. kv \<in> set fs \<Longrightarrow> ascii (fst kv)"
    and "\<And>kv acc k t. kv \<in> set fs \<Longrightarrow> scan (BeginValue, FObj acc k # st) (print_json (snd kv) @ t) =
           scan (deliver (snd kv) (FObj acc k # st)) t"
  shows "scan (m, FObj acc k # st) (commas (map print_field fs) @ CHR ''}'' # t) =
           scan (deliver (JObj (acc @ fs)) st) t"
  using assms
proof (induction fs arbitrary: acc k m rule: induct_list012)
  case (2 f)
  have "scan (m, FObj acc k # st) (print_field f @ s) = scan (EndValue, FObj (acc @ [f]) (fst f) # st) s" for s
    using 2(2) scan_field [of f st acc k s, OF 2(3) 2(4)] by auto
  then show ?case by (simp add: scan_step_def end_value_def is_json_space_def)
next
  case (3 f g fs)
  have "scan (BeginString, FObj (acc @ [f]) (fst f) # st)
      (commas (map print_field (g # fs)) @ CHR ''}'' # t) = scan (deliver (JObj ((acc @ [f]) @ g # fs)) st) t"
    by (rule 3(2)) (use 3 in auto)
  then have "scan (EndValue, FObj (acc @ [f]) (fst f) # st)
      (CHR '','' # commas (map print_field (g # fs)) @ CHR ''}'' # t) = scan (deliver (JObj (acc @ f # g # fs)) st) t"
    by (simp add: scan_step_def end_value_def is_json_space_def)
  moreover have "scan (m, FObj acc k # st) (print_field f @ s) = scan (EndValue, FObj (acc @ [f]) (fst f) # st) s" for s
    using 3(4) scan_field [of f st acc k s, OF 3(5) 3(6)] by auto
  ultimately show ?case by simp
qed simp

lemma scan_print:
  "plain v \<Longrightarrow> length st + nesting v \<le> maxNestingDepth \<Longrightarrow>
   scan (BeginValue, st) (print_json v @ t) = scan (deliver v st) t"
proof (induction v arbitrary: st t rule: print_json.induct)
  case (4 s)
  then show ?case
    by (simp add: print_string_def scan_step_def begin_value_def is_json_space_def scan_print_string
        string_done_def unquote_escape del: escape_ascii)
next
  case (5 vs)
  have sub: "scan (BeginValue, FArr acc # st) (print_json v @ t) = scan (deliver v (FArr acc # st)) t"
    if "v \<in> set vs" for v acc t
    using that 5 foldr_max_ge [of "nesting v" "map nesting vs"] by (intro 5(1)) auto
  show ?case
  proof (cases "vs = []")
    case True
    then show ?thesis using 5(3)
      by (simp add: scan_step_def begin_value_def is_json_space_def push_frame_def end_value_def)
  next
    case False
    then obtain w ws where vs: "vs = w # ws" by (cases vs) auto
    have w: "starts_value (print_json w)" using print_starts [of w] 5(2) vs by simp
    then have "starts_value (print_json w @ s)" for s by (auto simp: starts_value_def)
    with w have "starts_value (commas (map print_json vs))" using vs by (cases ws) simp_all
    then have "scan (BeginValue, st) (print_json (JArr vs) @ t) =
        scan (BeginValue, FArr [] # st) (commas (map print_json vs) @ CHR '']'' # t)"
      using 5(3) starts_value_or_empty [of "commas (map print_json vs)" "FArr [] # st" "CHR '']'' # t"]
      by (simp add: scan_step_def [of "(BeginValue, st)"] begin_value_def is_json_space_def push_frame_def)
    with scan_elems [OF False sub, of "[]" t] show ?thesis by simp
  qed
next
  case (6 fs)
  have sub: "scan (BeginValue, FObj acc k # st) (print_json (snd kv) @ t) =
      scan (deliver (snd kv) (FObj acc k # st)) t" if "kv \<in> set fs" for kv acc k t
  proof -
    have "nesting (snd kv) \<in> set (map (\<lambda>(k, v). nesting v) fs)"
      using that by (auto simp: image_iff split_beta)
    from foldr_max_ge [OF this] show ?thesis
      using that 6(2,3) by (intro 6(1) [of kv "fst kv"]) auto
  qed
  have start: "scan (BeginValue, st) (print_json (JObj fs) @ t) =
      scan (BeginStringOrEmpty, FObj [] [] # st) (commas (map print_field fs) @ CHR ''}'' # t)"
    using 6(3) by (simp add: scan_step_def begin_value_def is_json_space_def push_frame_def)
  show ?case
  proof (cases "fs = []")
    case True
    with start show ?thesis
      by (simp add: scan_step_def [of "(BeginStringOrEmpty, _)"] is_json_space_def end_value_def)
  next
    case False
    have "scan (BeginStringOrEmpty, FObj [] [] # st) (commas (map print_field fs) @ CHR ''}'' # t) =
        scan (deliver (JObj ([] @ fs)) st) t"
      by (rule scan_fields [OF False]) (use 6(2) sub in auto)
    with start show ?thesis by simp
  qed
qed (simp_all add: scan_step_def begin_value_def is_json_space_def is_digit_char_def)

text \<open>What \<open>json.Marshal\<close> wrote, \<open>json.Unmarshal\<close> and \<open>Decode\<close> read back.\<close>

lemma parse_print [json]:
  "plain v \<Longrightarrow> nesting v \<le> maxNestingDepth \<Longrightarrow> parse_json (print_json v) = Some v"
  using scan_print [of v "[]" "[]"] by (simp add: parse_json_def deliver_def scan_eof_def)

text \<open>
  A decoder reads the same value as a scan of the whole text, when the scan ends in a complete
  value; what follows the value does not matter.
\<close>

lemma scan_end_top: "scan (EndTop v', st) s = Some (EndTop v, st') \<Longrightarrow> v' = v"
  by (induction s arbitrary: st) (auto simp: scan_step_def end_top_def split: option.splits if_splits)

lemma decode_first_scan: "scan cfg s = Some (EndTop v, st) \<Longrightarrow> decode_first cfg (s @ t) = Some v"
proof (induction s arbitrary: cfg)
  case Nil
  then show ?case by (cases t) (simp_all add: scan_eof_def)
next
  case (Cons c s)
  then obtain cfg' where c: "scan_step cfg c = Some cfg'" "scan cfg' s = Some (EndTop v, st)"
    by (auto split: option.splits)
  note ih = Cons.IH [OF c(2)]
  obtain m st0 where cfg: "cfg = (m, st0)" by (rule prod.exhaust)
  show ?case
  proof (cases m)
    case (EndTop v')
    with Cons.prems cfg have "v' = v" using scan_end_top by blast
    with EndTop cfg show ?thesis by simp
  next
    case (InNumber n d)
    show ?thesis
    proof (cases "st0 = [] \<and> num_next n c = None \<and> num_complete n")
      case True
      with c(1) cfg InNumber have "cfg' = (EndTop (JNum d), [])"
        by (auto simp: scan_step_def after_value_def deliver_def end_top_def split: if_splits)
      with c(2) have "JNum d = v" using scan_end_top by blast
      with True cfg InNumber show ?thesis by simp
    next
      case False
      with c(1) cfg InNumber ih show ?thesis by (cases st0) auto
    qed
  qed (use c(1) cfg ih in simp_all)
qed

lemma decode_print [json]:
  "plain v \<Longrightarrow> nesting v \<le> maxNestingDepth \<Longrightarrow> decode_json (print_json v @ t) = Some v"
  using scan_print [of v "[]" "[]"] by (simp add: decode_json_def deliver_def decode_first_scan)

end
