(* ===== verification/Merkle.thy ===== *)
theory Merkle
  imports Json
begin

text \<open>
  The DAG nodes: \<open>internal/merkle/file_node.go\<close>, \<open>directory_node.go\<close> and
  \<open>dag_traversal.go\<close>. A slice field is \<open>None\<close> where the Go slice is nil, which marshals to
  \<open>null\<close>. Blocks are bytes, JSON text is a string; the two are converted at the border.
\<close>

section \<open>Nodes\<close>

type_synonym NodeType = string

abbreviation NodeTypeFile :: NodeType where
  "NodeTypeFile \<equiv> ''file''"

abbreviation NodeTypeDirectory :: NodeType where
  "NodeTypeDirectory \<equiv> ''directory''"

record FileNode =
  fn_Type :: NodeType
  fn_Chunks :: "string slice option"

record DirEntry =
  de_Name :: string
  de_CID :: string

record DirectoryNode =
  dn_Type :: NodeType
  dn_Entries :: "DirEntry slice option"

definition elems :: "'a slice option \<Rightarrow> 'a list" where
  "elems s = (case s of None \<Rightarrow> [] | Some s \<Rightarrow> slice_elems s)"

text \<open>\<open>append([]T(nil), xs...)\<close>: a copy, nil when there is nothing to copy.\<close>

definition copy_slice :: "'a list \<Rightarrow> 'a slice option" where
  "copy_slice xs = (if xs = [] then None else Some (xs, length xs))"

definition NewFileNode :: "string list \<Rightarrow> FileNode" where
  "NewFileNode chunks = \<lparr>fn_Type = NodeTypeFile, fn_Chunks = copy_slice chunks\<rparr>"

text \<open>
  \<open>sort.Slice\<close> does not say in which order it leaves equal names: \<open>srt\<close> is what it does, and
  \<open>sorts_by_name\<close> its contract.
\<close>

definition sorts_by_name :: "(DirEntry list \<Rightarrow> DirEntry list) \<Rightarrow> bool" where
  "sorts_by_name srt \<longleftrightarrow> (\<forall>xs. mset (srt xs) = mset xs \<and> sorted (map de_Name (srt xs)))"

definition NewDirectoryNode :: "(DirEntry list \<Rightarrow> DirEntry list) \<Rightarrow> DirEntry list \<Rightarrow> DirectoryNode" where
  "NewDirectoryNode srt entries =
     \<lparr>dn_Type = NodeTypeDirectory, dn_Entries = copy_slice (srt entries)\<rparr>"

section \<open>Encoding and decoding\<close>

definition slice_json :: "('a \<Rightarrow> json) \<Rightarrow> 'a slice option \<Rightarrow> json" where
  "slice_json f s = (case s of None \<Rightarrow> JNull | Some s \<Rightarrow> JArr (map f (slice_elems s)))"

definition FileNode_json :: "FileNode \<Rightarrow> json" where
  "FileNode_json fn = JObj [(''type'', JStr (fn_Type fn)), (''chunks'', slice_json JStr (fn_Chunks fn))]"

definition DirEntry_json :: "DirEntry \<Rightarrow> json" where
  "DirEntry_json d = JObj [(''name'', JStr (de_Name d)), (''cid'', JStr (de_CID d))]"

definition DirectoryNode_json :: "DirectoryNode \<Rightarrow> json" where
  "DirectoryNode_json dn =
     JObj [(''type'', JStr (dn_Type dn)), (''entries'', slice_json DirEntry_json (dn_Entries dn))]"

text \<open>The argument is what \<open>json.Marshal\<close> sees of the value: its fields in order.\<close>

definition EncodeCanonicalJSON :: "json \<Rightarrow> error + bytes" where
  "EncodeCanonicalJSON v =
     (case parse_json (print_json v) of
        None \<Rightarrow> Inl json_syntax_error
      | Some tmp \<Rightarrow> Inr (bytes_of_string (print_json (canonical tmp))))"

definition decode_slice_field ::
  "'a \<Rightarrow> ('a \<Rightarrow> json \<Rightarrow> 'a \<times> error option) \<Rightarrow> 'a slice option \<Rightarrow> json \<Rightarrow> 'a slice option \<times> error option" where
  "decode_slice_field zero dec old v =
     (if v = JNull then (None, None)
      else case decode_slice zero dec (case old of None \<Rightarrow> ([], 0) | Some s \<Rightarrow> s) v of
             (s, err) \<Rightarrow> (case v of JArr _ \<Rightarrow> Some s | _ \<Rightarrow> old, err))"

definition set_FileNode :: "string \<Rightarrow> FileNode \<Rightarrow> json \<Rightarrow> FileNode \<times> error option" where
  "set_FileNode name fn v =
     (if name = ''type''
      then (case decode_string (fn_Type fn) v of (t, err) \<Rightarrow> (fn\<lparr>fn_Type := t\<rparr>, err))
      else (case decode_slice_field [] decode_string (fn_Chunks fn) v of
              (cs, err) \<Rightarrow> (fn\<lparr>fn_Chunks := cs\<rparr>, err)))"

definition zero_FileNode :: FileNode where
  "zero_FileNode = \<lparr>fn_Type = [], fn_Chunks = None\<rparr>"

text \<open>\<open>var fn merkle.FileNode; json.Unmarshal(b, &fn)\<close>\<close>

definition Unmarshal_FileNode :: "bytes \<Rightarrow> FileNode \<times> error option" where
  "Unmarshal_FileNode b =
     unmarshal (decode_struct [''type'', ''chunks''] set_FileNode) zero_FileNode (string_of_bytes b)"

definition set_DirEntry :: "string \<Rightarrow> DirEntry \<Rightarrow> json \<Rightarrow> DirEntry \<times> error option" where
  "set_DirEntry name d v =
     (if name = ''name''
      then (case decode_string (de_Name d) v of (s, err) \<Rightarrow> (d\<lparr>de_Name := s\<rparr>, err))
      else (case decode_string (de_CID d) v of (s, err) \<Rightarrow> (d\<lparr>de_CID := s\<rparr>, err)))"

definition set_DirectoryNode :: "string \<Rightarrow> DirectoryNode \<Rightarrow> json \<Rightarrow> DirectoryNode \<times> error option" where
  "set_DirectoryNode name dn v =
     (if name = ''type''
      then (case decode_string (dn_Type dn) v of (t, err) \<Rightarrow> (dn\<lparr>dn_Type := t\<rparr>, err))
      else (case decode_slice_field \<lparr>de_Name = [], de_CID = []\<rparr>
                   (decode_struct [''name'', ''cid''] set_DirEntry) (dn_Entries dn) v of
              (es, err) \<Rightarrow> (dn\<lparr>dn_Entries := es\<rparr>, err)))"

definition Unmarshal_DirectoryNode :: "bytes \<Rightarrow> DirectoryNode \<times> error option" where
  "Unmarshal_DirectoryNode b =
     unmarshal (decode_struct [''type'', ''entries''] set_DirectoryNode)
       \<lparr>dn_Type = [], dn_Entries = None\<rparr> (string_of_bytes b)"

text \<open>\<open>bytes.TrimSpace\<close>: the encodings of the characters with \<open>unicode.IsSpace\<close>.\<close>

definition space_runes :: "string list" where
  "space_runes =
     [[CHR 0x09], [CHR 0x0A], [CHR 0x0B], [CHR 0x0C], [CHR 0x0D], [CHR 0x20],
      [CHR 0xC2, CHR 0x85], [CHR 0xC2, CHR 0xA0], [CHR 0xE1, CHR 0x9A, CHR 0x80]] @
     map (\<lambda>c. [CHR 0xE2, CHR 0x80, c])
       [CHR 0x80, CHR 0x81, CHR 0x82, CHR 0x83, CHR 0x84, CHR 0x85, CHR 0x86, CHR 0x87, CHR 0x88,
        CHR 0x89, CHR 0x8A] @
     [[CHR 0xE2, CHR 0x80, CHR 0xA8], [CHR 0xE2, CHR 0x80, CHR 0xA9], [CHR 0xE2, CHR 0x80, CHR 0xAF],
      [CHR 0xE2, CHR 0x81, CHR 0x9F], [CHR 0xE3, CHR 0x80, CHR 0x80]]"

text \<open>Drop prefixes from the list as long as there are any; each round drops a character.\<close>

fun strip_prefixes :: "nat \<Rightarrow> string list \<Rightarrow> string \<Rightarrow> string" where
  "strip_prefixes 0 ps s = s"
| "strip_prefixes (Suc n) ps s =
     (case find (\<lambda>p. p = take (length p) s) ps of
        None \<Rightarrow> s
      | Some p \<Rightarrow> strip_prefixes n ps (drop (length p) s))"

definition TrimSpace :: "string \<Rightarrow> string" where
  "TrimSpace s =
     (let t = strip_prefixes (length s) space_runes s
      in rev (strip_prefixes (length t) (map rev space_runes) (rev t)))"

definition set_type_only :: "string \<Rightarrow> NodeType \<Rightarrow> json \<Rightarrow> NodeType \<times> error option" where
  "set_type_only name t v = decode_string t v"

definition DetectType :: "bytes \<Rightarrow> error + NodeType" where
  "DetectType b =
     (let block = TrimSpace (string_of_bytes b)
      in if block = [] \<or> hd block \<noteq> CHR ''{'' then Inl ''not a JSON dag node''
         else case unmarshal (decode_struct [''type''] set_type_only) [] block of
                (_, Some err) \<Rightarrow> Inl err
              | (t, None) \<Rightarrow>
                  (if t = NodeTypeFile \<or> t = NodeTypeDirectory then Inr t
                   else Inl ''unknown dag node type''))"

text \<open>The fuel of \<open>strip_prefixes\<close> is enough: at the end nothing is left to strip.\<close>

lemma strip_prefixes_done:
  assumes "length s \<le> n" "\<forall>p\<in>set ps. p \<noteq> []"
  shows "\<forall>p\<in>set ps. p \<noteq> take (length p) (strip_prefixes n ps s)"
  using assms(1)
proof (induction n arbitrary: s)
  case 0
  then show ?case using assms(2) by auto
next
  case (Suc n)
  show ?case
  proof (cases "find (\<lambda>p. p = take (length p) s) ps")
    case None
    then have "\<forall>p\<in>set ps. p \<noteq> take (length p) s" by (auto simp: find_None_iff)
    with None show ?thesis by simp
  next
    case (Some p)
    then have "p \<in> set ps" by (auto simp: find_Some_iff)
    with assms(2) have "length (drop (length p) s) \<le> n" using Suc.prems by (cases p) auto
    from Suc.IH [OF this] Some show ?thesis by simp
  qed
qed

section \<open>A file node survives its block\<close>

lemma slice_elems_full [simp]: "slice_elems (xs, length xs) = xs"
  by (simp add: slice_elems_def)

lemma elems_copy [simp]: "elems (copy_slice xs) = xs"
  by (simp add: elems_def copy_slice_def)

lemma NewFileNode_fields [simp]:
  "fn_Type (NewFileNode cs) = NodeTypeFile" "elems (fn_Chunks (NewFileNode cs)) = cs"
  by (simp_all add: NewFileNode_def)

lemma slice_json_copy:
  "slice_json f (copy_slice xs) = (if xs = [] then JNull else JArr (map f xs))"
  by (simp add: slice_json_def copy_slice_def)

lemma canonical_strings [simp]: "map canonical (map JStr cs) = map JStr cs"
  by simp

lemma file_keys: "sorted_list_of_set {''type'', ''chunks''} = [''chunks'', ''type'']"
  by (simp add: less_eq_char_def)

lemma canonical_slice [simp]: "canonical (slice_json JStr s) = slice_json JStr s"
  by (simp add: slice_json_def o_def split: option.split)

text \<open>The block of a file node: the chunk list, then the type.\<close>

definition file_block :: "FileNode \<Rightarrow> json" where
  "file_block fn = JObj [(''chunks'', slice_json JStr (fn_Chunks fn)), (''type'', JStr (fn_Type fn))]"

lemma canonical_FileNode: "canonical (FileNode_json fn) = file_block fn"
  by (simp add: FileNode_json_def file_block_def file_keys)

lemma plain_slice: "plain (slice_json JStr s) \<longleftrightarrow> (\<forall>c\<in>set (elems s). ascii c)"
  by (auto simp: slice_json_def elems_def split: option.split)

lemma nesting_slice: "nesting (slice_json JStr s) \<le> 1"
proof -
  have "foldr max (map nesting (map JStr cs)) 0 = 0" for cs by (induction cs) auto
  then show ?thesis by (auto simp: slice_json_def split: option.split)
qed

lemma FileNode_plain:
  assumes "ascii (fn_Type fn)" "\<forall>c\<in>set (elems (fn_Chunks fn)). ascii c"
  shows "plain (FileNode_json fn)" "nesting (FileNode_json fn) \<le> maxNestingDepth"
    "plain (file_block fn)" "nesting (file_block fn) \<le> maxNestingDepth"
  using assms nesting_slice [of "fn_Chunks fn"]
  by (auto simp: FileNode_json_def file_block_def plain_slice maxNestingDepth_def)

lemma EncodeCanonicalJSON_file:
  assumes "ascii (fn_Type fn)" "\<forall>c\<in>set (elems (fn_Chunks fn)). ascii c"
  shows "EncodeCanonicalJSON (FileNode_json fn) = Inr (bytes_of_string (print_json (file_block fn)))"
  using FileNode_plain [OF assms] by (simp add: EncodeCanonicalJSON_def parse_print canonical_FileNode)

lemma decode_strings:
  "decode_elems [] decode_string (map JStr cs) [] = (cs, None)"
  by (induction cs) (auto simp: decode_string_def save_error_def)

lemma decode_chunks:
  "decode_slice_field [] decode_string None (slice_json JStr (copy_slice cs)) = (copy_slice cs, None)"
  unfolding slice_json_copy
  by (cases cs) (auto simp: decode_slice_field_def decode_slice_def copy_slice_def
      decode_string_def save_error_def decode_strings)

lemma decode_file_block:
  "decode_struct [''type'', ''chunks''] set_FileNode zero_FileNode (file_block (NewFileNode cs)) =
     (NewFileNode cs, None)"
  by (simp add: decode_struct_def file_block_def match_field_def set_FileNode_def zero_FileNode_def
      NewFileNode_def decode_chunks decode_string_def save_error_def)

lemma no_strip: "\<forall>p\<in>set ps. p \<noteq> take (length p) s \<Longrightarrow> strip_prefixes n ps s = s"
  by (cases n) (auto simp: find_Some_iff split: option.split)

lemma print_file_block:
  "\<exists>s. print_json (file_block fn) = CHR ''{'' # s @ [CHR ''}'']"
  by (simp add: file_block_def)

lemma space_runes_head: "p \<in> set space_runes \<Longrightarrow> p \<noteq> [] \<and> hd p \<noteq> CHR ''{'' \<and> List.last p \<noteq> CHR ''}''"
  by (auto simp: space_runes_def)

lemma TrimSpace_object [simp]: "TrimSpace (CHR ''{'' # s @ [CHR ''}'']) = CHR ''{'' # s @ [CHR ''}'']"
proof -
  let ?t = "CHR ''{'' # s @ [CHR ''}'']"
  have "p \<noteq> take (length p) ?t" if "p \<in> set space_runes" for p
    using space_runes_head [OF that] by (cases p) auto
  then have l: "strip_prefixes n space_runes ?t = ?t" for n by (intro no_strip) auto
  have "p \<noteq> take (length p) (rev ?t)" if "p \<in> set (map rev space_runes)" for p
  proof -
    from that obtain q where "q \<in> set space_runes" "p = rev q" by auto
    with space_runes_head [of q] show ?thesis by (cases q rule: rev_cases) auto
  qed
  then have "strip_prefixes n (map rev space_runes) (rev ?t) = rev ?t" for n by (intro no_strip) auto
  with l show ?thesis by (simp add: TrimSpace_def Let_def)
qed

text \<open>
  C33. A file node survives being stored: for chunk ids over ASCII, the canonical encoding
  succeeds, and what \<open>json.Unmarshal\<close> reads back from the block is the very node with no
  error, recognised by \<open>DetectType\<close> as a file; so two file nodes with the same block have the
  same chunks, in the same order.
\<close>

theorem FileNode_roundtrip:
  assumes "\<forall>c\<in>set cs. ascii c"
  shows "\<exists>b. EncodeCanonicalJSON (FileNode_json (NewFileNode cs)) = Inr b \<and>
           Unmarshal_FileNode b = (NewFileNode cs, None) \<and> DetectType b = Inr NodeTypeFile"
proof -
  let ?fn = "NewFileNode cs"
  have a: "ascii (fn_Type ?fn)" "\<forall>c\<in>set (elems (fn_Chunks ?fn)). ascii c" using assms by simp_all
  let ?p = "print_json (file_block ?fn)"
  have p: "parse_json ?p = Some (file_block ?fn)" using FileNode_plain [OF a] by (simp add: parse_print)
  obtain s where s: "?p = CHR ''{'' # s @ [CHR ''}'']" using print_file_block by blast
  have "DetectType (bytes_of_string ?p) = Inr NodeTypeFile"
    using p unfolding s
    by (simp add: DetectType_def Let_def unmarshal_def decode_struct_def file_block_def match_field_def
        set_type_only_def decode_string_def save_error_def)
  moreover have "Unmarshal_FileNode (bytes_of_string ?p) = (?fn, None)"
    using p by (simp add: Unmarshal_FileNode_def unmarshal_def decode_file_block)
  ultimately show ?thesis using EncodeCanonicalJSON_file [OF a] by simp
qed

theorem FileNode_roundtrip_witness:
  "\<exists>b. EncodeCanonicalJSON (FileNode_json (NewFileNode [''ab'', ''c0''])) = Inr b \<and>
     Unmarshal_FileNode b = (NewFileNode [''ab'', ''c0''], None) \<and> DetectType b = Inr NodeTypeFile"
  by (rule FileNode_roundtrip) simp

section \<open>Canonical form\<close>

lemma canonical_perm:
  assumes "distinct (map fst fs)" "mset fs = mset gs"
  shows "canonical (JObj fs) = canonical (JObj gs)"
proof -
  have d: "distinct (map fst gs)" using assms by (metis mset_map mset_eq_imp_distinct_iff)
  have s: "set fs = set gs" using assms(2) by (metis mset_eq_setD)
  let ?c = "map (\<lambda>(k, v). (k, canonical v))"
  have f: "fst \<circ> (\<lambda>(k, v). (k, canonical v)) = fst" by (simp add: fun_eq_iff case_prod_beta')
  have "map_of (rev (?c fs)) = map_of (rev (?c gs))"
    by (subst map_of_inject_set) (use assms(1) d s in \<open>simp_all add: f rev_map [symmetric]\<close>)
  then show ?thesis using s by simp
qed

text \<open>
  The encoding is canonical: two values with the same fields in a different order encode
  to the same bytes, so they have the same content id.
\<close>

theorem EncodeCanonicalJSON_order:
  assumes "distinct (map fst fs)" "mset fs = mset gs"
    and "plain (JObj fs)" "nesting (JObj fs) \<le> maxNestingDepth"
  shows "EncodeCanonicalJSON (JObj fs) = EncodeCanonicalJSON (JObj gs)"
proof -
  have s: "set fs = set gs" using assms(2) by (metis mset_eq_setD)
  have m: "foldr max xs (0 :: nat) \<le> n \<longleftrightarrow> (\<forall>x\<in>set xs. x \<le> n)" for xs n by (induction xs) auto
  have "foldr max (map (\<lambda>(k, v). nesting v) fs) 0 \<le> 9999" using assms(4) by (simp add: maxNestingDepth_def)
  then have "foldr max (map (\<lambda>(k, v). nesting v) gs) 0 \<le> 9999" using s unfolding m by simp
  then have "nesting (JObj gs) \<le> maxNestingDepth" by (simp add: maxNestingDepth_def)
  moreover have "plain (JObj gs)" using assms(3) s by simp
  ultimately show ?thesis
    using assms(3,4) canonical_perm [OF assms(1,2)]
    by (simp add: EncodeCanonicalJSON_def parse_print del: canonical.simps print_json_JObj plain.simps nesting.simps)
qed

theorem EncodeCanonicalJSON_order_witness:
  "EncodeCanonicalJSON (JObj [(''b'', JNull), (''a'', JStr ''x'')]) =
   EncodeCanonicalJSON (JObj [(''a'', JStr ''x''), (''b'', JNull)])"
  by (rule EncodeCanonicalJSON_order) (simp_all add: maxNestingDepth_def)

text \<open>
  A directory node does not depend on the order in which its entries are given, nor on how
  the sort treats equal names, as long as the names are distinct: it lists exactly the given
  entries, in the order of their names.
\<close>

theorem NewDirectoryNode_spec:
  assumes "sorts_by_name srt" "sorts_by_name srt'" "distinct (map de_Name es)" "mset es = mset es'"
  shows "NewDirectoryNode srt es = NewDirectoryNode srt' es' \<and>
         dn_Type (NewDirectoryNode srt es) = NodeTypeDirectory \<and>
         mset (elems (dn_Entries (NewDirectoryNode srt es))) = mset es \<and>
         sorted (map de_Name (elems (dn_Entries (NewDirectoryNode srt es))))"
proof -
  have m: "mset (srt es) = mset es" "mset (srt' es') = mset es" "sorted (map de_Name (srt es))"
    "sorted (map de_Name (srt' es'))" using assms(1,2,4) by (simp_all add: sorts_by_name_def)
  have "inj_on de_Name (set es)" using assms(3) by (simp add: distinct_map)
  then have "sort_key de_Name es = srt es" "sort_key de_Name es = srt' es'"
    using m by (auto intro!: sort_key_inj_key_eq)
  then show ?thesis using m by (simp add: NewDirectoryNode_def)
qed

theorem NewDirectoryNode_spec_witness:
  "NewDirectoryNode (sort_key de_Name) [\<lparr>de_Name = ''b'', de_CID = ''1''\<rparr>, \<lparr>de_Name = ''a'', de_CID = ''2''\<rparr>] =
   NewDirectoryNode (sort_key de_Name) [\<lparr>de_Name = ''a'', de_CID = ''2''\<rparr>, \<lparr>de_Name = ''b'', de_CID = ''1''\<rparr>]"
proof -
  have "sorts_by_name (sort_key de_Name)" by (simp add: sorts_by_name_def)
  from NewDirectoryNode_spec [OF this this,
      of "[\<lparr>de_Name = ''b'', de_CID = ''1''\<rparr>, \<lparr>de_Name = ''a'', de_CID = ''2''\<rparr>]"
         "[\<lparr>de_Name = ''a'', de_CID = ''2''\<rparr>, \<lparr>de_Name = ''b'', de_CID = ''1''\<rparr>]"]
  show ?thesis by simp
qed

end
