(* ===== verification/Storage.thy ===== *)
theory Storage
  imports Keys
begin

text \<open>
  The disk of a node and the block store on it. The files are a map from path to contents; the
  operations of \<open>os\<close> and \<open>path/filepath\<close> the program uses are modelled on it, failing where
  \<open>os_deny\<close> says so.

  The package \<open>internal/storage\<close> is not part of the repository's sources. What the program
  calls of it is the record \<open>storage\<close>, a parameter of every definition that uses it, and
  \<open>storage_ok\<close> states what \<open>docs/ARCHITECTURE.md\<close> says of the package: a block is identified
  by the hash of its bytes, 64 hex digits; \<open>Put\<close> writes a block and \<open>Get\<close> reads it back, each
  block in a file named after its id; \<open>PutFile\<close> cuts a file into pieces of at most the chunk
  size, stores each and returns their ids in order. Nothing says that the hash is injective.
\<close>

section \<open>The file system\<close>

type_synonym disk = "string \<rightharpoonup> bytes"

record os =
  os_deny :: "string \<Rightarrow> string \<Rightarrow> error option"
  os_TempName :: "string \<Rightarrow> disk \<Rightarrow> string"

definition os_ReadFile :: "os \<Rightarrow> string \<Rightarrow> disk \<Rightarrow> error + bytes" where
  "os_ReadFile os path d =
     (case os_deny os ''read'' path of
        Some err \<Rightarrow> Inl err
      | None \<Rightarrow>
          (case d path of
             None \<Rightarrow> Inl (''open '' @ path @ '': no such file or directory'')
           | Some b \<Rightarrow> Inr b))"

definition os_WriteFile :: "os \<Rightarrow> string \<Rightarrow> bytes \<Rightarrow> disk \<Rightarrow> error option \<times> disk" where
  "os_WriteFile os path b d =
     (case os_deny os ''write'' path of Some err \<Rightarrow> (Some err, d) | None \<Rightarrow> (None, d(path \<mapsto> b)))"

definition os_MkdirAll :: "os \<Rightarrow> string \<Rightarrow> error option" where
  "os_MkdirAll os path = os_deny os ''mkdir'' path"

definition os_CreateTemp :: "os \<Rightarrow> string \<Rightarrow> disk \<Rightarrow> (error + string) \<times> disk" where
  "os_CreateTemp os pattern d =
     (case os_deny os ''create'' pattern of
        Some err \<Rightarrow> (Inl err, d)
      | None \<Rightarrow> let path = os_TempName os pattern d in (Inr path, d(path \<mapsto> [])))"

definition os_Create :: "os \<Rightarrow> string \<Rightarrow> disk \<Rightarrow> error option \<times> disk" where
  "os_Create os path d =
     (case os_deny os ''create'' path of Some err \<Rightarrow> (Some err, d) | None \<Rightarrow> (None, d(path \<mapsto> [])))"

text \<open>Writing to an open file appends; closing it may fail; removing ignores a missing file.\<close>

definition file_Write :: "os \<Rightarrow> string \<Rightarrow> bytes \<Rightarrow> disk \<Rightarrow> error option \<times> disk" where
  "file_Write os path b d =
     (case os_deny os ''write'' path of
        Some err \<Rightarrow> (Some err, d)
      | None \<Rightarrow> (None, d(path \<mapsto> (case d path of None \<Rightarrow> [] | Some b0 \<Rightarrow> b0) @ b)))"

definition file_Close :: "os \<Rightarrow> string \<Rightarrow> error option" where
  "file_Close os path = os_deny os ''close'' path"

definition os_Remove :: "string \<Rightarrow> disk \<Rightarrow> disk" where
  "os_Remove path d = d(path := None)"

text \<open>
  \<open>filepath.Join\<close> on Unix: the nonempty elements joined by a slash and cleaned, so without
  empty and \<open>.\<close> elements, and with \<open>..\<close> resolved.
\<close>

fun split_path :: "string \<Rightarrow> string \<Rightarrow> string list" where
  "split_path acc [] = [acc]"
| "split_path acc (c # s) = (if c = CHR ''/'' then acc # split_path [] s else split_path (acc @ [c]) s)"

fun clean_elems :: "bool \<Rightarrow> string list \<Rightarrow> string list \<Rightarrow> string list" where
  "clean_elems rooted acc [] = acc"
| "clean_elems rooted acc (e # es) =
     (if e = [] \<or> e = ''.'' then clean_elems rooted acc es
      else if e = ''..''
      then (if acc \<noteq> [] \<and> List.last acc \<noteq> ''..'' then clean_elems rooted (butlast acc) es
            else if rooted then clean_elems rooted acc es
            else clean_elems rooted (acc @ [e]) es)
      else clean_elems rooted (acc @ [e]) es)"

fun join_slash :: "string list \<Rightarrow> string" where
  "join_slash [] = []"
| "join_slash [e] = e"
| "join_slash (e # f # es) = e @ CHR ''/'' # join_slash (f # es)"

definition Clean :: "string \<Rightarrow> string" where
  "Clean path =
     (let rooted = (path \<noteq> [] \<and> hd path = CHR ''/'');
          body = join_slash (clean_elems rooted [] (split_path [] path))
      in if rooted then CHR ''/'' # body else if body = [] then ''.'' else body)"

definition Join :: "string list \<Rightarrow> string" where
  "Join es = (let fs = filter (\<lambda>e. e \<noteq> []) es in if fs = [] then [] else Clean (join_slash fs))"

text \<open>The last element of a path.\<close>

definition base_name :: "string \<Rightarrow> string" where
  "base_name path = List.last (split_path [] path)"

lemma split_path_ne [simp]: "split_path acc s \<noteq> []"
  by (induction s arbitrary: acc) auto

lemma base_name_after_slash: "CHR ''/'' \<notin> set s \<Longrightarrow> List.last (split_path acc (p @ CHR ''/'' # s)) = s"
proof -
  assume s: "CHR ''/'' \<notin> set s"
  then have "split_path a s = [a @ s]" for a by (induction s arbitrary: a) auto
  then show ?thesis by (induction p arbitrary: acc) auto
qed

section \<open>The block store\<close>

record 's storage =
  NewCID :: "bytes \<Rightarrow> string"
  VerifyCID :: "string \<Rightarrow> bytes \<Rightarrow> error option"
  Validate :: "string \<Rightarrow> error option"
  DefaultChunkSize :: nat
  NewStore :: "string \<Rightarrow> disk \<Rightarrow> (error + 's) \<times> disk"
  RootDir :: "'s \<Rightarrow> string"
  store_Put :: "'s \<Rightarrow> bytes \<Rightarrow> disk \<Rightarrow> (error + string) \<times> disk"
  store_Get :: "'s \<Rightarrow> string \<Rightarrow> disk \<Rightarrow> error + bytes"
  PutFile :: "nat \<Rightarrow> 's \<Rightarrow> string \<Rightarrow> disk \<Rightarrow> (error + string list) \<times> disk"
  ReconstructFile :: "'s \<Rightarrow> string \<Rightarrow> disk \<Rightarrow> bytes \<times> error option"

text \<open>What a store holds: the block read under each id, if one is.\<close>

definition view :: "'s storage \<Rightarrow> 's \<Rightarrow> disk \<Rightarrow> string \<rightharpoonup> bytes" where
  "view S s d c = (case store_Get S s c d of Inl _ \<Rightarrow> None | Inr b \<Rightarrow> Some b)"

text \<open>The view after blocks were stored under their ids, one after the other.\<close>

definition put_blocks :: "'s storage \<Rightarrow> bytes list \<Rightarrow> (string \<rightharpoonup> bytes) \<Rightarrow> string \<rightharpoonup> bytes" where
  "put_blocks S bs v = foldl (\<lambda>v b. v(NewCID S b \<mapsto> b)) v bs"

text \<open>A path where a store may keep a block: its last element is an id.\<close>

definition block_path :: "string \<Rightarrow> bool" where
  "block_path path \<longleftrightarrow> (\<exists>k. KeyFromHex (base_name path) = Inr k)"

definition storage_ok :: "'s storage \<Rightarrow> bool" where
  "storage_ok S \<longleftrightarrow>
     (\<forall>b. \<exists>k. KeyFromHex (NewCID S b) = Inr k) \<and>
     (\<forall>c b. VerifyCID S c b = None \<longleftrightarrow> c = NewCID S b) \<and>
     (\<forall>b. Validate S (NewCID S b) = None) \<and>
     (\<forall>s b d. case store_Put S s b d of
        (Inl _, d') \<Rightarrow> view S s d' = view S s d
      | (Inr c, d') \<Rightarrow> c = NewCID S b \<and> view S s d' = (view S s d)(c \<mapsto> b)) \<and>
     (\<forall>s d path x. \<not> block_path path \<longrightarrow> view S s (d(path := x)) = view S s d) \<and>
     (\<forall>s d. (\<forall>path. block_path path \<longrightarrow> d path = None) \<longrightarrow> view S s d = Map.empty) \<and>
     (\<forall>n s path d. case PutFile S n s path d of
        (Inl _, d') \<Rightarrow> \<exists>bs. view S s d' = put_blocks S bs (view S s d)
      | (Inr cids, d') \<Rightarrow>
          \<exists>bs. d path = Some (concat bs) \<and> (\<forall>b\<in>set bs. length b \<le> n) \<and>
               cids = map (NewCID S) bs \<and> view S s d' = put_blocks S bs (view S s d))"

named_theorems store \<open>what the block store promises\<close>

lemma NewCID_key [store]: "storage_ok S \<Longrightarrow> \<exists>k. KeyFromHex (NewCID S b) = Inr k"
  by (simp add: storage_ok_def)

lemma VerifyCID_iff [store]: "storage_ok S \<Longrightarrow> VerifyCID S c b = None \<longleftrightarrow> c = NewCID S b"
  by (simp add: storage_ok_def)

lemma Validate_NewCID [store]: "storage_ok S \<Longrightarrow> Validate S (NewCID S b) = None"
  by (simp add: storage_ok_def)

lemma Put_ok:
  "storage_ok S \<Longrightarrow> store_Put S s b d = (Inr c, d') \<Longrightarrow>
   c = NewCID S b \<and> view S s d' = (view S s d)(NewCID S b \<mapsto> b)"
  unfolding storage_ok_def by (elim conjE allE [of _ s]) (auto elim!: allE [of _ b] allE [of _ d])

lemma Put_fails: "storage_ok S \<Longrightarrow> store_Put S s b d = (Inl e, d') \<Longrightarrow> view S s d' = view S s d"
  unfolding storage_ok_def by (elim conjE allE [of _ s]) (auto elim!: allE [of _ b] allE [of _ d])

lemma view_frame [store]: "storage_ok S \<Longrightarrow> \<not> block_path path \<Longrightarrow> view S s (d(path := x)) = view S s d"
  by (simp add: storage_ok_def)

lemma view_fresh: "storage_ok S \<Longrightarrow> (\<And>path. block_path path \<Longrightarrow> d path = None) \<Longrightarrow> view S s d = Map.empty"
  by (simp add: storage_ok_def)

lemma PutFile_ok:
  assumes "storage_ok S" "PutFile S n s path d = (Inr cids, d')"
  obtains bs where "d path = Some (concat bs)" "\<forall>b\<in>set bs. length b \<le> n"
    "cids = map (NewCID S) bs" "view S s d' = put_blocks S bs (view S s d)"
proof -
  have "case PutFile S n s path d of
        (Inl _, d') \<Rightarrow> \<exists>bs. view S s d' = put_blocks S bs (view S s d)
      | (Inr cids, d') \<Rightarrow>
          \<exists>bs. d path = Some (concat bs) \<and> (\<forall>b\<in>set bs. length b \<le> n) \<and>
               cids = map (NewCID S) bs \<and> view S s d' = put_blocks S bs (view S s d)"
    using assms(1) by (simp add: storage_ok_def)
  with assms(2) that show thesis by auto
qed

lemma PutFile_fails:
  assumes "storage_ok S" "PutFile S n s path d = (Inl e, d')"
  obtains bs where "view S s d' = put_blocks S bs (view S s d)"
proof -
  have "case PutFile S n s path d of
        (Inl _, d') \<Rightarrow> \<exists>bs. view S s d' = put_blocks S bs (view S s d)
      | (Inr cids, d') \<Rightarrow>
          \<exists>bs. d path = Some (concat bs) \<and> (\<forall>b\<in>set bs. length b \<le> n) \<and>
               cids = map (NewCID S) bs \<and> view S s d' = put_blocks S bs (view S s d)"
    using assms(1) by (simp add: storage_ok_def)
  with assms(2) that show thesis by auto
qed

lemma store_Get_view [store]: "store_Get S s c d = Inr b \<longleftrightarrow> view S s d c = Some b"
  by (simp add: view_def split: sum.split)

text \<open>Every block a store holds is the one its id names.\<close>

definition view_sound :: "'s storage \<Rightarrow> (string \<rightharpoonup> bytes) \<Rightarrow> bool" where
  "view_sound S v \<longleftrightarrow> (\<forall>c b. v c = Some b \<longrightarrow> NewCID S b = c)"

lemma view_sound_empty [simp]: "view_sound S Map.empty"
  by (simp add: view_sound_def)

lemma view_sound_put: "view_sound S v \<Longrightarrow> view_sound S (v(NewCID S b \<mapsto> b))"
  by (simp add: view_sound_def)

lemma put_blocks_simps [simp]:
  "put_blocks S [] v = v" "put_blocks S (b # bs) v = put_blocks S bs (v(NewCID S b \<mapsto> b))"
  by (simp_all add: put_blocks_def)

lemma view_sound_put_blocks: "view_sound S v \<Longrightarrow> view_sound S (put_blocks S bs v)"
  by (induction bs arbitrary: v) (simp_all add: view_sound_put)

text \<open>After a put every block is there, unless a block with the same id came after it.\<close>

lemma put_blocks_other: "c \<notin> NewCID S ` set bs \<Longrightarrow> put_blocks S bs v c = v c"
  by (induction bs arbitrary: v) auto

lemma put_blocks_get:
  "inj_on (NewCID S) (set bs) \<Longrightarrow> b \<in> set bs \<Longrightarrow> put_blocks S bs v (NewCID S b) = Some b"
proof (induction bs arbitrary: v)
  case (Cons a bs)
  show ?case
  proof (cases "b \<in> set bs")
    case True
    with Cons show ?thesis by (simp add: inj_on_insert)
  next
    case False
    with Cons.prems have "b = a" "NewCID S a \<notin> NewCID S ` set bs" by (auto simp: inj_on_def)
    then show ?thesis by (simp add: put_blocks_other)
  qed
qed simp

lemma put_blocks_dom: "c \<in> NewCID S ` set bs \<Longrightarrow> \<exists>b. b \<in> set bs \<and> NewCID S b = c \<and> put_blocks S bs v c = Some b"
proof (induction bs arbitrary: v)
  case (Cons a bs)
  then show ?case
  proof (cases "c \<in> NewCID S ` set bs")
    case True
    with Cons.IH show ?thesis by auto
  next
    case False
    with Cons.prems have "c = NewCID S a" by auto
    with False show ?thesis by (auto simp: put_blocks_other)
  qed
qed simp

section \<open>A store for the examples\<close>

text \<open>
  A store in a directory, one file per block. The ids of blocks of up to 30 bytes, and of one
  larger block, belong to that block alone; all other blocks share ids.
\<close>

fun cut :: "nat \<Rightarrow> nat \<Rightarrow> bytes \<Rightarrow> bytes list" where
  "cut 0 n b = []"
| "cut (Suc k) n b = (if b = [] then [] else take n b # cut k n (drop n b))"

definition ex_hash :: "bytes \<Rightarrow> bytes" where
  "ex_hash b =
     (if length b \<le> 30 then take 32 (word_of_nat (length b + 1) # b @ replicate 32 0)
      else take 32 (0 # b @ replicate 32 0))"

definition ex_chunk :: bytes where
  "ex_chunk = [1, 2, 3]"

definition ex_root :: bytes where
  "ex_root = bytes_of_string
     ([CHR ''{'', CHR 0x22] @ ''chunks'' @ [CHR 0x22, CHR '':'', CHR ''['', CHR 0x22] @
      hexEncode (ex_hash ex_chunk) @ [CHR 0x22, CHR '']'', CHR '','', CHR 0x22] @ ''type'' @
      [CHR 0x22, CHR '':'', CHR 0x22] @ ''file'' @ [CHR 0x22, CHR ''}''])"

definition ex_cid :: "bytes \<Rightarrow> string" where
  "ex_cid b = hexEncode (if b = ex_root then replicate 32 255 else ex_hash b)"

definition ex_put :: "string \<Rightarrow> bytes \<Rightarrow> disk \<Rightarrow> disk" where
  "ex_put dir b d = d(dir @ CHR ''/'' # ex_cid b \<mapsto> b)"

definition ex_storage :: "string storage" where
  "ex_storage =
     \<lparr>NewCID = ex_cid, VerifyCID = (\<lambda>c b. if c = ex_cid b then None else Some ''bad cid''),
      Validate = (\<lambda>c. case KeyFromHex c of Inl _ \<Rightarrow> Some ''bad cid'' | Inr _ \<Rightarrow> None),
      DefaultChunkSize = 4,
      NewStore = (\<lambda>dir d. (Inr dir, d)), RootDir = (\<lambda>dir. dir),
      store_Put = (\<lambda>dir b d. (Inr (ex_cid b), ex_put dir b d)),
      store_Get = (\<lambda>dir c d. case KeyFromHex c of
         Inl _ \<Rightarrow> Inl ''bad cid''
       | Inr _ \<Rightarrow> (case d (dir @ CHR ''/'' # c) of None \<Rightarrow> Inl ''not found'' | Some b \<Rightarrow> Inr b)),
      PutFile = (\<lambda>n dir path d. case d path of
         None \<Rightarrow> (Inl ''no file'', d)
       | Some b \<Rightarrow>
           (if n = 0 then (Inl ''chunk size'', d)
            else let bs = cut (length b) n b
                 in (Inr (map ex_cid bs), foldl (\<lambda>d b. ex_put dir b d) d bs))),
      ReconstructFile = (\<lambda>dir c d. ([], None))\<rparr>"

lemma KeyFromHex_encode: "length k = 32 \<Longrightarrow> KeyFromHex (hexEncode k) = Inr k"
  by (simp add: KeyFromHex_def keyBytes_def)

lemma length_ex_hash [simp]: "length (ex_hash b) = 32"
  by (simp add: ex_hash_def)

lemma ex_cid_key: "KeyFromHex (ex_cid b) = Inr (if b = ex_root then replicate 32 255 else ex_hash b)"
  unfolding ex_cid_def by (rule KeyFromHex_encode) simp

lemma KeyFromHex_digits: "KeyFromHex c = Inr k \<Longrightarrow> c' \<in> set c \<Longrightarrow> hex_digit c' \<noteq> None"
  using hexDecode_ok_iff [of c] by (auto simp: KeyFromHex_def list_all_iff split: if_splits sum.splits)

lemma key_no_slash: "KeyFromHex c = Inr k \<Longrightarrow> CHR ''/'' \<notin> set c"
  using KeyFromHex_digits [of c k "CHR ''/''"] by (auto simp: hex_digit_def)

lemma block_path_key: "KeyFromHex c = Inr k \<Longrightarrow> block_path (dir @ CHR ''/'' # c)"
  using key_no_slash [of c k] by (auto simp: block_path_def base_name_def base_name_after_slash)

lemma concat_cut: "0 < n \<Longrightarrow> length b \<le> k \<Longrightarrow> concat (cut k n b) = b"
  by (induction k n b rule: cut.induct) auto

lemma cut_bound: "x \<in> set (cut k n b) \<Longrightarrow> length x \<le> n"
  by (induction k n b rule: cut.induct) (auto split: if_splits)

lemma ex_view_eq: "view ex_storage dir d c = (case KeyFromHex c of Inl _ \<Rightarrow> None | Inr _ \<Rightarrow> d (dir @ CHR ''/'' # c))"
  by (simp add: view_def ex_storage_def split: sum.split option.split)

lemma ex_view_put: "view ex_storage dir (ex_put dir b d) = (view ex_storage dir d)(ex_cid b \<mapsto> b)"
  by (auto simp: fun_eq_iff ex_view_eq ex_put_def ex_cid_key split: sum.split)

lemma ex_view_puts:
  "view ex_storage dir (foldl (\<lambda>d b. ex_put dir b d) d bs) = put_blocks ex_storage bs (view ex_storage dir d)"
proof (induction bs arbitrary: d)
  case (Cons b bs)
  have "NewCID ex_storage b = ex_cid b" by (simp add: ex_storage_def)
  with Cons show ?case by (simp only: foldl.simps ex_view_put put_blocks_simps)
qed simp

lemma ex_PutFile_ok:
  "case PutFile ex_storage n dir path d of
     (Inl _, d') \<Rightarrow> \<exists>bs. view ex_storage dir d' = put_blocks ex_storage bs (view ex_storage dir d)
   | (Inr cids, d') \<Rightarrow>
       \<exists>bs. d path = Some (concat bs) \<and> (\<forall>b\<in>set bs. length b \<le> n) \<and>
            cids = map (NewCID ex_storage) bs \<and>
            view ex_storage dir d' = put_blocks ex_storage bs (view ex_storage dir d)"
proof (cases "d path")
  case None
  then show ?thesis by (auto simp: ex_storage_def intro!: exI [of _ "[]"])
next
  case (Some b)
  show ?thesis
  proof (cases "n = 0")
    case True
    with Some show ?thesis by (auto simp: ex_storage_def intro!: exI [of _ "[]"])
  next
    case False
    let ?bs = "cut (length b) n b"
    have p: "PutFile ex_storage n dir path d = (Inr (map ex_cid ?bs), foldl (\<lambda>d b. ex_put dir b d) d ?bs)"
      using Some False by (simp add: ex_storage_def Let_def)
    have "NewCID ex_storage = ex_cid" by (simp add: ex_storage_def)
    moreover have "concat ?bs = b" using False by (intro concat_cut) simp_all
    moreover have "\<forall>x\<in>set ?bs. length x \<le> n" using cut_bound by blast
    ultimately show ?thesis unfolding p using Some ex_view_puts [of dir d ?bs]
      by (auto intro!: exI [of _ ?bs])
  qed
qed

lemma ex_storage_ok: "storage_ok ex_storage"
proof -
  have 1: "\<exists>k. KeyFromHex (NewCID ex_storage b) = Inr k" for b by (simp add: ex_storage_def ex_cid_key)
  have 2: "VerifyCID ex_storage c b = None \<longleftrightarrow> c = NewCID ex_storage b" for c b
    by (simp add: ex_storage_def)
  have 3: "Validate ex_storage (NewCID ex_storage b) = None" for b
    by (simp add: ex_storage_def ex_cid_key)
  have 4: "case store_Put ex_storage s b d of
        (Inl _, d') \<Rightarrow> view ex_storage s d' = view ex_storage s d
      | (Inr c, d') \<Rightarrow> c = NewCID ex_storage b \<and> view ex_storage s d' = (view ex_storage s d)(c \<mapsto> b)" for s b d
  proof -
    have "store_Put ex_storage s b d = (Inr (ex_cid b), ex_put s b d)" "NewCID ex_storage b = ex_cid b"
      by (simp_all add: ex_storage_def)
    then show ?thesis by (simp add: ex_view_put)
  qed
  have 5: "view ex_storage s (d(path := x)) = view ex_storage s d" if "\<not> block_path path" for s d path x
    using that block_path_key by (fastforce simp: fun_eq_iff ex_view_eq split: sum.split)
  have 6: "view ex_storage s d = Map.empty" if "\<And>path. block_path path \<Longrightarrow> d path = None" for s d
    using that block_path_key by (fastforce simp: fun_eq_iff ex_view_eq split: sum.split)
  show ?thesis unfolding storage_ok_def by (intro conjI allI impI 1 2 3 4 5 6 ex_PutFile_ok) blast+
qed

text \<open>Short blocks, and the one larger block, are the only ones with their id.\<close>

lemma ex_hash_inj:
  assumes "ex_hash x = ex_hash y" "length y \<le> 30"
  shows "x = y"
proof -
  have w: "(word_of_nat (Suc n) :: byte) \<noteq> 0" "unat (word_of_nat (Suc n) :: byte) = Suc n" if "n \<le> 30" for n
  proof -
    show u: "unat (word_of_nat (Suc n) :: byte) = Suc n"
      using that by (simp add: unat_of_nat del: of_nat_Suc)
    then show "(word_of_nat (Suc n) :: byte) \<noteq> 0" by (metis Zero_not_Suc unat_0)
  qed
  from assms have h: "hd (ex_hash x) = word_of_nat (Suc (length y))" by (simp add: ex_hash_def)
  have short: "length x \<le> 30"
  proof (rule ccontr)
    assume "\<not> length x \<le> 30"
    then have "hd (ex_hash x) = 0" by (simp add: ex_hash_def)
    with h w(1) [OF assms(2)] show False by simp
  qed
  then have "hd (ex_hash x) = word_of_nat (Suc (length x))" by (simp add: ex_hash_def)
  with h have "unat (word_of_nat (Suc (length x)) :: byte) = unat (word_of_nat (Suc (length y)) :: byte)"
    by (simp del: of_nat_Suc)
  then have len: "length x = length y" using w(2) short assms(2) by simp
  have "take (length z) (tl (ex_hash z)) = z" if "length z \<le> 30" for z
    using that by (simp add: ex_hash_def)
  from this [OF short] this [OF assms(2)] assms(1) len show ?thesis by metis
qed

lemma ex_hash_not_255: "ex_hash x \<noteq> replicate 32 255"
proof
  assume "ex_hash x = replicate 32 255"
  then have h: "hd (ex_hash x) = 255" by simp
  show False
  proof (cases "length x \<le> 30")
    case True
    then have "unat (hd (ex_hash x)) = Suc (length x)"
      by (simp add: ex_hash_def unat_of_nat del: of_nat_Suc)
    with h True show False by simp
  next
    case False
    then have "hd (ex_hash x) = 0" by (simp add: ex_hash_def)
    with h show False by simp
  qed
qed

lemma length_ex_root: "31 \<le> length ex_root"
  by (simp add: ex_root_def)

lemma ex_cid_unique:
  assumes "ex_cid x = ex_cid y" "y = ex_root \<or> length y \<le> 30"
  shows "x = y"
proof (cases "y = ex_root")
  case True
  with assms(1) ex_hash_not_255 [of x] show ?thesis
    by (simp add: ex_cid_def split: if_splits)
next
  case False
  then have y: "length y \<le> 30" using assms(2) by simp
  have "x \<noteq> ex_root"
    using assms(1) False ex_hash_not_255 [of y] by (auto simp: ex_cid_def)
  with assms(1) False have "ex_hash x = ex_hash y" by (simp add: ex_cid_def)
  then show ?thesis using y by (rule ex_hash_inj)
qed

text \<open>An operating system that refuses nothing.\<close>

definition ex_os :: os where
  "ex_os = \<lparr>os_deny = (\<lambda>op path. None), os_TempName = (\<lambda>p d. ''/tmp/'' @ butlast p @ ''0'')\<rparr>"

end
