(* ===== verification/PeerHost.thy ===== *)
theory PeerHost
  imports PeerManager RoutingTable Lookup Replication Merkle Storage
begin

text \<open>
  The node itself: \<open>internal/coordinator/node.go\<close> and \<open>config.go\<close> (the catalog is in
  \<open>Catalog\<close>, the bootstrap loop in \<open>BootstrapSync\<close>). A \<open>PeerHost\<close> is the struct of the same
  name with the components it points to inlined: the registry, the manager, the provider
  records and the connections of the pool, which the replication manager shares. The state
  of a call is the host, its disk and the world outside.

  A call is modelled as it runs alone on its node; the handlers of the node that run between
  its steps are the interleavings of \<open>Scheduler\<close>. Log output is left out. A panic inside
  replica selection would be the error \<open>panic_error\<close>; it does not occur
  (\<open>SelectReplicaPeerIDs_total\<close>).
\<close>

section \<open>State\<close>

record Config =
  cfg_DataDir :: string
  cfg_GrpcListenAddr :: string
  cfg_HTTPListenAddr :: string
  cfg_BootstrapURL :: string
  cfg_ReplicationFactor :: int

record ('s, 'c) PeerHost =
  h_SelfID :: string
  h_GrpcAddr :: string
  h_HTTPAddr :: string
  h_DataDir :: string
  h_Bootstrap :: string
  h_ReplFactor :: int
  h_store :: 's
  h_chunker :: nat
  h_reg :: Registry
  h_rtm :: Manager
  h_providers :: ProviderRecords
  h_conns :: "string \<rightharpoonup> 'c"
  h_localCatalogCid :: string

type_synonym ('s, 'c, 'e) node = "('s, 'c) PeerHost \<times> disk \<times> 'e"

section \<open>Registry calls that draw their own orders\<close>

text \<open>The second loop of \<open>Upsert\<close> runs in an order of the map, less what the first one dropped.\<close>

definition draw_Snapshot :: "('c, 'e) runtime \<Rightarrow> Registry \<Rightarrow> 'e \<Rightarrow> Record list \<times> 'e" where
  "draw_Snapshot rt r e =
     (case rt_range rt (dom (reg_peers r)) e of (ks, e') \<Rightarrow> (Snapshot ks r, e'))"

definition draw_Upsert :: "('c, 'e) runtime \<Rightarrow> Record \<Rightarrow> Registry \<Rightarrow> 'e \<Rightarrow> bool \<times> Registry \<times> 'e" where
  "draw_Upsert rt rec r e =
     (case rt_range rt (dom (reg_peers r)) e of
        (ks, e1) \<Rightarrow>
          (case rt_range rt (dom (reg_peers r)) e1 of
             (ks', e2) \<Rightarrow>
               (case Upsert ks ks' (rt_now rt e2) (Some rec) r of (ok, r') \<Rightarrow> (ok, r', e2))))"

section \<open>Construction\<close>

definition is_trimmed :: "byte \<Rightarrow> bool" where
  "is_trimmed b \<longleftrightarrow> b = byte_of_char CHR '' '' \<or> b = byte_of_char CHR 0x0A \<or> b = byte_of_char CHR 0x0D"

definition bytesTrim :: "bytes \<Rightarrow> string" where
  "bytesTrim b =
     (let b1 = dropWhile is_trimmed b;
          b2 = rev (dropWhile is_trimmed (rev b1))
      in string_of_bytes b2)"

text \<open>\<open>rand\<close> is what reading 32 bytes of \<open>crypto/rand\<close> gives.\<close>

definition create_peer_id :: "os \<Rightarrow> error + bytes \<Rightarrow> string \<Rightarrow> disk \<Rightarrow> (error + string) \<times> disk" where
  "create_peer_id os rand path d =
     (case rand of
        Inl err \<Rightarrow> (Inl err, d)
      | Inr buf \<Rightarrow>
          let s = hexEncode buf
          in case os_WriteFile os path (bytes_of_string (s @ [CHR 0x0A])) d of
               (Some err, d') \<Rightarrow> (Inl err, d')
             | (None, d') \<Rightarrow> (Inr s, d'))"

definition loadOrCreatePeerID :: "os \<Rightarrow> error + bytes \<Rightarrow> string \<Rightarrow> disk \<Rightarrow> (error + string) \<times> disk" where
  "loadOrCreatePeerID os rand path d =
     (case os_ReadFile os path d of
        Inl _ \<Rightarrow> create_peer_id os rand path d
      | Inr b \<Rightarrow>
          let s = bytesTrim b
          in if length s = 64
             then (case KeyFromHex s of
                     Inr _ \<Rightarrow> (Inr s, d)
                   | Inl _ \<Rightarrow> create_peer_id os rand path d)
             else create_peer_id os rand path d)"

text \<open>\<open>redis\<close>: whether \<open>REDIS_URL\<close> is set and parses.\<close>

definition NewPeerHost ::
  "'s storage \<Rightarrow> os \<Rightarrow> ('c, 'e) runtime \<Rightarrow> bool \<Rightarrow> error + bytes \<Rightarrow> Config \<Rightarrow> disk \<Rightarrow> 'e \<Rightarrow>
   (error + ('s, 'c) PeerHost) \<times> disk \<times> 'e" where
  "NewPeerHost S os rt redis rand cfg d e =
     (if cfg_DataDir cfg = [] then (Inl ''data dir required'', d, e)
      else case os_MkdirAll os (cfg_DataDir cfg) of
        Some err \<Rightarrow> (Inl err, d, e)
      | None \<Rightarrow>
          (case loadOrCreatePeerID os rand (Join [cfg_DataDir cfg, ''peer.id'']) d of
             (Inl err, d1) \<Rightarrow> (Inl err, d1, e)
           | (Inr pid, d1) \<Rightarrow>
               (case NewStore S (cfg_DataDir cfg) d1 of
                  (Inl err, d2) \<Rightarrow> (Inl err, d2, e)
                | (Inr bs, d2) \<Rightarrow>
                    (case draw_Upsert rt
                            \<lparr>rec_ID = pid, rec_GrpcAddr = cfg_GrpcListenAddr cfg,
                             rec_HttpAddr = cfg_HTTPListenAddr cfg, rec_State = StateActive,
                             rec_LastSeen = rt_now rt e, rec_JoinedAt = 0\<rparr>
                            (NewRegistry redis pid) e of
                       (_, reg, e') \<Rightarrow>
                         (Inr \<lparr>h_SelfID = pid, h_GrpcAddr = cfg_GrpcListenAddr cfg,
                               h_HTTPAddr = cfg_HTTPListenAddr cfg, h_DataDir = cfg_DataDir cfg,
                               h_Bootstrap = cfg_BootstrapURL cfg,
                               h_ReplFactor = (if cfg_ReplicationFactor cfg < 1 then 3 else cfg_ReplicationFactor cfg),
                               h_store = bs, h_chunker = DefaultChunkSize S, h_reg = reg,
                               h_rtm = NewManager, h_providers = NewProviderRecords,
                               h_conns = NewPool, h_localCatalogCid = []\<rparr>, d2, e')))))"

definition SelfEndpoint :: "('s, 'c) PeerHost \<Rightarrow> PeerEndpoint" where
  "SelfEndpoint h = \<lparr>ep_PeerId = h_SelfID h, ep_GrpcAddr = h_GrpcAddr h, ep_HttpAddr = h_HTTPAddr h\<rparr>"

section \<open>Uploading a file\<close>

definition block_file :: "string \<Rightarrow> string \<Rightarrow> string" where
  "block_file dir c = Join [dir, c @ ''.block'']"

fun write_chunk_files :: "'s storage \<Rightarrow> os \<Rightarrow> 's \<Rightarrow> string \<Rightarrow> string list \<Rightarrow> disk \<Rightarrow> error option \<times> disk" where
  "write_chunk_files S os bs dir [] d = (None, d)"
| "write_chunk_files S os bs dir (ch # chs) d =
     (case store_Get S bs ch d of
        Inl err \<Rightarrow> (Some err, d)
      | Inr b \<Rightarrow>
          (case os_WriteFile os (block_file dir ch) b d of
             (Some err, d') \<Rightarrow> (Some err, d')
           | (None, d') \<Rightarrow> write_chunk_files S os bs dir chs d'))"

definition writeFileBundle ::
  "'s storage \<Rightarrow> os \<Rightarrow> 's \<Rightarrow> string \<Rightarrow> string list \<Rightarrow> bytes \<Rightarrow> disk \<Rightarrow> error option \<times> disk" where
  "writeFileBundle S os bs root chunks nodeBytes d =
     (let dir = Join [RootDir S bs, ''files'', root]
      in case os_MkdirAll os dir of
           Some err \<Rightarrow> (Some err, d)
         | None \<Rightarrow>
             (case os_WriteFile os (block_file dir root) nodeBytes d of
                (Some err, d') \<Rightarrow> (Some err, d')
              | (None, d') \<Rightarrow> write_chunk_files S os bs dir chunks d'))"

definition replica_addrs :: "Registry \<Rightarrow> string list \<Rightarrow> string list" where
  "replica_addrs r ids =
     List.map_filter (\<lambda>pid. case Get pid r of
        None \<Rightarrow> None
      | Some rec \<Rightarrow> if rec_GrpcAddr rec \<noteq> [] then Some (rec_GrpcAddr rec) else None) ids"

definition panic_error :: error where
  "panic_error = ''xor length mismatch''"

text \<open>The replication loop of \<open>AddFile\<close>: a failed selection or push is logged and skipped.\<close>

fun replicate_all ::
  "'s storage \<Rightarrow> ('c, 'e) runtime \<Rightarrow> ctx \<Rightarrow> string list \<Rightarrow> ('s, 'c, 'e) node \<Rightarrow>
   (error + unit) \<times> ('s, 'c, 'e) node" where
  "replicate_all S rt ctx [] s = (Inr (), s)"
| "replicate_all S rt ctx (c # cs) (h, d, e) =
     (case store_Get S (h_store h) c d of
        Inl err \<Rightarrow> (Inl err, (h, d, e))
      | Inr data \<Rightarrow>
          (case rt_range rt (dom (reg_peers (h_reg h))) e of
             (ks, e1) \<Rightarrow>
               (case SelectReplicaPeerIDs ks c (h_ReplFactor h) (h_SelfID h) (h_reg h) of
                  None \<Rightarrow> (Inl panic_error, (h, d, e1))
                | Some (Inl _) \<Rightarrow> replicate_all S rt ctx cs (h, d, e1)
                | Some (Inr ids) \<Rightarrow>
                    let addrs = replica_addrs (h_reg h) ids
                    in if addrs = [] then replicate_all S rt ctx cs (h, d, e1)
                       else case ReplicateToAddrs rt ctx addrs c data (h_conns h, e1) of
                              (_, (conns, e2)) \<Rightarrow>
                                replicate_all S rt ctx cs (h\<lparr>h_conns := conns\<rparr>, d, e2))))"

definition AddFile ::
  "'s storage \<Rightarrow> os \<Rightarrow> ('c, 'e) runtime \<Rightarrow> ctx \<Rightarrow> string \<Rightarrow> ('s, 'c, 'e) node \<Rightarrow>
   (error + string) \<times> ('s, 'c, 'e) node" where
  "AddFile S os rt ctx localPath s =
     (case s of (h, d, e) \<Rightarrow>
        (case PutFile S (h_chunker h) (h_store h) localPath d of
           (Inl err, d1) \<Rightarrow> (Inl err, (h, d1, e))
         | (Inr chunks, d1) \<Rightarrow>
             (case EncodeCanonicalJSON (FileNode_json (NewFileNode chunks)) of
                Inl err \<Rightarrow> (Inl err, (h, d1, e))
              | Inr nodeBytes \<Rightarrow>
                  let root = NewCID S nodeBytes
                  in case store_Put S (h_store h) nodeBytes d1 of
                       (Inl err, d2) \<Rightarrow> (Inl err, (h, d2, e))
                     | (Inr _, d2) \<Rightarrow>
                         let selfEp = SelfEndpoint h;
                             provs = foldl (\<lambda>p c. prov_Add c (Some selfEp) p)
                                       (prov_Add root (Some selfEp) (h_providers h)) chunks;
                             d3 = snd (writeFileBundle S os (h_store h) root chunks nodeBytes d2)
                         in case replicate_all S rt ctx (root # chunks) (h\<lparr>h_providers := provs\<rparr>, d3, e) of
                              (Inl err, s') \<Rightarrow> (Inl err, s')
                            | (Inr _, s') \<Rightarrow> (Inr root, s'))))"

section \<open>Downloading a file\<close>

text \<open>Look the providers of a block up and fetch it from them.\<close>

definition fetch_remote ::
  "'s storage \<Rightarrow> ('c, 'e) runtime \<Rightarrow> ctx \<Rightarrow> string \<Rightarrow> ('s, 'c, 'e) node \<Rightarrow>
   (error + bytes) \<times> ('s, 'c, 'e) node" where
  "fetch_remote S rt ctx cid s =
     (case s of (h, d, e) \<Rightarrow>
        (case draw_Snapshot rt (h_reg h) e of
           (peers, e1) \<Rightarrow>
             (case LookupProviders rt ctx (h_providers h) (h_GrpcAddr h) peers cid (h_conns h, e1) of
                (provs, n1) \<Rightarrow>
                  (case FetchBlock (VerifyCID S) rt ctx cid (map Some provs) n1 of
                     (r, (conns, e2)) \<Rightarrow> (r, (h\<lparr>h_conns := conns\<rparr>, d, e2))))))"

text \<open>Check a fetched block and keep it; a failed \<open>Put\<close> is only logged.\<close>

definition keep_block ::
  "'s storage \<Rightarrow> string \<Rightarrow> bytes \<Rightarrow> ('s, 'c, 'e) node \<Rightarrow> (error + bytes) \<times> ('s, 'c, 'e) node" where
  "keep_block S cid b s =
     (case s of (h, d, e) \<Rightarrow>
        (case VerifyCID S cid b of
           Some err \<Rightarrow> (Inl err, s)
         | None \<Rightarrow> (Inr b, (h, snd (store_Put S (h_store h) b d), e))))"

text \<open>
  The local store first, then the peers; \<open>wrap\<close> makes the error text from the error of the
  store and that of the fetch.
\<close>

definition load_block ::
  "'s storage \<Rightarrow> ('c, 'e) runtime \<Rightarrow> ctx \<Rightarrow> (error \<Rightarrow> error \<Rightarrow> error) \<Rightarrow> string \<Rightarrow> ('s, 'c, 'e) node \<Rightarrow>
   (error + bytes) \<times> ('s, 'c, 'e) node" where
  "load_block S rt ctx wrap cid s =
     (case s of (h, d, e) \<Rightarrow>
        (case store_Get S (h_store h) cid d of
           Inr b \<Rightarrow> (Inr b, s)
         | Inl err \<Rightarrow>
             (case fetch_remote S rt ctx cid s of
                (Inl err2, s') \<Rightarrow> (Inl (wrap err err2), s')
              | (Inr b, s') \<Rightarrow> keep_block S cid b s')))"

definition load_root ::
  "'s storage \<Rightarrow> ('c, 'e) runtime \<Rightarrow> ctx \<Rightarrow> string \<Rightarrow> ('s, 'c, 'e) node \<Rightarrow>
   (error + bytes) \<times> ('s, 'c, 'e) node" where
  "load_root S rt ctx root =
     load_block S rt ctx (\<lambda>err err2. ''root block: '' @ err @ '': '' @ err2) root"

definition load_chunk ::
  "'s storage \<Rightarrow> ('c, 'e) runtime \<Rightarrow> ctx \<Rightarrow> string \<Rightarrow> ('s, 'c, 'e) node \<Rightarrow>
   (error + bytes) \<times> ('s, 'c, 'e) node" where
  "load_chunk S rt ctx ch = load_block S rt ctx (\<lambda>_ err. ''chunk '' @ ch @ '': '' @ err) ch"

text \<open>The writer: what it got so far and the next piece decide whether a write fails.\<close>

type_synonym writer = "bytes \<Rightarrow> bytes \<Rightarrow> error option"

fun stream_chunks ::
  "'s storage \<Rightarrow> ('c, 'e) runtime \<Rightarrow> ctx \<Rightarrow> writer \<Rightarrow> string list \<Rightarrow> bytes \<Rightarrow> ('s, 'c, 'e) node \<Rightarrow>
   (error option \<times> bytes) \<times> ('s, 'c, 'e) node" where
  "stream_chunks S rt ctx w [] out s = ((None, out), s)"
| "stream_chunks S rt ctx w (ch # chs) out s =
     (case load_chunk S rt ctx ch s of
        (Inl err, s') \<Rightarrow> ((Some err, out), s')
      | (Inr data, s') \<Rightarrow>
          (case w out data of
             Some err \<Rightarrow> ((Some err, out), s')
           | None \<Rightarrow> stream_chunks S rt ctx w chs (out @ data) s'))"

text \<open>The result: the error, and what was written to the writer.\<close>

definition GetFile ::
  "'s storage \<Rightarrow> ('c, 'e) runtime \<Rightarrow> ctx \<Rightarrow> string \<Rightarrow> writer \<Rightarrow> ('s, 'c, 'e) node \<Rightarrow>
   (error option \<times> bytes) \<times> ('s, 'c, 'e) node" where
  "GetFile S rt ctx root w s =
     (case load_root S rt ctx root s of
        (Inl err, s') \<Rightarrow> ((Some err, []), s')
      | (Inr rootBytes, s') \<Rightarrow>
          (case Unmarshal_FileNode rootBytes of
             (_, Some err) \<Rightarrow> ((Some (''invalid file node: '' @ err), []), s')
           | (fn, None) \<Rightarrow> stream_chunks S rt ctx w (elems (fn_Chunks fn)) [] s'))"

section \<open>Inspecting a block\<close>

fun decimal :: "nat \<Rightarrow> string" where
  "decimal n = (if n < 10 then [char_of (48 + n)] else decimal (n div 10) @ [char_of (48 + n mod 10)])"

declare decimal.simps [simp del]

definition newline :: string where
  "newline = [CHR 0x0A]"

definition inspect_message :: "string \<Rightarrow> bytes \<Rightarrow> string" where
  "inspect_message c b =
     (case DetectType b of
        Inr t \<Rightarrow>
          if t = NodeTypeFile
          then ''CID: '' @ c @ newline @ ''Type: file'' @ newline @
               ''Chunks: '' @ decimal (length (elems (fn_Chunks (fst (Unmarshal_FileNode b))))) @ newline
          else ''CID: '' @ c @ newline @ ''Type: directory'' @ newline @
               ''Entries: '' @ decimal (length (elems (dn_Entries (fst (Unmarshal_DirectoryNode b))))) @ newline
      | Inl _ \<Rightarrow>
          ''CID: '' @ c @ newline @ ''Type: raw block'' @ newline @
          ''Size: '' @ decimal (length b) @ '' bytes'' @ newline)"

definition InspectCID ::
  "'s storage \<Rightarrow> ('c, 'e) runtime \<Rightarrow> string \<Rightarrow> ('s, 'c, 'e) node \<Rightarrow>
   (error + string) \<times> ('s, 'c, 'e) node" where
  "InspectCID S rt c s =
     (case s of (h, d, e) \<Rightarrow>
        (case store_Get S (h_store h) c d of
           Inr b \<Rightarrow> (Inr (inspect_message c b), s)
         | Inl _ \<Rightarrow>
             (case fetch_remote S rt None c s of
                (Inl err, s') \<Rightarrow> (Inl err, s')
              | (Inr b, s') \<Rightarrow> (Inr (inspect_message c b), s'))))"

section \<open>The heartbeat\<close>

text \<open>\<open>ctx\<close> is the context of the loop; each peer is pinged with a deadline of three seconds.\<close>

fun ping_peers ::
  "('c, 'e) runtime \<Rightarrow> ctx \<Rightarrow> Record list \<Rightarrow> ('s, 'c, 'e) node \<Rightarrow> ('s, 'c, 'e) node" where
  "ping_peers rt ctx [] s = s"
| "ping_peers rt ctx (rec # recs) (h, d, e) =
     (if rec_ID rec = h_SelfID h \<or> rec_State rec \<noteq> StateActive then ping_peers rt ctx recs (h, d, e)
      else if rec_GrpcAddr rec = [] then ping_peers rt ctx recs (h, d, e)
      else
        case with_client rt ctx (3 * second) (rec_GrpcAddr rec)
               (\<lambda>cctx cli e. rt_Ping rt cctx cli \<lparr>ping_PeerId = h_SelfID h\<rparr> e) (h_conns h, e) of
          (Inl _, (conns, e')) \<Rightarrow> ping_peers rt ctx recs (h\<lparr>h_conns := conns\<rparr>, d, e')
        | (Inr _, (conns, e')) \<Rightarrow>
            ping_peers rt ctx recs
              (h\<lparr>h_conns := conns, h_reg := Touch (rt_now rt e') (rec_ID rec) (h_reg h)\<rparr>, d, e'))"

definition heartbeat_tick :: "('c, 'e) runtime \<Rightarrow> ctx \<Rightarrow> ('s, 'c, 'e) node \<Rightarrow> ('s, 'c, 'e) node" where
  "heartbeat_tick rt ctx s =
     (case s of (h, d, e) \<Rightarrow>
        let r1 = Touch (rt_now rt e) (h_SelfID h) (h_reg h)
        in case rt_range rt (dom (reg_peers r1)) e of
             (ks, e1) \<Rightarrow>
               let r2 = Sweep ks (rt_now rt e) (h_rtm h) r1
               in case draw_Snapshot rt r2 e1 of
                    (recs, e2) \<Rightarrow> ping_peers rt ctx recs (h\<lparr>h_reg := r2\<rparr>, d, e2))"

definition host_Close :: "('c, 'e) runtime \<Rightarrow> ('s, 'c, 'e) node \<Rightarrow> error option \<times> ('s, 'c, 'e) node" where
  "host_Close rt s =
     (case s of (h, d, e) \<Rightarrow>
        (case pool_Close rt (h_conns h, e) of
           (err, (conns, e')) \<Rightarrow> (err, (h\<lparr>h_conns := conns\<rparr>, d, e'))))"

definition LocalCatalogCid :: "('s, 'c) PeerHost \<Rightarrow> string" where
  "LocalCatalogCid h = h_localCatalogCid h"

end
