(* ===== verification/FileTransfer.thy ===== *)
theory FileTransfer
  imports PeerHost
begin

text \<open>
  What uploads and downloads do (\<open>AddFile\<close> and \<open>GetFile\<close> of \<open>PeerHost\<close>), over any block
  store that keeps the promises \<open>storage_ok\<close> and any network: the peers may answer every call
  with anything. No property assumes that the hash is injective; where two blocks with one id
  would make a difference, the statement says so.
\<close>

section \<open>Loading a block\<close>

lemma SelectReplicaPeerIDs_total: "SelectReplicaPeerIDs ks c k self r \<noteq> None"
proof (cases "KeyFromHex c")
  case (Inr t)
  then have t: "is_key t" using KeyFromHex_length by (simp add: is_key_def keyBytes_def)
  have "\<forall>pid\<in>set (map rec_ID (filter (candidate self st) (Snapshot ks r))). is_key (key_or_nil pid)" for st
    using key_or_nil_valid by auto
  from xor_keys.sort_total [OF t this] Inr show ?thesis
    by (simp add: SelectReplicaPeerIDs_def ClosestPeerIDs_def Let_def)
qed (simp add: SelectReplicaPeerIDs_def)

text \<open>What the calls of a download leave alone: everything of the host but the pool.\<close>

definition same_host :: "('s, 'c) PeerHost \<Rightarrow> ('s, 'c) PeerHost \<Rightarrow> bool" where
  "same_host h h' \<longleftrightarrow> h' = h\<lparr>h_conns := h_conns h'\<rparr>"

lemma same_host_refl [simp]: "same_host h h"
  by (simp add: same_host_def)

lemma same_host_conns [simp]: "same_host h (h'\<lparr>h_conns := cs\<rparr>) \<longleftrightarrow> same_host h h'"
  by (cases h; cases h') (auto simp: same_host_def)

lemma same_host_trans: "same_host h h' \<Longrightarrow> same_host h' h'' \<Longrightarrow> same_host h h''"
  by (cases h; cases h'; cases h'') (auto simp: same_host_def)

lemma same_host_fields:
  assumes "same_host h h'"
  shows "h_store h' = h_store h" "h_reg h' = h_reg h" "h_providers h' = h_providers h"
    "h_SelfID h' = h_SelfID h" "h_GrpcAddr h' = h_GrpcAddr h" "h_HTTPAddr h' = h_HTTPAddr h"
    "h_localCatalogCid h' = h_localCatalogCid h" "h_chunker h' = h_chunker h"
  using assms by (cases h; cases h'; auto simp: same_host_def)+

lemma fetch_remote_effect:
  assumes "fetch_remote S rt ctx cid (h, d, e) = (r, (h', d', e'))"
  shows "same_host h h' \<and> d' = d \<and> (\<forall>b. r = Inr b \<longrightarrow> VerifyCID S cid b = None \<and> b \<noteq> [])"
  using assms by (auto simp: fetch_remote_def split: prod.splits dest: FetchBlock_verified)

lemma keep_block_effect:
  assumes "storage_ok S" "keep_block S cid b (h, d, e) = (r, (h', d', e'))"
  shows "h' = h \<and> (case r of
      Inl _ \<Rightarrow> d' = d
    | Inr x \<Rightarrow> x = b \<and> NewCID S b = cid \<and>
        (view S (h_store h) d' = view S (h_store h) d \<or>
         view S (h_store h) d' = (view S (h_store h) d)(cid \<mapsto> b)))"
proof (cases "VerifyCID S cid b")
  case None
  then have c: "cid = NewCID S b" using VerifyCID_iff [OF assms(1)] by simp
  obtain p d1 where p: "store_Put S (h_store h) b d = (p, d1)" by (rule prod.exhaust)
  have "view S (h_store h) d1 = view S (h_store h) d \<or>
      view S (h_store h) d1 = (view S (h_store h) d)(cid \<mapsto> b)"
  proof (cases p)
    case Inl
    with Put_fails [OF assms(1)] p show ?thesis by blast
  next
    case Inr
    with Put_ok [OF assms(1)] p c show ?thesis by blast
  qed
  with assms(2) None p c show ?thesis by (auto simp: keep_block_def)
qed (use assms(2) in \<open>auto simp: keep_block_def\<close>)

text \<open>
  Loading a block, from the store or from a peer: it has the id asked for, and the store
  holds at most one block more.
\<close>

definition loaded :: "'s storage \<Rightarrow> string \<Rightarrow> ('s, 'c, 'e) node \<Rightarrow> (error + bytes) \<Rightarrow> ('s, 'c, 'e) node \<Rightarrow> bool" where
  "loaded S cid s r s' \<longleftrightarrow>
     same_host (fst s) (fst s') \<and>
     (case r of
        Inl _ \<Rightarrow> view S (h_store (fst s)) (fst (snd s')) = view S (h_store (fst s)) (fst (snd s))
      | Inr b \<Rightarrow> NewCID S b = cid \<and>
          (view S (h_store (fst s)) (fst (snd s')) = view S (h_store (fst s)) (fst (snd s)) \<or>
           view S (h_store (fst s)) (fst (snd s')) = (view S (h_store (fst s)) (fst (snd s)))(cid \<mapsto> b)))"

lemma fetched_and_kept:
  assumes "storage_ok S" "fetch_remote S rt ctx cid (h, d, e) = (Inr b, s1)"
  shows "keep_block S cid b s1 = (r, s') \<Longrightarrow> loaded S cid (h, d, e) r s'"
  using fetch_remote_effect [of S rt ctx cid h d e "Inr b"] assms(2)
    keep_block_effect [OF assms(1), of cid b]
  by (cases s1; cases s'; cases r) (fastforce simp: loaded_def same_host_fields)+

lemma load_block_loaded:
  assumes "storage_ok S" "view_sound S (view S (h_store (fst s)) (fst (snd s)))"
    and "load_block S rt ctx wrap cid s = (r, s')"
  shows "loaded S cid s r s'"
proof (cases s)
  case (fields h d e)
  show ?thesis
  proof (cases "store_Get S (h_store h) cid d")
    case get: (Inr b)
    then have "view S (h_store h) d cid = Some b" by (simp add: store_Get_view)
    with assms(2) fields have "NewCID S b = cid" by (simp add: view_sound_def)
    moreover have "r = Inr b" "s' = s" using assms(3) fields get by (simp_all add: load_block_def)
    ultimately show ?thesis by (simp add: loaded_def)
  next
    case get: (Inl err)
    obtain r1 h1 d1 e1 where f: "fetch_remote S rt ctx cid (h, d, e) = (r1, (h1, d1, e1))"
      by (metis prod.exhaust)
    show ?thesis
    proof (cases r1)
      case Inl
      then show ?thesis using assms(3) fields get f fetch_remote_effect [OF f]
        by (auto simp: load_block_def loaded_def)
    next
      case (Inr b)
      then show ?thesis using assms(3) fields get f
          fetched_and_kept [OF assms(1), of rt ctx cid h d e b "(h1, d1, e1)" r s']
        by (simp add: load_block_def)
    qed
  qed
qed

section \<open>Downloads\<close>

lemma loaded_view_sound:
  "loaded S cid s r s' \<Longrightarrow> view_sound S (view S (h_store (fst s)) (fst (snd s))) \<Longrightarrow>
   view_sound S (view S (h_store (fst s')) (fst (snd s'))) \<and> same_host (fst s) (fst s')"
  by (auto simp: loaded_def same_host_fields view_sound_put split: sum.splits)

lemma stream_chunks_verified:
  assumes "storage_ok S" "view_sound S (view S (h_store (fst s)) (fst (snd s)))"
    and "stream_chunks S rt ctx w chs out s = ((err, out'), s')"
  shows "\<exists>bs. map (NewCID S) bs = take (length bs) chs \<and> out' = out @ concat bs \<and>
           (err = None \<longrightarrow> length bs = length chs) \<and> same_host (fst s) (fst s') \<and>
           view_sound S (view S (h_store (fst s')) (fst (snd s')))"
  using assms(2,3)
proof (induction chs arbitrary: out s)
  case Nil
  then show ?case by (intro exI [of _ "[]"]) simp
next
  case (Cons ch chs)
  obtain r s1 where l: "load_chunk S rt ctx ch s = (r, s1)" by (rule prod.exhaust)
  have ld: "loaded S ch s r s1"
    using load_block_loaded [OF assms(1) Cons.prems(1)] l by (simp add: load_chunk_def)
  note vs = loaded_view_sound [OF ld Cons.prems(1)]
  have stop: ?case if "((Some x, out), s1) = ((err, out'), s')" for x
    using that vs by (intro exI [of _ "[]"]) auto
  show ?case
  proof (cases r)
    case (Inl e)
    with Cons.prems(2) l show ?thesis by (intro stop [of e]) simp
  next
    case (Inr data)
    show ?thesis
    proof (cases "w out data")
      case (Some e)
      with Cons.prems(2) l Inr show ?thesis by (intro stop [of e]) simp
    next
      case None
      with Cons.prems(2) l Inr have "stream_chunks S rt ctx w chs (out @ data) s1 = ((err, out'), s')" by simp
      from Cons.IH [OF conjunct1 [OF vs] this] obtain bs where
        "map (NewCID S) bs = take (length bs) chs" "out' = (out @ data) @ concat bs"
        "err = None \<longrightarrow> length bs = length chs" "same_host (fst s1) (fst s')"
        "view_sound S (view S (h_store (fst s')) (fst (snd s')))" by blast
      moreover have "NewCID S data = ch" using ld Inr by (simp add: loaded_def)
      ultimately show ?thesis using vs
        by (intro exI [of _ "data # bs"]) (auto intro: same_host_trans)
    qed
  qed
qed

text \<open>
  \<open>delivered S root complete out\<close>: the bytes are the blocks of a file node whose block has the
  id \<open>root\<close>, each with the id the node lists, from the first on and, if complete, all of them.
\<close>

definition delivered :: "'s storage \<Rightarrow> string \<Rightarrow> bool \<Rightarrow> bytes \<Rightarrow> bool" where
  "delivered S root complete out \<longleftrightarrow>
     (\<exists>rb fn bs. NewCID S rb = root \<and> Unmarshal_FileNode rb = (fn, None) \<and>
        map (NewCID S) bs = take (length bs) (elems (fn_Chunks fn)) \<and> out = concat bs \<and>
        (complete \<longrightarrow> length bs = length (elems (fn_Chunks fn))))"

lemma GetFile_delivers:
  assumes "storage_ok S" "view_sound S (view S (h_store h) d)"
    and "GetFile S rt ctx root w (h, d, e) = ((err, out), (h', d', e'))"
  shows "(err = None \<or> out \<noteq> [] \<longrightarrow> delivered S root (err = None) out) \<and>
         same_host h h' \<and> view_sound S (view S (h_store h') d')"
proof -
  obtain r s1 where l: "load_root S rt ctx root (h, d, e) = (r, s1)" by (rule prod.exhaust)
  have ld: "loaded S root (h, d, e) r s1"
    using load_block_loaded [OF assms(1), of "(h, d, e)"] assms(2) l by (simp add: load_root_def)
  from loaded_view_sound [OF this] assms(2)
  have vs: "view_sound S (view S (h_store (fst s1)) (fst (snd s1)))" "same_host h (fst s1)" by simp_all
  show ?thesis
  proof (cases r)
    case (Inl e1)
    with assms(3) l vs show ?thesis by (auto simp: GetFile_def)
  next
    case (Inr rb)
    obtain fn uerr where u: "Unmarshal_FileNode rb = (fn, uerr)" by (rule prod.exhaust)
    show ?thesis
    proof (cases uerr)
      case (Some e1)
      with assms(3) l Inr u vs show ?thesis by (auto simp: GetFile_def)
    next
      case None
      with assms(3) l Inr u
      have "stream_chunks S rt ctx w (elems (fn_Chunks fn)) [] s1 = ((err, out), (h', d', e'))"
        by (simp add: GetFile_def)
      from stream_chunks_verified [OF assms(1) vs(1) this] obtain bs where
        bs: "map (NewCID S) bs = take (length bs) (elems (fn_Chunks fn))" "out = concat bs"
          "err = None \<longrightarrow> length bs = length (elems (fn_Chunks fn))" "same_host (fst s1) h'"
          "view_sound S (view S (h_store h') d')" by auto
      moreover have "NewCID S rb = root" using ld Inr by (simp add: loaded_def)
      ultimately have "delivered S root (err = None) out"
        using u None unfolding delivered_def by blast
      with bs vs same_host_trans [OF vs(2) bs(4)] show ?thesis by simp
    qed
  qed
qed

text \<open>
  C1. A download never delivers a byte that the content id does not vouch for. Whatever the
  peers answer, the bytes written are blocks with the ids listed, in order, by a file node
  with the id asked for; all of them when \<open>GetFile\<close> succeeds, and a prefix of them when it
  fails on the way. The store stays free of blocks under a wrong id, and the node's registry,
  provider records and identity are not touched.
\<close>

theorem GetFile_integrity:
  assumes "storage_ok S" "view_sound S (view S (h_store h) d)"
  shows "case GetFile S rt ctx root w (h, d, e) of
           ((err, out), (h', d', e')) \<Rightarrow>
             (delivered S root (err = None) out \<or> err \<noteq> None \<and> out = []) \<and>
             view_sound S (view S (h_store h') d') \<and> h_store h' = h_store h \<and>
             h_reg h' = h_reg h \<and> h_providers h' = h_providers h \<and> h_SelfID h' = h_SelfID h"
proof -
  obtain err out h' d' e' where g: "GetFile S rt ctx root w (h, d, e) = ((err, out), (h', d', e'))"
    by (metis prod.exhaust)
  from GetFile_delivers [OF assms g] show ?thesis
    unfolding g by (cases err) (auto simp: same_host_fields)
qed

text \<open>No other block has the id of this one.\<close>

definition unforgeable :: "'s storage \<Rightarrow> bytes \<Rightarrow> bool" where
  "unforgeable S b \<longleftrightarrow> (\<forall>x. NewCID S x = NewCID S b \<longrightarrow> x = b)"

lemma unforgeable_map:
  assumes "map (NewCID S) xs = map (NewCID S) ys" "\<forall>y\<in>set ys. unforgeable S y"
  shows "xs = ys"
  using assms by (induction xs ys rule: list_induct2') (auto simp: unforgeable_def)

lemma delivered_authentic:
  assumes "delivered S (NewCID S rb) complete out" "Unmarshal_FileNode rb = (NewFileNode (map (NewCID S) bs), None)"
    and "unforgeable S rb" "\<forall>b\<in>set bs. unforgeable S b"
  shows "\<exists>rest. concat bs = out @ rest \<and> (complete \<longrightarrow> rest = [])"
proof -
  from assms(1) obtain rb' fn xs where x: "NewCID S rb' = NewCID S rb" "Unmarshal_FileNode rb' = (fn, None)"
    "map (NewCID S) xs = take (length xs) (elems (fn_Chunks fn))" "out = concat xs"
    "complete \<longrightarrow> length xs = length (elems (fn_Chunks fn))"
    unfolding delivered_def by blast
  from x(1) assms(3) have "rb' = rb" by (simp add: unforgeable_def)
  with x(2) assms(2) have fn: "elems (fn_Chunks fn) = map (NewCID S) bs" by auto
  with x(3) have "map (NewCID S) xs = map (NewCID S) (take (length xs) bs)" by (simp add: take_map)
  moreover have "\<forall>b\<in>set (take (length xs) bs). unforgeable S b" using assms(4) by (meson in_set_takeD)
  ultimately have xs: "xs = take (length xs) bs" by (rule unforgeable_map)
  have "concat bs = concat (take (length xs) bs) @ concat (drop (length xs) bs)"
    by (metis append_take_drop_id concat_append)
  with xs x(4,5) fn show ?thesis by auto
qed

text \<open>
  C19. Downloads are authentic. If the root id is that of a file node over the blocks \<open>bs\<close>, and
  nobody can produce other blocks with the ids of these, then whatever the peers answer the
  bytes written are a prefix of the file's contents, and the whole of it when \<open>GetFile\<close>
  succeeds.
\<close>

theorem GetFile_authentic:
  assumes "storage_ok S" "view_sound S (view S (h_store h) d)"
    and "Unmarshal_FileNode rb = (NewFileNode (map (NewCID S) bs), None)"
    and "\<forall>b\<in>set (rb # bs). unforgeable S b"
    and "GetFile S rt ctx (NewCID S rb) w (h, d, e) = ((err, out), s')"
  shows "\<exists>rest. concat bs = out @ rest \<and> (err = None \<longrightarrow> rest = [])"
proof (cases "err = None \<or> out \<noteq> []")
  case True
  obtain h' d' e' where s': "s' = (h', d', e')" by (rule prod_cases3)
  from GetFile_delivers [OF assms(1,2) assms(5) [unfolded s']] True
  have "delivered S (NewCID S rb) (err = None) out" by simp
  from delivered_authentic [OF this assms(3)] assms(4) show ?thesis by simp
qed auto

section \<open>Uploads\<close>

text \<open>Writing a file whose name is not an id leaves the blocks alone.\<close>

lemma clean_elems_snoc:
  "e \<noteq> [] \<Longrightarrow> e \<noteq> ''.'' \<Longrightarrow> e \<noteq> ''..'' \<Longrightarrow> \<exists>es'. clean_elems r acc (es @ [e]) = es' @ [e]"
  by (induction r acc es rule: clean_elems.induct) auto

lemma split_path_noslash: "CHR ''/'' \<notin> set s \<Longrightarrow> split_path acc s = [acc @ s]"
  by (induction s arbitrary: acc) auto

lemma split_path_append: "CHR ''/'' \<notin> set e \<Longrightarrow> \<exists>es. split_path acc (p @ CHR ''/'' # e) = es @ [e]"
proof (induction p arbitrary: acc)
  case Nil
  then show ?case by (intro exI [of _ "[acc]"]) (simp add: split_path_noslash)
next
  case (Cons c p)
  from Cons.IH [OF Cons.prems] obtain es where "split_path [] (p @ CHR ''/'' # e) = es @ [e]" by blast
  moreover from Cons.IH [OF Cons.prems] obtain es'
    where "split_path (acc @ [c]) (p @ CHR ''/'' # e) = es' @ [e]" by blast
  ultimately show ?case
    by (intro exI [of _ "if c = CHR ''/'' then acc # es else es'"]) simp
qed

lemma join_slash_snoc: "es \<noteq> [] \<Longrightarrow> join_slash (es @ [e]) = join_slash es @ CHR ''/'' # e"
  by (induction es rule: join_slash.induct) auto

lemma base_name_Clean:
  assumes "CHR ''/'' \<notin> set e" "e \<noteq> []" "e \<noteq> ''.''" "e \<noteq> ''..''" "split_path [] p = es @ [e]"
  shows "base_name (Clean p) = e"
proof -
  let ?r = "p \<noteq> [] \<and> hd p = CHR ''/''"
  obtain es' where c: "clean_elems ?r [] (es @ [e]) = es' @ [e]" using clean_elems_snoc assms by blast
  have "List.last (split_path acc (join_slash (es' @ [e]))) = (if es' = [] then acc @ e else e)" for acc
    using assms(1) by (simp add: join_slash_snoc base_name_after_slash split_path_noslash)
  moreover have "join_slash (es' @ [e]) \<noteq> []"
    using assms(2) by (cases "es' = []") (simp_all add: join_slash_snoc)
  ultimately show ?thesis
    using c assms(2,5) by (simp add: Clean_def base_name_def Let_def split: if_splits) auto
qed

lemma base_name_Join:
  assumes "CHR ''/'' \<notin> set e" "e \<noteq> []" "e \<noteq> ''.''" "e \<noteq> ''..''"
  shows "base_name (Join [dir, e]) = e"
proof (cases "dir = []")
  case True
  have "split_path [] e = [] @ [e]" using assms(1) by (simp add: split_path_noslash)
  from base_name_Clean [OF assms this] True assms(2) show ?thesis by (simp add: Join_def)
next
  case False
  obtain es where "split_path [] (dir @ CHR ''/'' # e) = es @ [e]" using split_path_append assms(1) by blast
  from base_name_Clean [OF assms this] False assms(2) show ?thesis by (simp add: Join_def)
qed

lemma block_file_no_block:
  assumes "KeyFromHex c = Inr k"
  shows "\<not> block_path (block_file dir c)"
proof -
  have "base_name (block_file dir c) = c @ ''.block''"
    using key_no_slash [OF assms] unfolding block_file_def by (intro base_name_Join) auto
  moreover have "KeyFromHex (c @ ''.block'') \<noteq> Inr k'" for k'
    using KeyFromHex_digits [of "c @ ''.block''" k' "CHR ''.''"] by (auto simp: hex_digit_def)
  ultimately show ?thesis by (simp add: block_path_def)
qed

lemma os_WriteFile_view:
  assumes "storage_ok S" "\<not> block_path path"
  shows "view S s (snd (os_WriteFile os path b d)) = view S s d"
  using view_frame [OF assms] by (simp add: os_WriteFile_def split: option.split)

lemma write_chunk_files_view:
  assumes "storage_ok S"
  shows "\<forall>c\<in>set chs. \<exists>k. KeyFromHex c = Inr k \<Longrightarrow>
    view S s (snd (write_chunk_files S os bs dir chs d)) = view S s d"
proof (induction chs arbitrary: d)
  case (Cons c chs)
  then have "view S s (snd (os_WriteFile os (block_file dir c) b d)) = view S s d" for b d
    using block_file_no_block by (intro os_WriteFile_view [OF assms]) auto
  with Cons show ?case by (auto split: sum.split prod.split option.split) (metis snd_conv)+
qed simp

lemma writeFileBundle_view:
  assumes "storage_ok S" "\<forall>c\<in>set (root # chunks). \<exists>k. KeyFromHex c = Inr k"
  shows "view S s (snd (writeFileBundle S os bs root chunks b d)) = view S s d"
proof -
  have "view S s (snd (os_WriteFile os (block_file dir root) b d)) = view S s d" for dir
    using block_file_no_block assms(2) by (intro os_WriteFile_view [OF assms(1)]) auto
  then show ?thesis
    using write_chunk_files_view [OF assms(1)] assms(2)
    by (auto simp: writeFileBundle_def Let_def split: prod.split option.split) (metis snd_conv)+
qed

text \<open>Replication changes nothing on the node, and fails only for want of a local block.\<close>

lemma replicate_all_effect:
  assumes "replicate_all S rt ctx cs (h, d, e) = (r, (h', d', e'))"
  shows "same_host h h' \<and> d' = d \<and> ((\<forall>c\<in>set cs. view S (h_store h) d c \<noteq> None) \<longrightarrow> r = Inr ())"
  using assms
proof (induction cs arbitrary: h e)
  case (Cons c cs)
  show ?case
  proof (cases "store_Get S (h_store h) c d")
    case (Inl err)
    with Cons.prems show ?thesis by (auto simp: view_def)
  next
    case (Inr data)
    obtain ks e1 where ks: "rt_range rt (dom (reg_peers (h_reg h))) e = (ks, e1)" by (rule prod.exhaust)
    obtain sel where sel: "SelectReplicaPeerIDs ks c (h_ReplFactor h) (h_SelfID h) (h_reg h) = Some sel"
      using SelectReplicaPeerIDs_total by blast
    obtain h1 e2 where h1: "same_host h h1" "replicate_all S rt ctx cs (h1, d, e2) = (r, (h', d', e'))"
    proof (cases "\<exists>ids. sel = Inr ids \<and> replica_addrs (h_reg h) ids \<noteq> []")
      case True
      then obtain ids where ids: "sel = Inr ids" "replica_addrs (h_reg h) ids \<noteq> []" by blast
      obtain err conns e2 where
        "ReplicateToAddrs rt ctx (replica_addrs (h_reg h) ids) c data (h_conns h, e1) = (err, (conns, e2))"
        by (metis prod.exhaust)
      with Cons.prems Inr ks sel ids
      have "replicate_all S rt ctx cs (h\<lparr>h_conns := conns\<rparr>, d, e2) = (r, (h', d', e'))"
        by (simp add: Let_def)
      then show thesis by (rule that [rotated]) simp
    next
      case False
      with Cons.prems Inr ks sel have "replicate_all S rt ctx cs (h, d, e1) = (r, (h', d', e'))"
        by (cases sel) (simp_all add: Let_def)
      then show thesis by (rule that [rotated]) simp
    qed
    from Cons.IH [OF h1(2)] same_host_trans [OF h1(1)] show ?thesis
      by (simp add: same_host_fields [OF h1(1)])
  qed
qed simp

lemma announced:
  assumes "ep_PeerId ep \<noteq> ''''"
  shows "prov_abs (foldl (\<lambda>p c. prov_Add c (Some ep) p) p cs) =
    {t \<in> prov_abs p. fst t \<notin> set cs \<or> fst (snd t) \<noteq> ep_PeerId ep} \<union> {(c, ep_PeerId ep, ep) | c. c \<in> set cs}"
proof (induction cs arbitrary: p)
  case (Cons c cs)
  show ?case by (auto simp: Cons.IH prov_abs_Add [OF assms])
qed simp

text \<open>What a successful upload did, in terms of the blocks stored.\<close>

lemma CID_ascii: "KeyFromHex c = Inr k \<Longrightarrow> ascii c"
proof -
  assume k: "KeyFromHex c = Inr k"
  have "(of_char x :: nat) < 128" if "hex_digit x \<noteq> None" for x
    using that by (auto simp: hex_digit_def Let_def split: if_splits)
  with KeyFromHex_digits [OF k] show ?thesis by (auto simp: ascii_def)
qed

definition file_node_block :: "'s storage \<Rightarrow> bytes list \<Rightarrow> bytes" where
  "file_node_block S bs =
     bytes_of_string (print_json (file_block (NewFileNode (map (NewCID S) bs))))"

lemma file_node_encoded:
  assumes "storage_ok S"
  shows "EncodeCanonicalJSON (FileNode_json (NewFileNode (map (NewCID S) bs))) = Inr (file_node_block S bs)"
    and "Unmarshal_FileNode (file_node_block S bs) = (NewFileNode (map (NewCID S) bs), None)"
proof -
  let ?fn = "NewFileNode (map (NewCID S) bs)"
  have "\<exists>k. KeyFromHex (NewCID S b) = Inr k" for b using NewCID_key [OF assms] .
  then have "ascii (NewCID S b)" for b using CID_ascii by blast
  then have a: "ascii (fn_Type ?fn)" "\<forall>c\<in>set (elems (fn_Chunks ?fn)). ascii c" by simp_all
  show "EncodeCanonicalJSON (FileNode_json ?fn) = Inr (file_node_block S bs)"
    using EncodeCanonicalJSON_file [OF a] by (simp add: file_node_block_def)
  show "Unmarshal_FileNode (file_node_block S bs) = (?fn, None)"
    using FileNode_plain(3,4) [OF a]
    by (simp add: file_node_block_def Unmarshal_FileNode_def unmarshal_def parse_print decode_file_block)
qed

definition stored_file :: "'s storage \<Rightarrow> ('s, 'c) PeerHost \<Rightarrow> disk \<Rightarrow> disk \<Rightarrow> bytes list \<Rightarrow> bool" where
  "stored_file S h d d' bs \<longleftrightarrow>
     view S (h_store h) d' = put_blocks S (bs @ [file_node_block S bs]) (view S (h_store h) d)"

text \<open>The upload after the file is cut and its node is stored.\<close>

lemma AddFile_run:
  assumes "storage_ok S" "PutFile S (h_chunker h) (h_store h) path d = (Inr (map (NewCID S) bs), d1)"
    and "view S (h_store h) d1 = put_blocks S bs (view S (h_store h) d)"
    and "store_Put S (h_store h) (file_node_block S bs) d1 = (Inr c, d2)"
  obtains h' d' e' where "AddFile S os rt ctx path (h, d, e) = (Inr (NewCID S (file_node_block S bs)), (h', d', e'))"
    "stored_file S h d d' bs"
    "same_host (h\<lparr>h_providers := foldl (\<lambda>p c. prov_Add c (Some (SelfEndpoint h)) p)
       (prov_Add (NewCID S (file_node_block S bs)) (Some (SelfEndpoint h)) (h_providers h))
       (map (NewCID S) bs)\<rparr>) h'"
proof -
  let ?nb = "file_node_block S bs"
  let ?cs = "map (NewCID S) bs"
  let ?p = "foldl (\<lambda>p c. prov_Add c (Some (SelfEndpoint h)) p)
       (prov_Add (NewCID S ?nb) (Some (SelfEndpoint h)) (h_providers h)) ?cs"
  let ?d3 = "snd (writeFileBundle S os (h_store h) (NewCID S ?nb) ?cs ?nb d2)"
  have v2: "view S (h_store h) d2 = put_blocks S (bs @ [?nb]) (view S (h_store h) d)"
    using Put_ok [OF assms(1,4)] assms(3) by (simp add: put_blocks_def)
  have v3: "view S (h_store h) ?d3 = view S (h_store h) d2"
    using NewCID_key [OF assms(1)] by (intro writeFileBundle_view [OF assms(1)]) auto
  obtain r h' d' e' where
    r: "replicate_all S rt ctx (NewCID S ?nb # ?cs) (h\<lparr>h_providers := ?p\<rparr>, ?d3, e) = (r, (h', d', e'))"
    by (metis prod.exhaust)
  have "\<forall>c\<in>set (NewCID S ?nb # ?cs). view S (h_store h) ?d3 c \<noteq> None"
  proof
    fix c assume "c \<in> set (NewCID S ?nb # ?cs)"
    then have "c \<in> NewCID S ` set (bs @ [?nb])" by auto
    from put_blocks_dom [OF this] show "view S (h_store h) ?d3 c \<noteq> None" unfolding v2 v3 by auto
  qed
  with replicate_all_effect [OF r] have "r = Inr ()" "same_host (h\<lparr>h_providers := ?p\<rparr>) h'" "d' = ?d3" by simp_all
  moreover from this(1) r
  have "AddFile S os rt ctx path (h, d, e) = (Inr (NewCID S ?nb), (h', d', e'))"
    unfolding AddFile_def prod.case assms(2,4) sum.case file_node_encoded(1) [OF assms(1)] Let_def by simp
  moreover have "stored_file S h d ?d3 bs" using v2 v3 by (simp only: stored_file_def)
  ultimately show thesis by (intro that) simp_all
qed

text \<open>The steps of an upload that succeeds.\<close>

definition announce_all :: "'s storage \<Rightarrow> ('s, 'c) PeerHost \<Rightarrow> bytes list \<Rightarrow> ProviderRecords" where
  "announce_all S h bs =
     foldl (\<lambda>p c. prov_Add c (Some (SelfEndpoint h)) p)
       (prov_Add (NewCID S (file_node_block S bs)) (Some (SelfEndpoint h)) (h_providers h)) (map (NewCID S) bs)"

lemma AddFile_steps:
  assumes "storage_ok S" "AddFile S os rt ctx path (h, d, e) = (Inr root, (h', d', e'))"
  obtains bs d1 c d2 where "d path = Some (concat bs)" "\<forall>b\<in>set bs. length b \<le> h_chunker h"
    "root = NewCID S (file_node_block S bs)"
    "PutFile S (h_chunker h) (h_store h) path d = (Inr (map (NewCID S) bs), d1)"
    "store_Put S (h_store h) (file_node_block S bs) d1 = (Inr c, d2)"
    "d' = snd (writeFileBundle S os (h_store h) root (map (NewCID S) bs) (file_node_block S bs) d2)"
    "stored_file S h d d' bs"
    "replicate_all S rt ctx (map (NewCID S) (file_node_block S bs # bs)) (h\<lparr>h_providers := announce_all S h bs\<rparr>, d', e) =
       (Inr (), (h', d', e'))"
proof -
  obtain x d1 where p: "PutFile S (h_chunker h) (h_store h) path d = (x, d1)" by (rule prod.exhaust)
  with assms(2) obtain chunks where x: "x = Inr chunks" by (cases x) (auto simp: AddFile_def)
  obtain bs where bs: "d path = Some (concat bs)" "\<forall>b\<in>set bs. length b \<le> h_chunker h"
    "chunks = map (NewCID S) bs" "view S (h_store h) d1 = put_blocks S bs (view S (h_store h) d)"
    by (rule PutFile_ok [OF assms(1) p [unfolded x]])
  let ?nb = "file_node_block S bs"
  obtain y d2 where put: "store_Put S (h_store h) ?nb d1 = (y, d2)" by (rule prod.exhaust)
  let ?d3 = "snd (writeFileBundle S os (h_store h) (NewCID S ?nb) (map (NewCID S) bs) ?nb d2)"
  obtain z h1 d3 e1 where ra: "replicate_all S rt ctx (NewCID S ?nb # map (NewCID S) bs)
      (h\<lparr>h_providers := announce_all S h bs\<rparr>, ?d3, e) = (z, (h1, d3, e1))" by (metis prod.exhaust)
  have a: "AddFile S os rt ctx path (h, d, e) =
      (case y of Inl err \<Rightarrow> (Inl err, (h, d2, e))
       | Inr _ \<Rightarrow> (case z of Inl err \<Rightarrow> (Inl err, (h1, d3, e1)) | Inr _ \<Rightarrow> (Inr (NewCID S ?nb), (h1, d3, e1))))"
    unfolding AddFile_def prod.case p x sum.case bs(3) file_node_encoded(1) [OF assms(1)] Let_def put
      ra [unfolded announce_all_def] ..
  with assms(2) have r: "\<exists>c. y = Inr c" "z = Inr ()" "root = NewCID S ?nb" "h1 = h'" "d3 = d'" "e1 = e'" by (auto split: sum.splits)
  have d': "d' = ?d3" using replicate_all_effect [OF ra] r(5) by simp
  from r(1) put bs(4) have v2: "view S (h_store h) d2 = put_blocks S (bs @ [?nb]) (view S (h_store h) d)"
    using Put_ok [OF assms(1)] by (auto simp: put_blocks_def)
  moreover have "view S (h_store h) ?d3 = view S (h_store h) d2"
    using NewCID_key [OF assms(1)] by (intro writeFileBundle_view [OF assms(1)]) auto
  ultimately have "stored_file S h d d' bs" using d' by (simp add: stored_file_def)
  moreover obtain c where "y = Inr c" using r(1) by blast
  ultimately show thesis using that [of bs d1 c d2] p x bs put d' r(2-6) ra by simp
qed

lemma AddFile_cases:
  assumes "storage_ok S" "AddFile S os rt ctx path (h, d, e) = (Inr root, (h', d', e'))"
  obtains bs where "d path = Some (concat bs)" "\<forall>b\<in>set bs. length b \<le> h_chunker h"
    "root = NewCID S (file_node_block S bs)" "stored_file S h d d' bs"
    "same_host (h\<lparr>h_providers := foldl (\<lambda>p c. prov_Add c (Some (SelfEndpoint h)) p)
       (prov_Add root (Some (SelfEndpoint h)) (h_providers h)) (map (NewCID S) bs)\<rparr>) h'"
proof (rule AddFile_steps [OF assms])
  fix bs d1 c d2
  assume 1: "d path = Some (concat bs)" "\<forall>b\<in>set bs. length b \<le> h_chunker h" "root = NewCID S (file_node_block S bs)"
    "stored_file S h d d' bs"
    and ra: "replicate_all S rt ctx (map (NewCID S) (file_node_block S bs # bs))
      (h\<lparr>h_providers := announce_all S h bs\<rparr>, d', e) = (Inr (), (h', d', e'))"
  from replicate_all_effect [OF ra] 1(3) show thesis
    by (intro that [OF 1]) (simp add: announce_all_def)
qed

text \<open>
  An upload stores the file. When \<open>AddFile\<close> succeeds, the file was cut into blocks of at
  most the chunk size that concatenate to its contents, the returned id is that of the
  canonical node over their ids, the store has gained exactly these blocks and the node, and
  the node announces itself as a provider of each of them, on top of what was announced.
\<close>

theorem AddFile_stores:
  assumes "storage_ok S" "h_SelfID h \<noteq> ''''"
    and "AddFile S os rt ctx path (h, d, e) = (Inr root, (h', d', e'))"
  shows "\<exists>bs. d path = Some (concat bs) \<and> (\<forall>b\<in>set bs. length b \<le> h_chunker h) \<and>
           root = NewCID S (file_node_block S bs) \<and> stored_file S h d d' bs \<and>
           prov_abs (h_providers h') =
             {t \<in> prov_abs (h_providers h). fst t \<notin> set (root # map (NewCID S) bs) \<or> fst (snd t) \<noteq> h_SelfID h} \<union>
             {(c, h_SelfID h, SelfEndpoint h) | c. c \<in> set (root # map (NewCID S) bs)} \<and>
           h_reg h' = h_reg h \<and> h_store h' = h_store h"
proof -
  obtain bs where bs: "d path = Some (concat bs)" "\<forall>b\<in>set bs. length b \<le> h_chunker h"
    "root = NewCID S (file_node_block S bs)" "stored_file S h d d' bs"
    and same: "same_host (h\<lparr>h_providers := foldl (\<lambda>p c. prov_Add c (Some (SelfEndpoint h)) p)
       (prov_Add root (Some (SelfEndpoint h)) (h_providers h)) (map (NewCID S) bs)\<rparr>) h'"
    using assms(1,3) by (rule AddFile_cases)
  have id: "ep_PeerId (SelfEndpoint h) = h_SelfID h" by (simp add: SelfEndpoint_def)
  have "prov_abs (h_providers h') =
      prov_abs (foldl (\<lambda>p c. prov_Add c (Some (SelfEndpoint h)) p) (h_providers h) (root # map (NewCID S) bs))"
    using same_host_fields(3) [OF same] by simp
  also have "\<dots> = {t \<in> prov_abs (h_providers h). fst t \<notin> set (root # map (NewCID S) bs) \<or> fst (snd t) \<noteq> h_SelfID h} \<union>
             {(c, h_SelfID h, SelfEndpoint h) | c. c \<in> set (root # map (NewCID S) bs)}"
    using announced [of "SelfEndpoint h" "h_providers h" "root # map (NewCID S) bs"] assms(2)
    by (simp only: id) simp
  finally show ?thesis using bs same_host_fields(1,2) [OF same] by (intro exI [of _ bs]) simp
qed

lemma AddFile_succeeds:
  assumes "storage_ok S" "PutFile S (h_chunker h) (h_store h) path d = (Inr chunks, dk)"
    and "\<forall>b. \<exists>c d2. store_Put S (h_store h) b dk = (Inr c, d2)"
  shows "\<exists>root s'. AddFile S os rt ctx path (h, d, e) = (Inr root, s')"
proof -
  obtain bs where bs: "chunks = map (NewCID S) bs"
    "view S (h_store h) dk = put_blocks S bs (view S (h_store h) d)"
    by (rule PutFile_ok [OF assms(1,2)])
  from assms(3) obtain c d2 where "store_Put S (h_store h) (file_node_block S bs) dk = (Inr c, d2)" by blast
  from AddFile_run [OF assms(1,2) [unfolded bs(1)] bs(2) this] show ?thesis by metis
qed

text \<open>
  Uploading does not depend on the peers. Once the file is cut and the disk takes the node's
  block, \<open>AddFile\<close> succeeds, whatever replication targets there are and however they answer.
\<close>

theorem AddFile_total:
  assumes "storage_ok S" "PutFile S (h_chunker h) (h_store h) path d = (Inr chunks, dk)"
    and "\<forall>b. \<exists>c d2. store_Put S (h_store h) b dk = (Inr c, d2)"
  shows "\<exists>root s'. AddFile S os rt ctx path (h, d, e) = (Inr root, s')"
  using assms by (rule AddFile_succeeds)

section \<open>Up and down again\<close>

lemma stream_local:
  assumes "\<And>b. b \<in> set bs \<Longrightarrow> view S (h_store h) d (NewCID S b) = Some b"
  shows "stream_chunks S rt ctx (\<lambda>_ _. None) (map (NewCID S) bs) out (h, d, e) =
           ((None, out @ concat bs), (h, d, e))"
  using assms
proof (induction bs arbitrary: out)
  case (Cons b bs)
  then have "store_Get S (h_store h) (NewCID S b) d = Inr b" by (simp add: store_Get_view)
  with Cons show ?case by (simp add: load_chunk_def load_block_def)
qed simp

text \<open>A file in the local store: its node and all its blocks, each under its own id.\<close>

definition holds_file :: "'s storage \<Rightarrow> 's \<Rightarrow> disk \<Rightarrow> string \<Rightarrow> bytes list \<Rightarrow> bool" where
  "holds_file S st d root bs \<longleftrightarrow>
     root = NewCID S (file_node_block S bs) \<and>
     (\<forall>b\<in>set (file_node_block S bs # bs). view S st d (NewCID S b) = Some b)"

lemma GetFile_local:
  assumes "storage_ok S" "holds_file S (h_store h) d root bs"
  shows "GetFile S rt ctx root (\<lambda>_ _. None) (h, d, e) = ((None, concat bs), (h, d, e))"
proof -
  have v: "view S (h_store h) d (NewCID S b) = Some b" if "b \<in> set (file_node_block S bs # bs)" for b
    using assms(2) that unfolding holds_file_def by blast
  then have "store_Get S (h_store h) root d = Inr (file_node_block S bs)"
    using assms(2) by (simp add: store_Get_view holds_file_def)
  moreover have "stream_chunks S rt ctx (\<lambda>_ _. None) (map (NewCID S) bs) [] (h, d, e) =
      (((None, concat bs), (h, d, e)))"
    using stream_local [of bs S h d rt ctx "[]" e] v by simp
  ultimately show ?thesis
    by (simp add: GetFile_def load_root_def load_block_def file_node_encoded(2) [OF assms(1)])
qed

lemma AddFile_holds:
  assumes "storage_ok S" "AddFile S os rt ctx path (h, d, e) = (Inr root, (h', d', e'))"
  obtains bs where "d path = Some (concat bs)" "root = NewCID S (file_node_block S bs)"
    "inj_on (NewCID S) (set (file_node_block S bs # bs)) \<Longrightarrow> holds_file S (h_store h) d' root bs"
    "same_host (h\<lparr>h_providers := h_providers h'\<rparr>) h'"
proof -
  obtain bs where bs: "d path = Some (concat bs)" "root = NewCID S (file_node_block S bs)"
    and st: "stored_file S h d d' bs"
    and same: "same_host (h\<lparr>h_providers := foldl (\<lambda>p c. prov_Add c (Some (SelfEndpoint h)) p)
       (prov_Add root (Some (SelfEndpoint h)) (h_providers h)) (map (NewCID S) bs)\<rparr>) h'"
    using assms by (rule AddFile_cases)
  have "holds_file S (h_store h) d' root bs" if inj: "inj_on (NewCID S) (set (file_node_block S bs # bs))"
  proof -
    have "inj_on (NewCID S) (set (bs @ [file_node_block S bs]))" using inj by simp
    then have "view S (h_store h) d' (NewCID S b) = Some b" if "b \<in> set (bs @ [file_node_block S bs])" for b
      using put_blocks_get that st unfolding stored_file_def by metis
    with bs(2) show ?thesis by (simp add: holds_file_def)
  qed
  moreover have "same_host (h\<lparr>h_providers := h_providers h'\<rparr>) h'"
    using same same_host_fields(3) [OF same] by (simp add: same_host_def)
  ultimately show thesis using bs by (intro that)
qed

text \<open>
  C2. What goes up comes down. If no two of the blocks of an uploaded file share an id, then on
  the node that took the upload \<open>GetFile\<close> returns exactly the contents of the file, without
  asking any peer and without changing the node.
\<close>

theorem AddFile_GetFile:
  assumes "storage_ok S" "AddFile S os rt ctx path (h, d, e) = (Inr root, (h', d', e'))"
  shows "\<exists>bs. d path = Some (concat bs) \<and> root = NewCID S (file_node_block S bs) \<and>
           (inj_on (NewCID S) (set (file_node_block S bs # bs)) \<longrightarrow>
            GetFile S rt' ctx' root (\<lambda>_ _. None) (h', d', e'') = ((None, concat bs), (h', d', e'')))"
proof -
  obtain bs where bs: "d path = Some (concat bs)" "root = NewCID S (file_node_block S bs)"
    "inj_on (NewCID S) (set (file_node_block S bs # bs)) \<Longrightarrow> holds_file S (h_store h) d' root bs"
    and same: "same_host (h\<lparr>h_providers := h_providers h'\<rparr>) h'"
    using AddFile_holds [OF assms] by metis
  have "h_store h' = h_store h" using same_host_fields(1) [OF same] by simp
  with bs GetFile_local [OF assms(1), of h' d' root bs rt' ctx' e''] show ?thesis by auto
qed

section \<open>A concrete node\<close>

text \<open>A node with a store in \<open>s\<close>, one file on its disk, and peers that answer nonsense.\<close>

definition ex_host :: "(string, string) PeerHost" where
  "ex_host =
     \<lparr>h_SelfID = ex_idA, h_GrpcAddr = ''me:1'', h_HTTPAddr = ''me:2'', h_DataDir = ''s'',
      h_Bootstrap = [], h_ReplFactor = 3, h_store = ''s'', h_chunker = 4, h_reg = ex_near,
      h_rtm = NewManager, h_providers = NewProviderRecords, h_conns = NewPool,
      h_localCatalogCid = []\<rparr>"

definition ex_disk :: disk where
  "ex_disk = [''f'' \<mapsto> ex_chunk]"

lemma ex_host_fields [simp]:
  "h_SelfID ex_host = ex_idA" "h_store ex_host = ''s''" "h_chunker ex_host = 4"
  "h_reg ex_host = ex_near" "h_providers ex_host = NewProviderRecords" "h_GrpcAddr ex_host = ''me:1''"
  "h_conns ex_host = NewPool" "h_ReplFactor ex_host = 3"
  by (simp_all add: ex_host_def)

lemma ex_storage_fields [simp]:
  "NewCID ex_storage = ex_cid" "store_Put ex_storage dir b d = (Inr (ex_cid b), ex_put dir b d)"
  by (simp_all add: ex_storage_def)

lemma ex_chunks: "cut (length ex_chunk) 4 ex_chunk = [ex_chunk]"
  by (simp add: ex_chunk_def numeral_3_eq_3)

lemma ex_PutFile:
  "PutFile ex_storage 4 ''s'' ''f'' ex_disk = (Inr [ex_cid ex_chunk], ex_put ''s'' ex_chunk ex_disk)"
  using ex_chunks by (simp add: ex_storage_def ex_disk_def Let_def)

lemma escape_CID: "KeyFromHex c = Inr k \<Longrightarrow> escape_string c = c"
proof -
  assume k: "KeyFromHex c = Inr k"
  have "escape_char x = [x]" if "hex_digit x \<noteq> None" for x
  proof -
    have "32 \<le> (of_char x :: nat) \<and> (of_char x :: nat) < 128"
      using that by (simp add: hex_digit_def Let_def split: if_splits)
    moreover have "x \<notin> {CHR 0x22, CHR 0x5C, CHR ''<'', CHR ''>'', CHR ''&''}"
      using that by (auto simp: hex_digit_def)
    ultimately have "html_safe x" by (simp add: html_safe_def)
    then show ?thesis by (simp add: escape_char_def)
  qed
  then have "concat (map escape_char c) = c"
    using KeyFromHex_digits [OF k] by (induction c) auto
  then show ?thesis using CID_ascii [OF k] by simp
qed

lemma ex_root_block: "file_node_block ex_storage [ex_chunk] = ex_root"
proof -
  have "length ex_chunk \<noteq> length ex_root" using length_ex_root by (simp add: ex_chunk_def)
  then have c: "ex_cid ex_chunk = hexEncode (ex_hash ex_chunk)" by (auto simp: ex_cid_def)
  have "escape_string (ex_cid ex_chunk) = ex_cid ex_chunk" using ex_cid_key by (rule escape_CID)
  then show ?thesis
    by (simp add: file_node_block_def file_block_def NewFileNode_def slice_json_copy print_field_def
        print_string_def escape_char_def html_safe_def ex_root_def c del: hexEncode_simps)
qed

lemma ex_AddFile_host:
  assumes "d path = Some ex_chunk" "h_store h = ''s''" "h_chunker h = 4"
  obtains h' d' e' where "AddFile ex_storage ex_os rt ctx path (h, d, e) = (Inr (ex_cid ex_root), (h', d', e'))"
proof -
  have p: "PutFile ex_storage (h_chunker h) (h_store h) path d =
      (Inr (map (NewCID ex_storage) [ex_chunk]), ex_put ''s'' ex_chunk d)"
    using assms ex_chunks by (simp add: ex_storage_def Let_def)
  have v: "view ex_storage (h_store h) (ex_put ''s'' ex_chunk d) =
      put_blocks ex_storage [ex_chunk] (view ex_storage (h_store h) d)"
    by (simp add: ex_view_put assms(2))
  have b: "store_Put ex_storage (h_store h) (file_node_block ex_storage [ex_chunk])
      (ex_put ''s'' ex_chunk d) = (Inr (ex_cid ex_root), ex_put ''s'' ex_root (ex_put ''s'' ex_chunk d))"
    by (simp add: ex_root_block assms(2))
  show thesis
    by (rule AddFile_run [OF ex_storage_ok p v b]) (rule that, simp only: ex_root_block ex_storage_fields)
qed

lemmas ex_AddFile_at = ex_AddFile_host [where h = ex_host, OF _ ex_host_fields(2,3)]

lemma ex_disk_file: "ex_disk ''f'' = Some ex_chunk"
  by (simp add: ex_disk_def)

lemmas ex_AddFile = ex_AddFile_at [where d = ex_disk and path = "''f''" and rt = "ex_rt [] []" and ctx = None and e = 0,
  OF ex_disk_file]

text \<open>The only blocks that make up the example file are those it was cut into.\<close>

lemma ex_blocks:
  assumes "ex_cid ex_root = ex_cid (file_node_block ex_storage bs)"
  shows "bs = [ex_chunk]"
proof -
  have "file_node_block ex_storage bs = file_node_block ex_storage [ex_chunk]"
    using assms ex_cid_unique [of "file_node_block ex_storage bs" ex_root] by (simp add: ex_root_block)
  then have "NewFileNode (map ex_cid bs) = NewFileNode [ex_cid ex_chunk]"
    using file_node_encoded(2) [OF ex_storage_ok, of bs] file_node_encoded(2) [OF ex_storage_ok, of "[ex_chunk]"] by simp
  then have "map ex_cid bs = [ex_cid ex_chunk]" by (metis NewFileNode_fields(2))
  then obtain b where "bs = [b]" "ex_cid b = ex_cid ex_chunk" by auto
  with ex_cid_unique [of b ex_chunk] show ?thesis by (simp add: ex_chunk_def)
qed

lemma ex_view_sound: "view_sound ex_storage (view ex_storage ''s'' ex_disk)"
proof -
  have "''f'' \<noteq> ''s'' @ CHR ''/'' # c" for c by simp
  then have "view ex_storage ''s'' ex_disk = Map.empty"
    by (auto simp: fun_eq_iff ex_view_eq ex_disk_def split: sum.split)
  then show ?thesis by simp
qed

theorem GetFile_integrity_witness:
  "\<exists>err out s'. GetFile ex_storage (ex_rt [7] [ex_ep]) None ''x'' (\<lambda>_ _. None) (ex_host, ex_disk, 0) = ((err, out), s') \<and>
     (delivered ex_storage ''x'' (err = None) out \<or> err \<noteq> None \<and> out = [])"
proof -
  obtain err out h' d' e' where g:
    "GetFile ex_storage (ex_rt [7] [ex_ep]) None ''x'' (\<lambda>_ _. None) (ex_host, ex_disk, 0) = ((err, out), (h', d', e'))"
    by (metis prod.exhaust)
  have "view_sound ex_storage (view ex_storage (h_store ex_host) ex_disk)" using ex_view_sound by simp
  from GetFile_integrity [OF ex_storage_ok this, where rt = "ex_rt [7] [ex_ep]" and ctx = None and
      root = "''x''" and w = "\<lambda>_ _. None" and e = 0] g
  have "delivered ex_storage ''x'' (err = None) out \<or> err \<noteq> None \<and> out = []" by simp
  with g show ?thesis by blast
qed

lemma ex_unforgeable: "b = ex_root \<or> length b \<le> 30 \<Longrightarrow> unforgeable ex_storage b"
  using ex_cid_unique by (auto simp: unforgeable_def)

theorem GetFile_authentic_witness:
  "\<exists>err out s'. GetFile ex_storage (ex_rt [7] [ex_ep]) None (ex_cid ex_root) (\<lambda>_ _. None) (ex_host, ex_disk, 0) =
     ((err, out), s') \<and> (\<exists>rest. ex_chunk = out @ rest)"
proof -
  obtain err out s' where g:
    "GetFile ex_storage (ex_rt [7] [ex_ep]) None (ex_cid ex_root) (\<lambda>_ _. None) (ex_host, ex_disk, 0) = ((err, out), s')"
    by (metis prod.exhaust)
  have u: "Unmarshal_FileNode ex_root = (NewFileNode (map (NewCID ex_storage) [ex_chunk]), None)"
    using file_node_encoded(2) [OF ex_storage_ok, of "[ex_chunk]"] unfolding ex_root_block .
  have "\<exists>rest. concat [ex_chunk] = out @ rest \<and> (err = None \<longrightarrow> rest = [])"
  proof (rule GetFile_authentic [OF ex_storage_ok _ u])
    show "view_sound ex_storage (view ex_storage (h_store ex_host) ex_disk)" using ex_view_sound by simp
    show "\<forall>b\<in>set [ex_root, ex_chunk]. unforgeable ex_storage b"
      by (auto intro!: ex_unforgeable simp: ex_chunk_def)
    show "GetFile ex_storage (ex_rt [7] [ex_ep]) None (NewCID ex_storage ex_root) (\<lambda>_ _. None)
        (ex_host, ex_disk, 0) = ((err, out), s')" using g by simp
  qed
  then have "\<exists>rest. ex_chunk = out @ rest" by auto
  with g show ?thesis by blast
qed

theorem AddFile_stores_witness:
  "\<exists>h' d' e'. AddFile ex_storage ex_os (ex_rt [] []) None ''f'' (ex_host, ex_disk, 0) =
       (Inr (ex_cid ex_root), (h', d', e')) \<and>
     (ex_cid ex_root, ex_idA, SelfEndpoint ex_host) \<in> prov_abs (h_providers h')"
proof -
  obtain h' d' e' where a: "AddFile ex_storage ex_os (ex_rt [] []) None ''f'' (ex_host, ex_disk, 0) =
      (Inr (ex_cid ex_root), (h', d', e'))" by (rule ex_AddFile)
  have "length (h_SelfID ex_host) \<noteq> 0" by simp
  then have "h_SelfID ex_host \<noteq> ''''" by blast
  from AddFile_stores [OF ex_storage_ok this a] have
    "(ex_cid ex_root, ex_idA, SelfEndpoint ex_host) \<in> prov_abs (h_providers h')" by auto
  with a show ?thesis by blast
qed

theorem AddFile_total_witness:
  "\<exists>root s'. AddFile ex_storage ex_os (ex_rt [] []) None ''f'' (ex_host, ex_disk, 0) = (Inr root, s')"
  by (rule AddFile_total [OF ex_storage_ok, where chunks = "[ex_cid ex_chunk]" and dk = "ex_put ''s'' ex_chunk ex_disk"])
     (simp_all add: ex_PutFile)

theorem AddFile_GetFile_witness:
  "\<exists>s'. GetFile ex_storage (ex_rt [] []) None (ex_cid ex_root) (\<lambda>_ _. None) s' = ((None, ex_chunk), s')"
proof -
  obtain h' d' e' where a: "AddFile ex_storage ex_os (ex_rt [] []) None ''f'' (ex_host, ex_disk, 0) =
      (Inr (ex_cid ex_root), (h', d', e'))" by (rule ex_AddFile)
  from AddFile_GetFile [OF ex_storage_ok a, where rt' = "ex_rt [] []" and ctx' = None and e'' = e']
  obtain bs where bs: "ex_disk ''f'' = Some (concat bs)" "ex_cid ex_root = NewCID ex_storage (file_node_block ex_storage bs)"
    "inj_on (NewCID ex_storage) (set (file_node_block ex_storage bs # bs)) \<longrightarrow>
       GetFile ex_storage (ex_rt [] []) None (ex_cid ex_root) (\<lambda>_ _. None) (h', d', e') = ((None, concat bs), (h', d', e'))"
    by blast
  from bs(1) have c: "concat bs = ex_chunk" by (simp add: ex_disk_def)
  from bs(2) have r: "file_node_block ex_storage bs = ex_root" using ex_cid_unique [of "file_node_block ex_storage bs" ex_root] by simp
  have "length b \<le> length (concat bs)" if "b \<in> set bs" for b
    using that by (induction bs) auto
  then have short: "length b \<le> 30" if "b \<in> set bs" for b
    using that c by (fastforce simp: ex_chunk_def)
  have "inj_on ex_cid (set (ex_root # bs))"
  proof (rule inj_onI)
    fix x y assume "y \<in> set (ex_root # bs)" "ex_cid x = ex_cid y"
    then show "x = y" using short ex_cid_unique by auto
  qed
  with bs(3) r c show ?thesis by auto
qed

end
