(* ===== verification/Catalog.thy ===== *)
theory Catalog
  imports FileTransfer
begin

text \<open>
  The global catalog: \<open>UpdateGlobalCatalog\<close> of \<open>internal/coordinator/node.go\<close>. The catalog is a
  text file in the overlay, one line per upload; its current id is kept in Redis, or in the
  node when it has no Redis. Redis is a parameter, as are the waits between two attempts at
  its lock. An attempt that never succeeds leaves the call running for ever: then the result
  is \<open>None\<close>.
\<close>

section \<open>Redis\<close>

text \<open>\<open>rd_Wait\<close> is the \<open>select\<close> of a retry: the error of the context if that ends first.\<close>

record 'e redis =
  rd_SetNX :: "ctx \<Rightarrow> string \<Rightarrow> string \<Rightarrow> int \<Rightarrow> 'e \<Rightarrow> (error + bool) \<times> 'e"
  rd_Get :: "ctx \<Rightarrow> string \<Rightarrow> 'e \<Rightarrow> (error + string) \<times> 'e"
  rd_Set :: "ctx \<Rightarrow> string \<Rightarrow> string \<Rightarrow> int \<Rightarrow> 'e \<Rightarrow> error option \<times> 'e"
  rd_Del :: "ctx \<Rightarrow> string \<Rightarrow> 'e \<Rightarrow> 'e"
  rd_Wait :: "ctx \<Rightarrow> int \<Rightarrow> 'e \<Rightarrow> error option \<times> 'e"

definition lockKey :: string where
  "lockKey = ''chunkster:catalog_lock''"

definition catalog_key :: string where
  "catalog_key = ''chunkster:catalog_cid''"

definition millisecond :: int where
  "millisecond = 1000000"

text \<open>One attempt at the lock, and the loop: the result of the loop is the context's error, if any.\<close>

definition try_lock :: "'e redis \<Rightarrow> ctx \<Rightarrow> string \<Rightarrow> 'e \<Rightarrow> bool \<times> 'e" where
  "try_lock R ctx self e =
     (case rd_SetNX R ctx lockKey self (10 * second) e of
        (Inr True, e') \<Rightarrow> (True, e')
      | (_, e') \<Rightarrow> (False, e'))"

partial_function (option) acquire_lock :: "'e redis \<Rightarrow> ctx \<Rightarrow> string \<Rightarrow> 'e \<Rightarrow> (error option \<times> 'e) option" where
  "acquire_lock R ctx self e =
     (case try_lock R ctx self e of
        (locked, e1) \<Rightarrow>
          if locked then Some (None, e1)
          else case rd_Wait R ctx (500 * millisecond) e1 of
                 (Some err, e2) \<Rightarrow> Some (Some err, e2)
               | (None, e2) \<Rightarrow> acquire_lock R ctx self e2)"

section \<open>The update\<close>

definition int_decimal :: "int \<Rightarrow> string" where
  "int_decimal z = (if z < 0 then CHR ''-'' # decimal (nat (- z)) else decimal (nat z))"

definition catalog_entry :: "string \<Rightarrow> string \<Rightarrow> int \<Rightarrow> string \<Rightarrow> string" where
  "catalog_entry name cid sz ext =
     ''Name: '' @ name @ '' | CID: '' @ cid @ '' | Size: '' @ int_decimal sz @ '' bytes | Type: '' @ ext @ newline"

text \<open>Steps 2 and 3: the id of the catalog, and its bytes, none when it cannot be fetched.\<close>

definition current_cid :: "'e redis \<Rightarrow> ctx \<Rightarrow> ('s, 'c, 'e) node \<Rightarrow> string \<times> ('s, 'c, 'e) node" where
  "current_cid R ctx s =
     (case s of (h, d, e) \<Rightarrow>
        if reg_rdb (h_reg h) = None then (h_localCatalogCid h, s)
        else case rd_Get R ctx catalog_key e of
               (Inl _, e') \<Rightarrow> ([], (h, d, e'))
             | (Inr c, e') \<Rightarrow> (c, (h, d, e')))"

definition current_bytes ::
  "'s storage \<Rightarrow> ('c, 'e) runtime \<Rightarrow> ctx \<Rightarrow> string \<Rightarrow> ('s, 'c, 'e) node \<Rightarrow> bytes \<times> ('s, 'c, 'e) node" where
  "current_bytes S rt ctx c s =
     (if c = [] then ([], s)
      else case GetFile S rt ctx c (\<lambda>_ _. None) s of
             ((None, b), s') \<Rightarrow> (b, s')
           | ((Some _, _), s') \<Rightarrow> ([], s'))"

text \<open>Steps 5 and 6: the new catalog goes through a temporary file, which is removed at the end.\<close>

definition upload_bytes ::
  "'s storage \<Rightarrow> os \<Rightarrow> ('c, 'e) runtime \<Rightarrow> ctx \<Rightarrow> bytes \<Rightarrow> ('s, 'c, 'e) node \<Rightarrow>
   (error + string) \<times> ('s, 'c, 'e) node" where
  "upload_bytes S os rt ctx b s =
     (case s of (h, d, e) \<Rightarrow>
        (case os_CreateTemp os ''catalog-*'' d of
           (Inl err, d1) \<Rightarrow> (Inl err, (h, d1, e))
         | (Inr tmp, d1) \<Rightarrow>
             (case file_Write os tmp b d1 of
                (Some err, d2) \<Rightarrow> (Inl err, (h, os_Remove tmp d2, e))
              | (None, d2) \<Rightarrow>
                  (case AddFile S os rt ctx tmp (h, d2, e) of
                     (r, (h', d3, e')) \<Rightarrow> (r, (h', os_Remove tmp d3, e'))))))"

text \<open>Step 7: the pointer; an error of Redis is only logged.\<close>

definition set_current :: "'e redis \<Rightarrow> ctx \<Rightarrow> string \<Rightarrow> ('s, 'c, 'e) node \<Rightarrow> ('s, 'c, 'e) node" where
  "set_current R ctx c s =
     (case s of (h, d, e) \<Rightarrow>
        if reg_rdb (h_reg h) = None then (h\<lparr>h_localCatalogCid := c\<rparr>, d, e)
        else (h, d, snd (rd_Set R ctx catalog_key c 0 e)))"

definition update_locked ::
  "'s storage \<Rightarrow> os \<Rightarrow> ('c, 'e) runtime \<Rightarrow> 'e redis \<Rightarrow> ctx \<Rightarrow> string \<Rightarrow> ('s, 'c, 'e) node \<Rightarrow>
   (error + string) \<times> ('s, 'c, 'e) node" where
  "update_locked S os rt R ctx entry s =
     (case current_cid R ctx s of (c, s1) \<Rightarrow>
        (case current_bytes S rt ctx c s1 of (b, s2) \<Rightarrow>
           (case upload_bytes S os rt ctx (b @ bytes_of_string entry) s2 of
              (Inl err, s3) \<Rightarrow> (Inl err, s3)
            | (Inr new, s3) \<Rightarrow> (Inr new, set_current R ctx new s3))))"

text \<open>Without Redis the mutex of the node serialises the updates; with it the lock is deleted at the end.\<close>

definition UpdateGlobalCatalog ::
  "'s storage \<Rightarrow> os \<Rightarrow> ('c, 'e) runtime \<Rightarrow> 'e redis \<Rightarrow> ctx \<Rightarrow> string \<Rightarrow> string \<Rightarrow> int \<Rightarrow> string \<Rightarrow>
   ('s, 'c, 'e) node \<Rightarrow> ((error + string) \<times> ('s, 'c, 'e) node) option" where
  "UpdateGlobalCatalog S os rt R ctx name cid sz ext s =
     (case s of (h, d, e) \<Rightarrow>
        let entry = catalog_entry name cid sz ext
        in if reg_rdb (h_reg h) = None then Some (update_locked S os rt R ctx entry s)
           else case acquire_lock R ctx (h_SelfID h) e of
                  None \<Rightarrow> None
                | Some (Some err, e1) \<Rightarrow> Some (Inl err, (h, d, e1))
                | Some (None, e1) \<Rightarrow>
                    (case update_locked S os rt R ctx entry (h, d, e1) of
                       (r, (h', d', e')) \<Rightarrow> Some (r, (h', d', rd_Del R None lockKey e'))))"

section \<open>The lock loop\<close>

text \<open>The world before the n-th attempt, as long as attempts and waits go on.\<close>

fun after_retries :: "'e redis \<Rightarrow> ctx \<Rightarrow> string \<Rightarrow> nat \<Rightarrow> 'e \<Rightarrow> 'e option" where
  "after_retries R ctx self 0 e = Some e"
| "after_retries R ctx self (Suc n) e =
     (case try_lock R ctx self e of
        (locked, e1) \<Rightarrow>
          if locked then None
          else case rd_Wait R ctx (500 * millisecond) e1 of
                 (Some _, _) \<Rightarrow> None
               | (None, e2) \<Rightarrow> after_retries R ctx self n e2)"

lemma acquire_lock_sound:
  assumes "acquire_lock R ctx self e = Some r"
  shows "\<exists>n. after_retries R ctx self n e = None"
proof (rule acquire_lock.raw_induct [where P = "\<lambda>R ctx self e r. \<exists>n. after_retries R ctx self n e = None", OF _ assms])
  fix al :: "'a redis \<Rightarrow> ctx \<Rightarrow> string \<Rightarrow> 'a \<Rightarrow> (error option \<times> 'a) option"
  fix R :: "'a redis" and ctx self and e :: 'a and r
  assume IH: "\<And>R ctx self e r. al R ctx self e = Some r \<Longrightarrow> \<exists>n. after_retries R ctx self n e = None"
  assume run: "(case try_lock R ctx self e of
        (locked, e1) \<Rightarrow>
          if locked then Some (None, e1)
          else case rd_Wait R ctx (500 * millisecond) e1 of
                 (Some err, e2) \<Rightarrow> Some (Some err, e2)
               | (None, e2) \<Rightarrow> al R ctx self e2) = Some r"
  obtain ok e1 where t: "try_lock R ctx self e = (ok, e1)" by (rule prod.exhaust)
  obtain err e2 where w: "rd_Wait R ctx (500 * millisecond) e1 = (err, e2)" by (rule prod.exhaust)
  show "\<exists>n. after_retries R ctx self n e = None"
  proof (cases "ok \<or> err \<noteq> None")
    case True
    with t w have "after_retries R ctx self (Suc 0) e = None" by auto
    then show ?thesis by blast
  next
    case False
    with run t w have "al R ctx self e2 = Some r" by simp
    from IH [OF this] obtain n where "after_retries R ctx self n e2 = None" by blast
    with t w False have "after_retries R ctx self (Suc n) e = None" by simp
    then show ?thesis by blast
  qed
qed

lemma acquire_lock_complete:
  "after_retries R ctx self n e = None \<Longrightarrow> \<exists>r. acquire_lock R ctx self e = Some r"
proof (induction n arbitrary: e)
  case (Suc n)
  show ?case
    using Suc by (subst acquire_lock.simps) (auto split: prod.splits if_splits option.splits)
qed simp

lemma acquire_lock_returns: "acquire_lock R ctx self e \<noteq> None \<longleftrightarrow> (\<exists>n. after_retries R ctx self n e = None)"
  using acquire_lock_sound acquire_lock_complete by (metis not_None_eq)

text \<open>
  What Redis documents of the lock: \<open>expires\<close> is when the lock of the present holder ends, and
  \<open>SETNX\<close> succeeds from then on. That it does not change during an attempt or a wait says that
  no other node takes the lock meanwhile and the holder does not give it back; \<open>clock\<close> is the
  time, and a wait that is not cut short lasts as long as asked.
\<close>

definition lock_expires :: "'e redis \<Rightarrow> ('e \<Rightarrow> time) \<Rightarrow> ('e \<Rightarrow> time) \<Rightarrow> bool" where
  "lock_expires R clock expires \<longleftrightarrow>
     (\<forall>ctx self ttl e r e'. rd_SetNX R ctx lockKey self ttl e = (r, e') \<longrightarrow>
        (if expires e \<le> clock e then r = Inr True else expires e' = expires e \<and> clock e \<le> clock e')) \<and>
     (\<forall>ctx t e e'. rd_Wait R ctx t e = (None, e') \<longrightarrow> expires e' = expires e \<and> clock e + t \<le> clock e')"

lemma lock_expires_SetNX:
  "lock_expires R clock expires \<Longrightarrow> rd_SetNX R ctx lockKey self ttl e = (r, e') \<Longrightarrow>
   if expires e \<le> clock e then r = Inr True else expires e' = expires e \<and> clock e \<le> clock e'"
  unfolding lock_expires_def by blast

lemma lock_expires_Wait:
  "lock_expires R clock expires \<Longrightarrow> rd_Wait R ctx t e = (None, e') \<Longrightarrow>
   expires e' = expires e \<and> clock e + t \<le> clock e'"
  unfolding lock_expires_def by blast

lemma retries_bounded:
  assumes "lock_expires R clock expires" "expires e \<le> clock e + int n * (500 * millisecond)"
  shows "after_retries R ctx self (Suc n) e = None"
  using assms(2)
proof (induction n arbitrary: e)
  case 0
  obtain r e1 where s: "rd_SetNX R ctx lockKey self (10 * second) e = (r, e1)" by (rule prod.exhaust)
  from lock_expires_SetNX [OF assms(1) s] 0 s have "try_lock R ctx self e = (True, e1)" by (simp add: try_lock_def)
  then show ?case by simp
next
  case (Suc n)
  obtain ok e1 where t: "try_lock R ctx self e = (ok, e1)" by (rule prod.exhaust)
  obtain err e2 where w: "rd_Wait R ctx (500 * millisecond) e1 = (err, e2)" by (rule prod.exhaust)
  show ?case
  proof (cases "ok \<or> err \<noteq> None")
    case False
    obtain r e1' where s: "rd_SetNX R ctx lockKey self (10 * second) e = (r, e1')" by (rule prod.exhaust)
    with t False have "e1' = e1" "r \<noteq> Inr True"
      by (auto simp: try_lock_def split: sum.splits bool.splits)
    with lock_expires_SetNX [OF assms(1) s] have "expires e1 = expires e" "clock e \<le> clock e1"
      by (simp_all split: if_splits)
    moreover have "expires e2 = expires e1" "clock e1 + 500 * millisecond \<le> clock e2"
      using lock_expires_Wait [OF assms(1)] w False by auto
    ultimately have "expires e2 \<le> clock e2 + int n * (500 * millisecond)"
      using False Suc.prems by (auto simp: algebra_simps)
    from Suc.IH [OF this] t w False show ?thesis by simp
  qed (use t w in auto)
qed

text \<open>
  C26. A crashed holder cannot block the catalog. If the lock of another node runs out within
  the ten seconds it was taken for and nobody takes it in between, an update gets the lock, or
  the error of its context, within 21 attempts, and so returns; without Redis it always does.
\<close>

theorem UpdateGlobalCatalog_returns:
  assumes "lock_expires R clock expires" "expires e \<le> clock e + 10 * second"
  shows "after_retries R ctx (h_SelfID h) 21 e = None \<and>
    (\<exists>r s'. UpdateGlobalCatalog S os rt R ctx name cid sz ext (h, d, e) = Some (r, s'))"
proof
  have "expires e \<le> clock e + int 20 * (500 * millisecond)"
    using assms(2) by (simp add: second_def millisecond_def)
  from retries_bounded [OF assms(1) this] show b: "after_retries R ctx (h_SelfID h) 21 e = None"
    by (simp add: numeral_eq_Suc)
  from acquire_lock_complete [OF b] obtain err e1 where "acquire_lock R ctx (h_SelfID h) e = Some (err, e1)"
    by auto
  then have "UpdateGlobalCatalog S os rt R ctx name cid sz ext (h, d, e) \<noteq> None"
    by (simp add: UpdateGlobalCatalog_def Let_def split: option.split prod.split del: not_None_eq)
  then show "\<exists>r s'. UpdateGlobalCatalog S os rt R ctx name cid sz ext (h, d, e) = Some (r, s')"
    by auto
qed

section \<open>What an update does to the catalog\<close>

lemma holds_file_frame:
  "storage_ok S \<Longrightarrow> \<not> block_path path \<Longrightarrow> holds_file S st (d(path := x)) root bs = holds_file S st d root bs"
  by (simp add: holds_file_def view_frame)

lemma holds_file_root: "storage_ok S \<Longrightarrow> holds_file S st d root bs \<Longrightarrow> root \<noteq> []"
  using NewCID_key [of S "file_node_block S bs"] by (auto simp: holds_file_def KeyFromHex_def keyBytes_def)

lemma upload_bytes_holds:
  assumes "storage_ok S" "\<And>d. \<not> block_path (os_TempName os ''catalog-*'' d)"
    and "upload_bytes S os rt ctx b (h, d, e) = (Inr c, (h', d', e'))"
  obtains bs where "concat bs = b" "c = NewCID S (file_node_block S bs)"
    "inj_on (NewCID S) (set (file_node_block S bs # bs)) \<Longrightarrow> holds_file S (h_store h) d' c bs"
    "same_host (h\<lparr>h_providers := h_providers h'\<rparr>) h'"
proof -
  let ?tmp = "os_TempName os ''catalog-*'' d"
  let ?d = "d(?tmp \<mapsto> b)"
  obtain r h1 d1 e1 where a: "AddFile S os rt ctx ?tmp (h, ?d, e) = (r, (h1, d1, e1))" by (metis prod.exhaust)
  with assms(3) have r: "r = Inr c" "h1 = h'" "d' = os_Remove ?tmp d1"
    by (auto simp: upload_bytes_def os_CreateTemp_def file_Write_def Let_def split: option.splits)
  from AddFile_holds [OF assms(1) a [unfolded r(1,2)]] obtain bs where
    bs: "?d ?tmp = Some (concat bs)" "c = NewCID S (file_node_block S bs)"
      "inj_on (NewCID S) (set (file_node_block S bs # bs)) \<Longrightarrow> holds_file S (h_store h) d1 c bs"
      "same_host (h\<lparr>h_providers := h_providers h'\<rparr>) h'" by metis
  moreover have "holds_file S (h_store h) d' c bs = holds_file S (h_store h) d1 c bs"
    unfolding r(3) os_Remove_def by (rule holds_file_frame [OF assms(1,2)])
  ultimately show thesis by (intro that [of bs]) auto
qed

text \<open>The bytes a node takes for the current catalog.\<close>

lemma update_locked_cases:
  assumes "update_locked S os rt R ctx entry s = (Inr c, s')"
  obtains cur s1 b s2 s3 where "current_cid R ctx s = (cur, s1)" "current_bytes S rt ctx cur s1 = (b, s2)"
    "upload_bytes S os rt ctx (b @ bytes_of_string entry) s2 = (Inr c, s3)" "s' = set_current R ctx c s3"
  using assms by (auto simp: update_locked_def split: prod.splits sum.splits)



section \<open>Examples\<close>

text \<open>A Redis whose only state is the time: the lock is free from 7 seconds on, no catalog is set.\<close>

definition ex_redis :: "string \<Rightarrow> nat redis" where
  "ex_redis cur =
     \<lparr>rd_SetNX = (\<lambda>ctx k v ttl e. (Inr (7 * second \<le> int e), e)),
      rd_Get = (\<lambda>ctx k e. (Inr cur, e)), rd_Set = (\<lambda>ctx k v ttl e. (None, e)), rd_Del = (\<lambda>ctx k e. e),
      rd_Wait = (\<lambda>ctx d e. (None, e + nat d))\<rparr>"

lemma ex_redis_lock: "lock_expires (ex_redis cur) int (\<lambda>_. 7 * second)"
  by (auto simp: lock_expires_def ex_redis_def)

theorem UpdateGlobalCatalog_returns_witness:
  "\<exists>r s'. UpdateGlobalCatalog ex_storage ex_os (ex_rt [] []) (ex_redis '''') None ''n'' ''c'' 0 '''' (ex_host, ex_disk, 0) =
     Some (r, s')"
  using UpdateGlobalCatalog_returns [OF ex_redis_lock [of "''''"], where e = 0 and h = ex_host] by (simp add: second_def)

lemma ex_temp: "\<not> block_path (os_TempName ex_os ''catalog-*'' d)"
proof -
  have "base_name (os_TempName ex_os ''catalog-*'' d) = ''catalog-0''" by (simp add: ex_os_def base_name_def)
  then show ?thesis by (simp add: block_path_def KeyFromHex_def keyBytes_def)
qed

lemma ex_upload:
  assumes "h_chunker h = 4" "h_store h = ''s''"
  shows "\<exists>c s'. upload_bytes ex_storage ex_os (ex_rt [] []) ctx b (h, d, e) = (Inr c, s')"
proof -
  let ?tmp = "os_TempName ex_os ''catalog-*'' d"
  have "\<exists>root s'. AddFile ex_storage ex_os (ex_rt [] []) ctx ?tmp (h, d(?tmp \<mapsto> b), e) = (Inr root, s')"
    by (rule AddFile_succeeds [OF ex_storage_ok])
       (simp_all add: assms ex_storage_def Let_def)
  then show ?thesis
    by (auto simp: upload_bytes_def os_CreateTemp_def file_Write_def Let_def ex_os_def split: prod.splits)
qed

lemma ex_update:
  assumes "h_chunker h = 4" "h_store h = ''s''" "reg_rdb (h_reg h) = None"
    and "h_localCatalogCid h = []"
  shows "\<exists>c s'. UpdateGlobalCatalog ex_storage ex_os (ex_rt [] []) R ctx name cid sz ext (h, d, e) = Some (Inr c, s')"
proof -
  obtain c s' where "upload_bytes ex_storage ex_os (ex_rt [] []) ctx (bytes_of_string (catalog_entry name cid sz ext))
      (h, d, e) = (Inr c, s')"
    using ex_upload [OF assms(1,2)] by blast
  with assms show ?thesis
    by (cases "set_current R ctx c s'")
       (simp add: UpdateGlobalCatalog_def update_locked_def current_cid_def current_bytes_def)
qed



end
