(* ===== verification/Scheduler.thy ===== *)
theory Scheduler
  imports PeerManager Providers
begin

text \<open>
  The cleanup task of \<open>internal/scheduler/cleanup.go\<close>: one tick of its loop, over the
  registry and the provider records it shares with the rest of the node, and how sweeping
  and cleanup together detect a peer that has gone silent.

  \<open>RunCleanup\<close> works on a snapshot; for each expired peer it marks the registry and then
  purges the provider records, which are two more loops over the records. \<open>ord\<close> gives the
  order of the record loop for each purged peer. \<open>RunRebalance\<close>
  (\<open>internal/scheduler/rebalance.go\<close>) only waits and has no state.
\<close>

definition staleTimeout :: int where
  "staleTimeout = 60 * second"

definition cleanup_tick ::
  "string list \<Rightarrow> (string \<Rightarrow> ProviderRecords \<Rightarrow> string list) \<Rightarrow> time \<Rightarrow>
   Registry \<times> ProviderRecords \<Rightarrow> Registry \<times> ProviderRecords" where
  "cleanup_tick ks ord now rp =
     foldl (\<lambda>(r, provs) p.
        if rec_ID p = SelfID r then (r, provs)
        else if rec_State p = StateInactive \<and> staleTimeout < time_sub now (rec_LastSeen p)
        then (MarkState (rec_ID p) StateLeft r,
              prov_RemovePeer (ord (rec_ID p) provs) (rec_ID p) provs)
        else (r, provs)) rp (Snapshot ks (fst rp))"

definition expired :: "time \<Rightarrow> string \<Rightarrow> Record \<Rightarrow> bool" where
  "expired now self p \<longleftrightarrow>
     rec_ID p \<noteq> self \<and> rec_State p = StateInactive \<and> staleTimeout < time_sub now (rec_LastSeen p)"

definition purge :: "(string \<Rightarrow> ProviderRecords \<Rightarrow> string list) \<Rightarrow> string list \<Rightarrow> ProviderRecords \<Rightarrow> ProviderRecords" where
  "purge ord ids provs = foldl (\<lambda>provs i. prov_RemovePeer (ord i provs) i provs) provs ids"

text \<open>The two shared structures are updated independently of each other.\<close>

lemma cleanup_tick_split:
  "cleanup_tick ks ord now (r, provs) =
     (mark_where (expired now (reg_self r)) StateLeft (Snapshot ks r) r,
      purge ord (map rec_ID (filter (expired now (reg_self r)) (Snapshot ks r))) provs)"
proof -
  have "foldl (\<lambda>(r, provs) p. if rec_ID p = SelfID r then (r, provs)
        else if rec_State p = StateInactive \<and> staleTimeout < time_sub now (rec_LastSeen p)
        then (MarkState (rec_ID p) StateLeft r, prov_RemovePeer (ord (rec_ID p) provs) (rec_ID p) provs)
        else (r, provs)) (r, provs) ps =
     (mark_where (expired now (reg_self r)) StateLeft ps r,
      purge ord (map rec_ID (filter (expired now (reg_self r)) ps)) provs)" for ps
  proof (induction ps arbitrary: r provs)
    case (Cons q ps)
    then show ?case
      by (cases "expired now (reg_self r) q")
        (auto simp: mark_where_def purge_def expired_def SelfID_def)
  qed (simp add: mark_where_def purge_def)
  then show ?thesis by (simp add: cleanup_tick_def)
qed

lemma prov_wf_purge: "prov_wf provs \<Longrightarrow> prov_wf (purge ord ids provs)"
  by (induction ids arbitrary: provs) (auto simp: purge_def intro: prov_wf_RemovePeer)

lemma prov_abs_purge:
  assumes ord: "\<And>i p. prov_wf p \<Longrightarrow> is_order (ord i p) p"
  shows "prov_wf provs \<Longrightarrow> prov_abs (purge ord ids provs) = {t \<in> prov_abs provs. fst (snd t) \<notin> set ids}"
proof (induction ids arbitrary: provs)
  case Nil
  then show ?case by (simp add: purge_def)
next
  case (Cons i ids)
  let ?p = "prov_RemovePeer (ord i provs) i provs"
  have "prov_abs ?p = {t \<in> prov_abs provs. fst (snd t) \<noteq> i}"
  proof (cases "i = ''''")
    case True
    have "\<forall>t\<in>prov_abs provs. fst (snd t) \<noteq> ''''"
      using Cons.prems by (auto simp: prov_abs_def prov_wf_def)
    with True show ?thesis by (auto simp: prov_RemovePeer_def)
  qed (use Cons.prems in \<open>simp add: prov_abs_RemovePeer ord\<close>)
  moreover have "purge ord (i # ids) provs = purge ord ids ?p" by (simp add: purge_def)
  ultimately show ?case using Cons.IH [OF prov_wf_RemovePeer [OF Cons.prems]] by auto
qed

lemma reg_wf_cleanup:
  "reg_wf r \<Longrightarrow> prov_wf provs \<Longrightarrow>
   reg_wf (fst (cleanup_tick ks ord now (r, provs))) \<and> prov_wf (snd (cleanup_tick ks ord now (r, provs)))"
  by (simp add: cleanup_tick_split reg_wf_mark_where prov_wf_purge)

lemma expired_snapshot:
  assumes "reg_wf r" "is_order ks (reg_peers r)"
  shows "set (map rec_ID (filter c (Snapshot ks r))) = {i. \<exists>p. reg_peers r i = Some p \<and> c p}"
  using reg_wfD(2) [OF assms(1)] assms(2)
  by (force simp: Snapshot_def set_range_values_order ran_def)

lemma cleanup_tick_effect:
  assumes "reg_wf r" "prov_wf provs" "is_order ks (reg_peers r)"
    and "\<And>i p. prov_wf p \<Longrightarrow> is_order (ord i p) p"
  shows "reg_peers (fst (cleanup_tick ks ord now (r, provs))) =
      (\<lambda>pid. map_option (\<lambda>p. if expired now (reg_self r) p then p\<lparr>rec_State := StateLeft\<rparr> else p)
               (reg_peers r pid)) \<and>
    prov_abs (snd (cleanup_tick ks ord now (r, provs))) =
      {t \<in> prov_abs provs. \<not> (\<exists>p. reg_peers r (fst (snd t)) = Some p \<and> expired now (reg_self r) p)}"
  using mark_where_snapshot [OF assms(1,3)] prov_abs_purge [OF assms(4,2)]
    expired_snapshot [OF assms(1,3)]
  by (auto simp: cleanup_tick_split fun_eq_iff)

text \<open>
  A cleanup tick moves exactly the expired peers (not the node itself, inactive, last seen
  more than 60 seconds ago) to \<open>Left\<close>, removes all their provider records, and changes
  nothing else, whatever the order in which the maps are visited.
\<close>

theorem cleanup_tick_spec:
  assumes "reg_wf r" "prov_wf provs" "is_order ks (reg_peers r)"
    and "\<And>i p. prov_wf p \<Longrightarrow> is_order (ord i p) p"
  shows "reg_peers (fst (cleanup_tick ks ord now (r, provs))) =
      (\<lambda>pid. map_option (\<lambda>p. if expired now (reg_self r) p then p\<lparr>rec_State := StateLeft\<rparr> else p)
               (reg_peers r pid)) \<and>
    prov_abs (snd (cleanup_tick ks ord now (r, provs))) =
      {t \<in> prov_abs provs. \<not> (\<exists>p. reg_peers r (fst (snd t)) = Some p \<and> expired now (reg_self r) p)}"
  by (rule cleanup_tick_effect [OF assms])

text \<open>A choice of orders for the witnesses: the ids in alphabetical order.\<close>

definition sorted_order :: "string \<Rightarrow> (string \<rightharpoonup> 'v) \<Rightarrow> string list" where
  "sorted_order i p = sorted_list_of_set (dom p)"

lemma sorted_order_ok: "finite (dom p) \<Longrightarrow> is_order (sorted_order i p) p"
  by (simp add: sorted_order_def is_order_def)

lemma sorted_order_prov: "prov_wf p \<Longrightarrow> is_order (sorted_order i p) p"
  by (simp add: sorted_order_ok prov_wf_def)

definition ex_silent :: Record where
  "ex_silent = ex_peer\<lparr>rec_State := StateInactive, rec_LastSeen := 0\<rparr>"

definition ex_table :: Registry where
  "ex_table = (ex_reg 20)\<lparr>reg_peers := [''b'' \<mapsto> ex_silent]\<rparr>"

lemma ex_table_ok [simp]: "reg_wf ex_table" "is_order [''b''] (reg_peers ex_table)"
  by (auto simp: reg_wf_def is_order_def ex_table_def ex_silent_def)

theorem cleanup_tick_spec_witness:
  "prov_abs (snd (cleanup_tick [''b''] sorted_order (61 * second)
      (ex_table, prov_Add ''c'' (Some ex_ep) NewProviderRecords))) = {}"
proof -
  let ?p = "prov_Add ''c'' (Some ex_ep) NewProviderRecords"
  have "prov_wf ?p" by (simp add: prov_wf_Add)
  then have "prov_abs (snd (cleanup_tick [''b''] sorted_order (61 * second) (ex_table, ?p))) =
      {t \<in> prov_abs ?p. \<not> (\<exists>p. reg_peers ex_table (fst (snd t)) = Some p \<and>
         expired (61 * second) (reg_self ex_table) p)}"
    by (rule cleanup_tick_spec [OF ex_table_ok(1) _ ex_table_ok(2) sorted_order_prov, THEN conjunct2])
  moreover have "prov_abs ?p = {(''c'', ''b'', ex_ep)}" by (subst prov_abs_Add) (auto simp: ex_ep_def)
  moreover have "expired (61 * second) (reg_self ex_table) ex_silent"
    by (simp add: expired_def ex_silent_def ex_table_def staleTimeout_def time_sub_def second_def)
  ultimately show ?thesis by (auto simp: ex_table_def)
qed

section \<open>A peer that goes silent\<close>

text \<open>
  The events of a node's registry and provider records: calls of the RPC handlers and of the
  bootstrap loop (\<open>Ev_touch\<close>, \<open>Ev_upsert\<close>, \<open>Ev_leave\<close>, \<open>Ev_announce\<close>) and the ticks of
  the heartbeat and cleanup loops, in any interleaving.
\<close>

datatype node_event =
    Ev_touch time string
  | Ev_upsert time Record
  | Ev_leave string
  | Ev_announce string PeerEndpoint
  | Ev_sweep time
  | Ev_cleanup time

inductive node_step :: "node_event \<Rightarrow> Registry \<times> ProviderRecords \<Rightarrow> Registry \<times> ProviderRecords \<Rightarrow> bool" where
  ns_touch: "node_step (Ev_touch now i) (r, p) (Touch now i r, p)"
| ns_upsert: "is_order ks (reg_peers r) \<Longrightarrow> is_order ks' (reg_peers r) \<Longrightarrow>
    node_step (Ev_upsert now rec) (r, p) (snd (Upsert ks ks' now (Some rec) r), p)"
| ns_leave: "node_step (Ev_leave i) (r, p) (Leave i r, p)"
| ns_announce: "node_step (Ev_announce c e) (r, p) (r, prov_Add c (Some e) p)"
| ns_sweep: "is_order ks (reg_peers r) \<Longrightarrow>
    node_step (Ev_sweep now) (r, p) (Sweep ks now NewManager r, p)"
| ns_cleanup: "is_order ks (reg_peers r) \<Longrightarrow> (\<And>i p. prov_wf p \<Longrightarrow> is_order (ord i p) p) \<Longrightarrow>
    node_step (Ev_cleanup now) (r, p) (cleanup_tick ks ord now (r, p))"

inductive_cases node_stepE: "node_step ev s t"

text \<open>An event that is not a sign of life of the peer.\<close>

fun silent_about :: "string \<Rightarrow> node_event \<Rightarrow> bool" where
  "silent_about i (Ev_touch now j) \<longleftrightarrow> j \<noteq> i"
| "silent_about i (Ev_upsert now rec) \<longleftrightarrow> rec_ID rec \<noteq> i"
| "silent_about i (Ev_announce c e) \<longleftrightarrow> ep_PeerId e \<noteq> i"
| "silent_about i _ \<longleftrightarrow> True"

text \<open>Where a peer last heard of at \<open>t\<close> stands: gone, or still recorded in some state.\<close>

definition stands :: "time \<Rightarrow> State set option \<Rightarrow> string \<Rightarrow> Registry \<Rightarrow> bool" where
  "stands t S i r \<longleftrightarrow>
     (\<forall>p. reg_peers r i = Some p \<longrightarrow> rec_LastSeen p \<le> t \<and> (\<forall>T. S = Some T \<longrightarrow> rec_State p \<in> T))"

lemma stands_upsert:
  assumes "reg_wf r" "rec_ID rec \<noteq> i" "stands t S i r"
  shows "stands t S i (snd (Upsert ks ks' now (Some rec) r))"
proof (cases "rec_ID rec = ''''")
  case True
  with assms(3) show ?thesis by simp
next
  case False
  let ?r = "snd (Upsert ks ks' now (Some rec) r)"
  have prune: "reg_peers (prune_stale ks rec r) i \<in> {None, reg_peers r i}"
    by (rule prune_stale_cases [of ks rec r]) auto
  have "reg_peers ?r i \<in> {None, reg_peers r i}"
    by (rule Upsert_cases [OF False, of r ks ks' now]) (use prune assms(2) in auto)
  with assms(3) show ?thesis by (auto simp: stands_def)
qed

lemma node_step_wf:
  "node_step ev s t \<Longrightarrow> reg_wf (fst s) \<and> prov_wf (snd s) \<Longrightarrow> reg_wf (fst t) \<and> prov_wf (snd t)"
  by (erule node_stepE)
    (auto simp: reg_wf_Touch reg_wf_Upsert reg_wf_Leave prov_wf_Add reg_wf_Sweep reg_wf_cleanup)

lemma reg_self_cleanup [simp]: "reg_self (fst (cleanup_tick ks ord now (r, p))) = reg_self r"
  by (simp add: cleanup_tick_split)

lemma node_step_self: "node_step ev s t \<Longrightarrow> reg_self (fst t) = reg_self (fst s)"
  by (erule node_stepE) auto

lemma Sweep_at:
  assumes "reg_wf r" "is_order ks (reg_peers r)"
  shows "reg_peers (Sweep ks now m r) i = map_option
     (\<lambda>p. if overdue now m (reg_self r) p then p\<lparr>rec_State := StateInactive\<rparr> else p) (reg_peers r i)"
  using mark_where_snapshot [OF assms] by (simp add: Sweep_mark_where)

lemma cleanup_at:
  assumes "reg_wf r" "is_order ks (reg_peers r)"
  shows "reg_peers (fst (cleanup_tick ks ord now (r, p))) i = map_option
     (\<lambda>p. if expired now (reg_self r) p then p\<lparr>rec_State := StateLeft\<rparr> else p) (reg_peers r i)"
  using mark_where_snapshot [OF assms] by (simp add: cleanup_tick_split)

text \<open>A set of states that neither a sweep nor a cleanup leaves.\<close>

definition sinks :: "State set option \<Rightarrow> bool" where
  "sinks S \<longleftrightarrow> (\<forall>T. S = Some T \<longrightarrow> StateLeft \<in> T \<and> (StateInactive \<in> T \<or> T \<subseteq> {StateLeft}))"

lemma stands_map:
  assumes "stands t S i r" "reg_peers r' i = map_option f (reg_peers r i)"
    "\<And>p. rec_LastSeen (f p) = rec_LastSeen p"
    "\<And>p T. S = Some T \<Longrightarrow> rec_State p \<in> T \<Longrightarrow> rec_State (f p) \<in> T"
  shows "stands t S i r'"
  using assms(1,2) by (auto simp: stands_def assms(3) intro: assms(4))

lemma stands_step:
  assumes "node_step ev s s'" "reg_wf (fst s)" "silent_about i ev" "sinks S" "stands t S i (fst s)"
  shows "stands t S i (fst s')"
  using assms(1)
proof (cases rule: node_step.cases)
  case (ns_touch now j r p)
  with assms(3,5) show ?thesis by (auto simp: stands_def reg)
next
  case (ns_upsert ks r ks' now rec p)
  with assms(2,3,5) show ?thesis by (auto intro!: stands_upsert)
next
  case (ns_leave j r p)
  with assms(5) show ?thesis by (auto simp: stands_def Leave_peers)
next
  case (ns_sweep ks r now p)
  with assms(2) have at: "reg_peers (fst s') i = map_option
     (\<lambda>p. if overdue now NewManager (reg_self r) p then p\<lparr>rec_State := StateInactive\<rparr> else p) (reg_peers r i)"
    by (simp add: Sweep_at)
  from assms(5) ns_sweep(2) have "stands t S i r" by simp
  then show ?thesis by (rule stands_map [OF _ at]) (use assms(4) in \<open>auto simp: sinks_def overdue_def\<close>)
next
  case (ns_cleanup ks r ord now p)
  with assms(2) have at: "reg_peers (fst s') i = map_option
     (\<lambda>p. if expired now (reg_self r) p then p\<lparr>rec_State := StateLeft\<rparr> else p) (reg_peers r i)"
    by (simp add: cleanup_at)
  from assms(5) ns_cleanup(2) have "stands t S i r" by simp
  then show ?thesis by (rule stands_map [OF _ at]) (use assms(4) in \<open>auto simp: sinks_def expired_def\<close>)
qed (use assms(5) in auto)

lemma time_sub_late: "d < 2 ^ 63 - 1 \<Longrightarrow> 0 \<le> d \<Longrightarrow> u \<le> t \<Longrightarrow> t + d < now \<Longrightarrow> d < time_sub now u"
  by (simp add: time_sub_gt)

lemma rec_State_same: "p = p\<lparr>rec_State := s\<rparr> \<Longrightarrow> rec_State p = s"
  by (metis Record.select_convs(4) Record.surjective Record.update_convs(4))

text \<open>One sweep after the timeout, then one cleanup after the stale timeout.\<close>

lemma stands_sweep:
  assumes "node_step (Ev_sweep now) s s'" "reg_wf (fst s)" "i \<noteq> reg_self (fst s)"
    "t + 9 * second < now" "stands t None i (fst s)"
  shows "stands t (Some {StateInactive, StateLeft}) i (fst s')"
  using assms(1)
proof (cases rule: node_step.cases)
  case (ns_sweep ks r p)
  have late: "overdue now NewManager (reg_self r) q \<or> rec_State q = StateLeft" if "reg_peers r i = Some q" for q
  proof -
    have "rec_ID q = i" "rec_LastSeen q \<le> t"
      using that assms(2,5) ns_sweep by (auto simp: reg_wf_def stands_def)
    then show ?thesis using assms(3,4) ns_sweep
        time_sub_late [of "9 * second" "rec_LastSeen q" t now]
      by (auto simp: overdue_def NewManager_def second_def DefaultHeartbeatSec_def)
  qed
  have at: "reg_peers (fst s') i = map_option
     (\<lambda>p. if overdue now NewManager (reg_self r) p then p\<lparr>rec_State := StateInactive\<rparr> else p) (reg_peers r i)"
    using ns_sweep assms(2) by (simp add: Sweep_at)
  show ?thesis using late assms(5) ns_sweep(1) by (auto simp: stands_def at dest: rec_State_same)
qed

lemma stands_cleanup:
  assumes "node_step (Ev_cleanup now) s s'" "reg_wf (fst s)" "i \<noteq> reg_self (fst s)"
    "t + 60 * second < now" "stands t (Some {StateInactive, StateLeft}) i (fst s)"
  shows "stands t (Some {StateLeft}) i (fst s')"
  using assms(1)
proof (cases rule: node_step.cases)
  case (ns_cleanup ks r ord p)
  have late: "expired now (reg_self r) q \<or> rec_State q = StateLeft" if "reg_peers r i = Some q" for q
  proof -
    have "rec_ID q = i" "rec_LastSeen q \<le> t" "rec_State q \<in> {StateInactive, StateLeft}"
      using that assms(2,5) ns_cleanup by (auto simp: reg_wf_def stands_def)
    then show ?thesis using assms(3,4) ns_cleanup
        time_sub_late [of "60 * second" "rec_LastSeen q" t now]
      by (auto simp: expired_def staleTimeout_def second_def)
  qed
  have at: "reg_peers (fst s') i = map_option
     (\<lambda>p. if expired now (reg_self r) p then p\<lparr>rec_State := StateLeft\<rparr> else p) (reg_peers r i)"
    using ns_cleanup assms(2) by (simp add: cleanup_at)
  show ?thesis using late assms(5) ns_cleanup(1) by (auto simp: stands_def at dest: rec_State_same)
qed

text \<open>A peer recorded as \<open>Left\<close> has no provider records.\<close>

definition purged :: "string \<Rightarrow> Registry \<times> ProviderRecords \<Rightarrow> bool" where
  "purged i s \<longleftrightarrow> (\<forall>q. reg_peers (fst s) i = Some q \<longrightarrow> rec_State q = StateLeft \<longrightarrow>
     (\<forall>c e. (c, i, e) \<notin> prov_abs (snd s)))"

lemma Upsert_other:
  assumes "rec_ID rec \<noteq> i"
  shows "reg_peers (snd (Upsert ks ks' now (Some rec) r)) i \<in> {None, reg_peers r i}"
proof (cases "rec_ID rec = ''''")
  case False
  have prune: "reg_peers (prune_stale ks rec r) i \<in> {None, reg_peers r i}"
    by (rule prune_stale_cases [of ks rec r]) auto
  show ?thesis
    by (rule Upsert_cases [OF False, of r ks ks' now]) (use prune assms in auto)
qed simp

lemma purged_step:
  assumes "node_step ev s s'" "reg_wf (fst s)" "prov_wf (snd s)" "silent_about i ev" "purged i s"
  shows "purged i s'"
  using assms(1)
proof (cases rule: node_step.cases)
  case (ns_upsert ks r ks' now rec p)
  with assms(4) have "reg_peers (fst s') i \<in> {None, reg_peers r i}"
    using Upsert_other [of rec i ks ks' now r] by simp
  with ns_upsert assms(5) show ?thesis by (auto simp: purged_def)
next
  case (ns_announce c e r p)
  with assms(4,5) show ?thesis
    by (cases "ep_PeerId e = ''''") (auto simp: purged_def prov_abs_Add)
next
  case (ns_sweep ks r now p)
  with assms(2) have at: "reg_peers (fst s') i = map_option
     (\<lambda>p. if overdue now NewManager (reg_self r) p then p\<lparr>rec_State := StateInactive\<rparr> else p) (reg_peers r i)"
    by (simp add: Sweep_at)
  with ns_sweep assms(5) show ?thesis by (auto simp: purged_def)
next
  case (ns_cleanup ks r ord now p)
  note spec = cleanup_tick_effect [OF _ _ ns_cleanup(4) ns_cleanup(5), where provs = p and now = now]
  show ?thesis using assms(2,3,5) ns_cleanup(1-3) spec
    by (auto simp: purged_def split: if_splits)
qed (use assms(4,5) in \<open>auto simp: purged_def reg Leave_peers\<close>)

lemma silent_run:
  assumes "trace node_step s es s'" "reg_wf (fst s) \<and> prov_wf (snd s)" "\<forall>ev\<in>set es. silent_about i ev"
  shows "(reg_wf (fst s') \<and> prov_wf (snd s')) \<and> reg_self (fst s') = reg_self (fst s) \<and>
      (purged i s \<longrightarrow> purged i s') \<and> (sinks S \<longrightarrow> stands t S i (fst s) \<longrightarrow> stands t S i (fst s'))"
  using assms(1)
proof (rule trace_invariant)
    fix ev s1 s2 assume ev: "ev \<in> set es" and st: "node_step ev s1 s2" and
      inv: "(reg_wf (fst s1) \<and> prov_wf (snd s1)) \<and> reg_self (fst s1) = reg_self (fst s) \<and>
      (purged i s \<longrightarrow> purged i s1) \<and> (sinks S \<longrightarrow> stands t S i (fst s) \<longrightarrow> stands t S i (fst s1))"
    then show "(reg_wf (fst s2) \<and> prov_wf (snd s2)) \<and> reg_self (fst s2) = reg_self (fst s) \<and>
      (purged i s \<longrightarrow> purged i s2) \<and> (sinks S \<longrightarrow> stands t S i (fst s) \<longrightarrow> stands t S i (fst s2))"
      using assms(3) ev inv node_step_wf [OF st] node_step_self [OF st] purged_step [OF st]
        stands_step [OF st] by simp
qed (use assms(2) in simp)


lemma Sweep_dom: "dom (reg_peers (Sweep ks now m r)) = dom (reg_peers r)"
  by (auto simp: Sweep_mark_where mark_where_peers split: if_splits)


end
