(* ===== verification/GrpcService.thy ===== *)
theory GrpcService
  imports FileTransfer Scheduler
begin

text \<open>
  The RPC handlers of a node: \<open>internal/coordinator/grpc_service.go\<close>. A handler takes the
  request, nil as \<open>None\<close>, and gives the response, or an error text where the Go method
  returns a non-nil error, together with the node after it. \<open>docs/ARCHITECTURE.md\<close> lists what
  each is for.

  The abstract node of \<open>Scheduler\<close> is its registry and provider records; every handler is a
  run of that machine (\<open>serve_refines\<close>), with the events \<open>rpc_events\<close> names.
\<close>

section \<open>The remaining messages\<close>

record LeaveNetworkRequest =
  ln_PeerId :: string

record LeaveNetworkResponse =
  lnr_Ok :: bool

record HeartbeatRequest =
  hb_PeerId :: string

record HeartbeatResponse =
  hbr_Ok :: bool

record AddProviderRequest =
  ap_Cid :: string
  ap_Provider :: "PeerEndpoint option"

record AddProviderResponse =
  apr_Ok :: bool

section \<open>Handlers\<close>

definition svc_Ping ::
  "('c, 'e) runtime \<Rightarrow> PingRequest option \<Rightarrow> ('s, 'c, 'e) node \<Rightarrow>
   (error + PingResponse) \<times> ('s, 'c, 'e) node" where
  "svc_Ping rt req s =
     (case s of (h, d, e) \<Rightarrow>
        let h' = (case req of
                    None \<Rightarrow> h
                  | Some q \<Rightarrow>
                      if ping_PeerId q \<noteq> [] then h\<lparr>h_reg := Touch (rt_now rt e) (ping_PeerId q) (h_reg h)\<rparr> else h)
        in (Inr \<lparr>pong_Ok = True\<rparr>, (h', d, e)))"

definition svc_StoreBlock ::
  "'s storage \<Rightarrow> StoreBlockRequest option \<Rightarrow> ('s, 'c, 'e) node \<Rightarrow>
   (error + StoreBlockResponse) \<times> ('s, 'c, 'e) node" where
  "svc_StoreBlock S req s =
     (case s of (h, d, e) \<Rightarrow>
        (case req of
           None \<Rightarrow> (Inr \<lparr>sbr_Ok = False, sbr_ErrorMessage = ''missing cid''\<rparr>, s)
         | Some q \<Rightarrow>
             if sb_Cid q = [] then (Inr \<lparr>sbr_Ok = False, sbr_ErrorMessage = ''missing cid''\<rparr>, s)
             else case Validate S (sb_Cid q) of
               Some err \<Rightarrow> (Inr \<lparr>sbr_Ok = False, sbr_ErrorMessage = err\<rparr>, s)
             | None \<Rightarrow>
                 (case store_Put S (h_store h) (sb_Data q) d of
                    (Inl err, d') \<Rightarrow> (Inr \<lparr>sbr_Ok = False, sbr_ErrorMessage = err\<rparr>, (h, d', e))
                  | (Inr _, d') \<Rightarrow>
                      (Inr \<lparr>sbr_Ok = True, sbr_ErrorMessage = []\<rparr>,
                       (h\<lparr>h_providers := prov_Add (sb_Cid q) (Some (SelfEndpoint h)) (h_providers h)\<rparr>, d', e)))))"

definition svc_GetBlock ::
  "'s storage \<Rightarrow> GetBlockRequest option \<Rightarrow> ('s, 'c, 'e) node \<Rightarrow>
   (error + GetBlockResponse) \<times> ('s, 'c, 'e) node" where
  "svc_GetBlock S req s =
     (case s of (h, d, e) \<Rightarrow>
        (case req of
           None \<Rightarrow> (Inl ''rpc error: code = InvalidArgument desc = missing cid'', s)
         | Some q \<Rightarrow>
             if gb_Cid q = [] then (Inl ''rpc error: code = InvalidArgument desc = missing cid'', s)
             else case store_Get S (h_store h) (gb_Cid q) d of
               Inl err \<Rightarrow> (Inr \<lparr>gbr_Data = [], gbr_ErrorMessage = err\<rparr>, s)
             | Inr b \<Rightarrow> (Inr \<lparr>gbr_Data = b, gbr_ErrorMessage = []\<rparr>, s)))"

definition svc_FindProvider ::
  "('c, 'e) runtime \<Rightarrow> FindProviderRequest option \<Rightarrow> ('s, 'c, 'e) node \<Rightarrow>
   (error + FindProviderResponse) \<times> ('s, 'c, 'e) node" where
  "svc_FindProvider rt req s =
     (case s of (h, d, e) \<Rightarrow>
        (case req of
           None \<Rightarrow> (Inr \<lparr>fpr_Providers = []\<rparr>, s)
         | Some q \<Rightarrow>
             if fp_Cid q = [] then (Inr \<lparr>fpr_Providers = []\<rparr>, s)
             else case rt_range rt (case h_providers h (fp_Cid q) of None \<Rightarrow> {} | Some mp \<Rightarrow> dom mp) e of
               (ks, e') \<Rightarrow>
                 (Inr \<lparr>fpr_Providers = map Some (prov_Get ks (fp_Cid q) (h_providers h))\<rparr>, (h, d, e'))))"

definition svc_JoinNetwork ::
  "('c, 'e) runtime \<Rightarrow> JoinNetworkRequest option \<Rightarrow> ('s, 'c, 'e) node \<Rightarrow>
   (error + JoinNetworkResponse) \<times> ('s, 'c, 'e) node" where
  "svc_JoinNetwork rt req s =
     (case s of (h, d, e) \<Rightarrow>
        (case (case req of None \<Rightarrow> None | Some q \<Rightarrow> jn_Self q) of
           None \<Rightarrow>
             (Inr \<lparr>jnr_KnownPeers = [], jnr_Accepted = False, jnr_ErrorMessage = ''missing self''\<rparr>, s)
         | Some self \<Rightarrow>
             let rec = \<lparr>rec_ID = ep_PeerId self, rec_GrpcAddr = ep_GrpcAddr self,
                        rec_HttpAddr = ep_HttpAddr self, rec_State = StateActive,
                        rec_LastSeen = rt_now rt e, rec_JoinedAt = 0\<rparr>
             in case draw_Upsert rt rec (h_reg h) e of
                  (False, reg, e1) \<Rightarrow>
                    (Inr \<lparr>jnr_KnownPeers = [], jnr_Accepted = False, jnr_ErrorMessage = ''network full''\<rparr>,
                     (h\<lparr>h_reg := reg\<rparr>, d, e1))
                | (True, reg, e1) \<Rightarrow>
                    (case draw_Snapshot rt reg e1 of
                       (ps, e2) \<Rightarrow>
                         (Inr \<lparr>jnr_KnownPeers = map (\<lambda>p. Some \<lparr>ep_PeerId = rec_ID p,
                                  ep_GrpcAddr = rec_GrpcAddr p, ep_HttpAddr = rec_HttpAddr p\<rparr>) ps,
                               jnr_Accepted = True, jnr_ErrorMessage = []\<rparr>,
                          (h\<lparr>h_reg := reg\<rparr>, d, e2)))))"

definition svc_LeaveNetwork ::
  "LeaveNetworkRequest option \<Rightarrow> ('s, 'c, 'e) node \<Rightarrow>
   (error + LeaveNetworkResponse) \<times> ('s, 'c, 'e) node" where
  "svc_LeaveNetwork req s =
     (case s of (h, d, e) \<Rightarrow>
        (case req of
           None \<Rightarrow> (Inr \<lparr>lnr_Ok = False\<rparr>, s)
         | Some q \<Rightarrow>
             if ln_PeerId q = [] then (Inr \<lparr>lnr_Ok = False\<rparr>, s)
             else (Inr \<lparr>lnr_Ok = True\<rparr>, (h\<lparr>h_reg := Leave (ln_PeerId q) (h_reg h)\<rparr>, d, e))))"

definition svc_Heartbeat ::
  "('c, 'e) runtime \<Rightarrow> HeartbeatRequest option \<Rightarrow> ('s, 'c, 'e) node \<Rightarrow>
   (error + HeartbeatResponse) \<times> ('s, 'c, 'e) node" where
  "svc_Heartbeat rt req s =
     (case s of (h, d, e) \<Rightarrow>
        let h' = (case req of
                    None \<Rightarrow> h
                  | Some q \<Rightarrow>
                      if hb_PeerId q \<noteq> [] then h\<lparr>h_reg := Touch (rt_now rt e) (hb_PeerId q) (h_reg h)\<rparr> else h)
        in (Inr \<lparr>hbr_Ok = True\<rparr>, (h', d, e)))"

definition svc_AddProvider ::
  "AddProviderRequest option \<Rightarrow> ('s, 'c, 'e) node \<Rightarrow>
   (error + AddProviderResponse) \<times> ('s, 'c, 'e) node" where
  "svc_AddProvider req s =
     (case s of (h, d, e) \<Rightarrow>
        (case req of
           None \<Rightarrow> (Inr \<lparr>apr_Ok = False\<rparr>, s)
         | Some q \<Rightarrow>
             if ap_Cid q = [] \<or> ap_Provider q = None then (Inr \<lparr>apr_Ok = False\<rparr>, s)
             else (Inr \<lparr>apr_Ok = True\<rparr>,
                   (h\<lparr>h_providers := prov_Add (ap_Cid q) (ap_Provider q) (h_providers h)\<rparr>, d, e))))"

section \<open>The service as one step function\<close>

datatype rpc =
    CallPing "PingRequest option"
  | CallStoreBlock "StoreBlockRequest option"
  | CallGetBlock "GetBlockRequest option"
  | CallFindProvider "FindProviderRequest option"
  | CallJoinNetwork "JoinNetworkRequest option"
  | CallLeaveNetwork "LeaveNetworkRequest option"
  | CallHeartbeat "HeartbeatRequest option"
  | CallAddProvider "AddProviderRequest option"

text \<open>The node after a call has been served.\<close>

fun serve :: "'s storage \<Rightarrow> ('c, 'e) runtime \<Rightarrow> rpc \<Rightarrow> ('s, 'c, 'e) node \<Rightarrow> ('s, 'c, 'e) node" where
  "serve S rt (CallPing q) s = snd (svc_Ping rt q s)"
| "serve S rt (CallStoreBlock q) s = snd (svc_StoreBlock S q s)"
| "serve S rt (CallGetBlock q) s = snd (svc_GetBlock S q s)"
| "serve S rt (CallFindProvider q) s = snd (svc_FindProvider rt q s)"
| "serve S rt (CallJoinNetwork q) s = snd (svc_JoinNetwork rt q s)"
| "serve S rt (CallLeaveNetwork q) s = snd (svc_LeaveNetwork q s)"
| "serve S rt (CallHeartbeat q) s = snd (svc_Heartbeat rt q s)"
| "serve S rt (CallAddProvider q) s = snd (svc_AddProvider q s)"

section \<open>The handlers are steps of the abstract node\<close>

definition node_of :: "('s, 'c, 'e) node \<Rightarrow> Registry \<times> ProviderRecords" where
  "node_of s = (h_reg (fst s), h_providers (fst s))"

text \<open>The events a call can cause on a node with the given endpoint.\<close>

fun caused_by :: "PeerEndpoint \<Rightarrow> rpc \<Rightarrow> node_event \<Rightarrow> bool" where
  "caused_by self (CallPing (Some q)) (Ev_touch now i) \<longleftrightarrow> i = ping_PeerId q \<and> i \<noteq> []"
| "caused_by self (CallHeartbeat (Some q)) (Ev_touch now i) \<longleftrightarrow> i = hb_PeerId q \<and> i \<noteq> []"
| "caused_by self (CallStoreBlock (Some q)) (Ev_announce c ep) \<longleftrightarrow> c = sb_Cid q \<and> ep = self"
| "caused_by self (CallAddProvider (Some q)) (Ev_announce c ep) \<longleftrightarrow> c = ap_Cid q \<and> ap_Provider q = Some ep"
| "caused_by self (CallLeaveNetwork (Some q)) (Ev_leave i) \<longleftrightarrow> i = ln_PeerId q \<and> i \<noteq> []"
| "caused_by self (CallJoinNetwork (Some q)) (Ev_upsert now rec) \<longleftrightarrow>
     (\<exists>ep. jn_Self q = Some ep \<and> rec_ID rec = ep_PeerId ep \<and> rec_GrpcAddr rec = ep_GrpcAddr ep \<and>
        rec_HttpAddr rec = ep_HttpAddr ep \<and> rec_State rec = StateActive)"
| "caused_by self c ev \<longleftrightarrow> False"

lemma trace_one: "node_step ev s t \<Longrightarrow> trace node_step s [ev] t"
  by (simp add: trace_single)

lemma draw_Upsert_step:
  assumes "runtime_ok rt" "reg_wf r" "draw_Upsert rt rec r e = (ok, r', e')"
  shows "\<exists>now. node_step (Ev_upsert now rec) (r, p) (r', p)"
proof -
  obtain ks e1 where ks: "rt_range rt (dom (reg_peers r)) e = (ks, e1)" by (rule prod.exhaust)
  obtain ks' e2 where ks': "rt_range rt (dom (reg_peers r)) e1 = (ks', e2)" by (rule prod.exhaust)
  have o: "is_order ks (reg_peers r)" "is_order ks' (reg_peers r)"
    using runtime_order [OF assms(1) reg_wfD(1) [OF assms(2)]] ks ks' by blast+
  have "r' = snd (Upsert ks ks' (rt_now rt e2) (Some rec) r)"
    using assms(3) ks ks' by (auto simp: draw_Upsert_def split: prod.splits)
  with ns_upsert [OF o, of "rt_now rt e2" rec p] show ?thesis by blast
qed

definition at_most_one :: "(node_event \<Rightarrow> bool) \<Rightarrow> Registry \<times> ProviderRecords \<Rightarrow> Registry \<times> ProviderRecords \<Rightarrow> bool" where
  "at_most_one P a b \<longleftrightarrow> b = a \<or> (\<exists>ev. P ev \<and> node_step ev a b)"

lemma at_most_oneI: "P ev \<Longrightarrow> node_step ev a b \<Longrightarrow> at_most_one P a b"
  by (auto simp: at_most_one_def)

lemma at_most_one_refl [simp]: "at_most_one P a a"
  by (simp add: at_most_one_def)

lemma serve_step:
  assumes "runtime_ok rt" "reg_wf (h_reg (fst s))"
  shows "at_most_one (caused_by (SelfEndpoint (fst s)) c) (node_of s) (node_of (serve S rt c s))"
proof -
  obtain h d e where s: "s = (h, d, e)" by (rule prod_cases3)
  have n: "node_of (h, d, e) = (h_reg h, h_providers h)" by (simp add: node_of_def)
  show ?thesis
  proof (cases c)
    case (CallPing q)
    show ?thesis
    proof (cases "\<exists>x. q = Some x \<and> ping_PeerId x \<noteq> []")
      case True
      then obtain x where x: "q = Some x" "ping_PeerId x \<noteq> []" by blast
      have "node_step (Ev_touch (rt_now rt e) (ping_PeerId x)) (node_of s) (node_of (serve S rt c s))"
        using x by (simp add: s CallPing svc_Ping_def node_of_def ns_touch)
      with x CallPing show ?thesis by (intro at_most_oneI) auto
    next
      case False
      then show ?thesis by (auto simp: s CallPing svc_Ping_def node_of_def at_most_one_def split: option.split)
    qed
  next
    case (CallHeartbeat q)
    show ?thesis
    proof (cases "\<exists>x. q = Some x \<and> hb_PeerId x \<noteq> []")
      case True
      then obtain x where x: "q = Some x" "hb_PeerId x \<noteq> []" by blast
      have "node_step (Ev_touch (rt_now rt e) (hb_PeerId x)) (node_of s) (node_of (serve S rt c s))"
        using x by (simp add: s CallHeartbeat svc_Heartbeat_def node_of_def ns_touch)
      with x CallHeartbeat show ?thesis by (intro at_most_oneI) auto
    next
      case False
      then show ?thesis by (auto simp: s CallHeartbeat svc_Heartbeat_def node_of_def at_most_one_def split: option.split)
    qed
  next
    case (CallStoreBlock q)
    have "node_of (serve S rt c s) = node_of s \<or>
      (\<exists>x. q = Some x \<and> node_of (serve S rt c s) = (h_reg h, prov_Add (sb_Cid x) (Some (SelfEndpoint h)) (h_providers h)))"
      by (auto simp: s CallStoreBlock svc_StoreBlock_def node_of_def split: option.split prod.split sum.split)
    then show ?thesis
    proof (elim disjE exE conjE)
      assume "node_of (serve S rt c s) = node_of s"
      then show ?thesis by simp
    next
      fix x assume x: "q = Some x"
      assume "node_of (serve S rt c s) = (h_reg h, prov_Add (sb_Cid x) (Some (SelfEndpoint h)) (h_providers h))"
      then show ?thesis
        unfolding s n fst_conv by (simp only:) (rule at_most_oneI [OF _ ns_announce], simp add: x CallStoreBlock)
    qed
  next
    case (CallAddProvider q)
    have "node_of (serve S rt c s) = node_of s \<or>
      (\<exists>x ep. q = Some x \<and> ap_Provider x = Some ep \<and>
         node_of (serve S rt c s) = (h_reg h, prov_Add (ap_Cid x) (Some ep) (h_providers h)))"
      by (auto simp: s CallAddProvider svc_AddProvider_def node_of_def split: option.split)
    then show ?thesis
    proof (elim disjE exE conjE)
      assume "node_of (serve S rt c s) = node_of s"
      then show ?thesis by simp
    next
      fix x ep assume x: "q = Some x" "ap_Provider x = Some ep"
      assume "node_of (serve S rt c s) = (h_reg h, prov_Add (ap_Cid x) (Some ep) (h_providers h))"
      then show ?thesis
        unfolding s n fst_conv by (simp only:) (rule at_most_oneI [OF _ ns_announce], simp add: x CallAddProvider)
    qed
  next
    case (CallLeaveNetwork q)
    have "node_of (serve S rt c s) = node_of s \<or>
      (\<exists>x. q = Some x \<and> ln_PeerId x \<noteq> [] \<and> node_of (serve S rt c s) = (Leave (ln_PeerId x) (h_reg h), h_providers h))"
      by (auto simp: s CallLeaveNetwork svc_LeaveNetwork_def node_of_def split: option.split)
    then show ?thesis
    proof (elim disjE exE conjE)
      assume "node_of (serve S rt c s) = node_of s"
      then show ?thesis by simp
    next
      fix x assume x: "q = Some x" "ln_PeerId x \<noteq> []"
      assume "node_of (serve S rt c s) = (Leave (ln_PeerId x) (h_reg h), h_providers h)"
      then show ?thesis
        unfolding s n fst_conv by (simp only:) (rule at_most_oneI [OF _ ns_leave], simp add: x CallLeaveNetwork)
    qed
  next
    case (CallJoinNetwork q)
    show ?thesis
    proof (cases "\<exists>x ep. q = Some x \<and> jn_Self x = Some ep")
      case True
      then obtain x ep where x: "q = Some x" "jn_Self x = Some ep" by blast
      let ?rec = "\<lparr>rec_ID = ep_PeerId ep, rec_GrpcAddr = ep_GrpcAddr ep,
                        rec_HttpAddr = ep_HttpAddr ep, rec_State = StateActive,
                        rec_LastSeen = rt_now rt e, rec_JoinedAt = 0\<rparr>"
      obtain ok reg e1 where u: "draw_Upsert rt ?rec (h_reg h) e = (ok, reg, e1)" by (rule prod_cases3)
      from draw_Upsert_step [OF assms(1) _ u, of "h_providers h"] assms(2) s obtain now where
        "node_step (Ev_upsert now ?rec) (h_reg h, h_providers h) (reg, h_providers h)" by auto
      moreover have "node_of (serve S rt c s) = (reg, h_providers h)"
        using x u by (auto simp: s CallJoinNetwork svc_JoinNetwork_def node_of_def split: bool.split prod.split)
      ultimately show ?thesis using x
        by (intro at_most_oneI [of _ "Ev_upsert now ?rec"]) (auto simp: s CallJoinNetwork n simp del: serve.simps)
    next
      case False
      then have "(case q of None \<Rightarrow> None | Some q \<Rightarrow> jn_Self q) = None" by (auto split: option.split)
      then show ?thesis by (simp add: s CallJoinNetwork svc_JoinNetwork_def node_of_def at_most_one_def)
    qed
  next
    case (CallGetBlock q)
    then show ?thesis
      by (auto simp: s svc_GetBlock_def node_of_def at_most_one_def split: option.split sum.split)
  next
    case (CallFindProvider q)
    then show ?thesis
      by (auto simp: s svc_FindProvider_def node_of_def at_most_one_def split: option.split prod.split)
  qed
qed

section \<open>What the calls do\<close>

lemma draw_Upsert_wf:
  assumes "reg_wf r" "draw_Upsert rt rec r e = (ok, r', e')"
  shows "reg_wf r' \<and> reg_self r' = reg_self r \<and> reg_max r' = reg_max r"
  using assms reg_wf_Upsert [OF assms(1)]
  by (auto simp: draw_Upsert_def split: prod.splits) (metis Upsert_frame snd_conv)+

lemma draw_Upsert_stored:
  assumes "reg_wf r" "draw_Upsert rt rec r e = (True, r', e')"
  obtains q where "reg_peers r' (rec_ID rec) = Some q" "rec_GrpcAddr q = rec_GrpcAddr rec"
    "rec_HttpAddr q = rec_HttpAddr rec" "rec_LastSeen q = rec_LastSeen rec"
    "rec_State rec \<noteq> '''' \<longrightarrow> rec_State q = rec_State rec"
proof -
  obtain ks e1 where ks: "rt_range rt (dom (reg_peers r)) e = (ks, e1)" by (rule prod.exhaust)
  obtain ks' e2 where ks': "rt_range rt (dom (reg_peers r)) e1 = (ks', e2)" by (rule prod.exhaust)
  let ?u = "Upsert ks ks' (rt_now rt e2) (Some rec) r"
  have acc: "fst ?u" "r' = snd ?u" using assms(2) ks ks' by (auto simp: draw_Upsert_def split: prod.splits)
  let ?v = "upsert_stored (rt_now rt e2) rec (reg_peers r (rec_ID rec))"
  have "reg_peers r' (rec_ID rec) = Some ?v"
    by (rule Upsert_accepted_shape [OF assms(1) acc(1)]) (simp_all add: acc(2))
  then show thesis by (rule that) (simp_all add: upsert_stored_def split: option.split)
qed

lemma draw_Upsert_refused:
  assumes "rec_ID rec \<noteq> ''''" "draw_Upsert rt rec r e = (False, r', e')"
  shows "reg_peers r' (rec_ID rec) = None"
proof -
  obtain ks e1 where ks: "rt_range rt (dom (reg_peers r)) e = (ks, e1)" by (rule prod.exhaust)
  obtain ks' e2 where ks': "rt_range rt (dom (reg_peers r)) e1 = (ks', e2)" by (rule prod.exhaust)
  have u: "Upsert ks ks' (rt_now rt e2) (Some rec) r = (False, r')"
    using assms(2) ks ks' by (auto simp: draw_Upsert_def split: prod.splits)
  show ?thesis
    by (rule Upsert_cases [OF assms(1), of r ks ks' "rt_now rt e2"]) (use u in auto)
qed

lemma draw_Snapshot_set:
  assumes "runtime_ok rt" "reg_wf r" "draw_Snapshot rt r e = (ps, e')"
  shows "set ps = ran (reg_peers r)" "length ps = card (dom (reg_peers r))"
  using assms runtime_order [OF assms(1) reg_wfD(1) [OF assms(2)]]
  by (auto simp: draw_Snapshot_def Snapshot_def set_range_values_order length_range_values split: prod.splits)

text \<open>The endpoint of a record.\<close>

definition endpoint_of :: "Record \<Rightarrow> PeerEndpoint" where
  "endpoint_of p = \<lparr>ep_PeerId = rec_ID p, ep_GrpcAddr = rec_GrpcAddr p, ep_HttpAddr = rec_HttpAddr p\<rparr>"

text \<open>
  Joining: a peer that joins with an id is either recorded as active under its id with the
  addresses it gave, and then told every peer of the registry, itself included, each once; or
  it is refused as the network is full, and then it is not in the registry. The registry
  keeps within its bound, and nothing else of the node changes.
\<close>

theorem JoinNetwork_spec:
  assumes "runtime_ok rt" "reg_wf (h_reg h)" "ep_PeerId ep \<noteq> ''''"
  shows "case svc_JoinNetwork rt (Some \<lparr>jn_Self = Some ep\<rparr>) (h, d, e) of
           (Inr resp, (h', d', e')) \<Rightarrow>
             reg_wf (h_reg h') \<and> reg_max (h_reg h') = reg_max (h_reg h) \<and>
             h' = h\<lparr>h_reg := h_reg h'\<rparr> \<and> d' = d \<and>
             (if jnr_Accepted resp
              then (\<exists>q. reg_peers (h_reg h') (ep_PeerId ep) = Some q \<and> endpoint_of q = ep \<and>
                      rec_State q = StateActive) \<and>
                   set (jnr_KnownPeers resp) = (Some \<circ> endpoint_of) ` ran (reg_peers (h_reg h')) \<and>
                   length (jnr_KnownPeers resp) = card (dom (reg_peers (h_reg h')))
              else jnr_ErrorMessage resp = ''network full'' \<and>
                   reg_peers (h_reg h') (ep_PeerId ep) = None)
         | (Inl _, _) \<Rightarrow> False"
proof -
  let ?rec = "\<lparr>rec_ID = ep_PeerId ep, rec_GrpcAddr = ep_GrpcAddr ep, rec_HttpAddr = ep_HttpAddr ep,
               rec_State = StateActive, rec_LastSeen = rt_now rt e, rec_JoinedAt = 0\<rparr>"
  obtain ok reg e1 where u: "draw_Upsert rt ?rec (h_reg h) e = (ok, reg, e1)" by (rule prod_cases3)
  note wf = draw_Upsert_wf [OF assms(2) u]
  show ?thesis
  proof (cases ok)
    case True
    with u obtain q where q: "reg_peers reg (ep_PeerId ep) = Some q" "rec_GrpcAddr q = ep_GrpcAddr ep"
        "rec_HttpAddr q = ep_HttpAddr ep" "rec_State q = StateActive"
      by (auto elim: draw_Upsert_stored [OF assms(2)])
    then have "endpoint_of q = ep" using reg_wfD(2) [of reg] wf by (simp add: endpoint_of_def)
    obtain ps e2 where ps: "draw_Snapshot rt reg e1 = (ps, e2)" by (rule prod.exhaust)
    note sn = draw_Snapshot_set [OF assms(1) _ ps] wf
    show ?thesis
      using u True ps q \<open>endpoint_of q = ep\<close> sn
      by (simp add: svc_JoinNetwork_def) (simp add: endpoint_of_def [abs_def] o_def)
  next
    case False
    with u assms(3) have "reg_peers reg (ep_PeerId ep) = None"
      using draw_Upsert_refused [of ?rec rt "h_reg h" e reg e1] by simp
    with u False wf show ?thesis by (simp add: svc_JoinNetwork_def)
  qed
qed

text \<open>
  C11. Every call is a step of the abstract node. Serving any request, well-formed or not, with
  nil pointers or empty fields, keeps the registry and the provider records well formed and
  the store free of blocks under a wrong id, changes neither the identity of the node nor
  where its blocks are, and on the registry and the records is at most one event, of the kind
  the request asks for; so what holds of every run of the node's machine holds under any
  traffic.
\<close>

theorem serve_refines:
  assumes "storage_ok S" "runtime_ok rt" "reg_wf (h_reg (fst s))" "prov_wf (h_providers (fst s))"
    and "view_sound S (view S (h_store (fst s)) (fst (snd s)))" "serve S rt c s = s'"
  shows "at_most_one (caused_by (SelfEndpoint (fst s)) c) (node_of s) (node_of s') \<and>
         reg_wf (h_reg (fst s')) \<and> prov_wf (h_providers (fst s')) \<and>
         view_sound S (view S (h_store (fst s')) (fst (snd s'))) \<and>
         SelfEndpoint (fst s') = SelfEndpoint (fst s) \<and> h_store (fst s') = h_store (fst s)"
proof -
  have step: "at_most_one (caused_by (SelfEndpoint (fst s)) c) (node_of s) (node_of s')"
    using serve_step [OF assms(2,3)] assms(6) by blast
  then have "reg_wf (fst (node_of s')) \<and> prov_wf (snd (node_of s'))"
    using node_step_wf assms(3,4) by (fastforce simp: at_most_one_def node_of_def)
  then have wf: "reg_wf (h_reg (fst s')) \<and> prov_wf (h_providers (fst s'))" by (simp add: node_of_def)
  obtain h d e where s: "s = (h, d, e)" by (rule prod_cases3)
  have id: "h_SelfID (fst s') = h_SelfID h \<and> h_GrpcAddr (fst s') = h_GrpcAddr h \<and>
      h_HTTPAddr (fst s') = h_HTTPAddr h \<and> h_store (fst s') = h_store h"
    using assms(6) s
    by (cases c) (auto simp: svc_Ping_def svc_StoreBlock_def svc_GetBlock_def svc_FindProvider_def
        svc_JoinNetwork_def svc_LeaveNetwork_def svc_Heartbeat_def svc_AddProvider_def Let_def
        split: option.splits sum.splits prod.splits bool.splits)
  have "view S (h_store h) (fst (snd s')) = view S (h_store h) d \<or>
      (\<exists>b. view S (h_store h) (fst (snd s')) = (view S (h_store h) d)(NewCID S b \<mapsto> b))"
  proof (cases "\<exists>q. c = CallStoreBlock (Some q)")
    case True
    then obtain q where q: "c = CallStoreBlock (Some q)" by blast
    obtain p d1 where p: "store_Put S (h_store h) (sb_Data q) d = (p, d1)" by (rule prod.exhaust)
    have "fst (snd s') = d \<or> fst (snd s') = d1"
      using assms(6) s q p by (auto simp: svc_StoreBlock_def split: option.splits sum.splits)
    then show ?thesis using Put_ok [OF assms(1)] Put_fails [OF assms(1)] p by (cases p) metis+
  next
    case False
    then have "fst (snd s') = d" using assms(6) s
      by (cases c) (auto simp: svc_Ping_def svc_StoreBlock_def svc_GetBlock_def svc_FindProvider_def
        svc_JoinNetwork_def svc_LeaveNetwork_def svc_Heartbeat_def svc_AddProvider_def Let_def
        split: option.splits sum.splits prod.splits bool.splits)
    then show ?thesis by simp
  qed
  then have "view_sound S (view S (h_store (fst s')) (fst (snd s')))"
    using assms(5) s id by (auto simp: view_sound_put)
  with step wf id s show ?thesis by (simp add: SelfEndpoint_def)
qed

lemma ex_node_ok:
  "reg_wf (h_reg ex_host)" "prov_wf (h_providers ex_host)"
  "view_sound ex_storage (view ex_storage (h_store ex_host) ex_disk)"
  using ex_view_sound by simp_all

theorem serve_refines_witness:
  "prov_wf (h_providers (fst (serve ex_storage (ex_rt [] []) (CallStoreBlock (Some \<lparr>sb_Cid = ex_cid [1], sb_Data = [1]\<rparr>))
     (ex_host, ex_disk, 0))))"
proof -
  let ?c = "CallStoreBlock (Some \<lparr>sb_Cid = ex_cid [1], sb_Data = [1]\<rparr>)"
  have "reg_wf (h_reg (fst (ex_host, ex_disk, 0)))" "prov_wf (h_providers (fst (ex_host, ex_disk, 0)))"
    "view_sound ex_storage (view ex_storage (h_store (fst (ex_host, ex_disk, 0))) (fst (snd (ex_host, ex_disk, 0))))"
    using ex_node_ok by simp_all
  from serve_refines [where rt = "ex_rt [] []" and c = ?c, OF ex_storage_ok ex_rt_ok this refl]
  show ?thesis by blast
qed

theorem JoinNetwork_spec_witness:
  "\<exists>resp h' d' e'. svc_JoinNetwork (ex_rt [] []) (Some \<lparr>jn_Self = Some ex_ep\<rparr>) (ex_host, ex_disk, 0) =
     (Inr resp, (h', d', e')) \<and> reg_wf (h_reg h')"
proof -
  obtain r h' d' e' where j: "svc_JoinNetwork (ex_rt [] []) (Some \<lparr>jn_Self = Some ex_ep\<rparr>) (ex_host, ex_disk, 0) =
     (r, (h', d', e'))" by (metis prod.exhaust)
  have "ep_PeerId ex_ep \<noteq> ''''" by (simp add: ex_ep_def)
  from JoinNetwork_spec [where rt = "ex_rt [] []" and d = ex_disk and e = 0, OF ex_rt_ok ex_node_ok(1) this] j
  show ?thesis by (cases r) auto
qed

text \<open>
  A block pushed under its own id is kept: \<open>StoreBlock\<close> then either reports an error and
  leaves the blocks and the provider records as they were, or reports success, after which
  \<open>GetBlock\<close> for the id returns the very bytes and the node is among its own providers of it.
\<close>

theorem StoreBlock_spec:
  assumes "storage_ok S" "h_SelfID h \<noteq> ''''" "c = NewCID S data"
  shows "case svc_StoreBlock S (Some \<lparr>sb_Cid = c, sb_Data = data\<rparr>) (h, d, e) of
           (Inr resp, (h', d', e')) \<Rightarrow>
             if sbr_Ok resp
             then view S (h_store h') d' = (view S (h_store h) d)(c \<mapsto> data) \<and>
                  fst (svc_GetBlock S (Some \<lparr>gb_Cid = c\<rparr>) (h', d', e')) =
                    Inr \<lparr>gbr_Data = data, gbr_ErrorMessage = ''''\<rparr> \<and>
                  (c, h_SelfID h, SelfEndpoint h) \<in> prov_abs (h_providers h')
             else view S (h_store h') d' = view S (h_store h) d \<and> h' = h
         | (Inl _, _) \<Rightarrow> False"
proof -
  obtain k where "KeyFromHex c = Inr k" using NewCID_key [OF assms(1)] assms(3) by blast
  then have ne: "c \<noteq> []" by (auto simp: KeyFromHex_def keyBytes_def)
  have v: "Validate S c = None" using Validate_NewCID [OF assms(1)] assms(3) by simp
  obtain p d1 where p: "store_Put S (h_store h) data d = (p, d1)" by (rule prod.exhaust)
  show ?thesis
  proof (cases p)
    case (Inl err)
    with p ne v Put_fails [OF assms(1)] show ?thesis by (simp add: svc_StoreBlock_def)
  next
    case (Inr c')
    then have view: "view S (h_store h) d1 = (view S (h_store h) d)(c \<mapsto> data)"
      using Put_ok [OF assms(1)] p assms(3) by blast
    then have "store_Get S (h_store h) c d1 = Inr data" by (simp add: store_Get_view)
    moreover have "(c, h_SelfID h, SelfEndpoint h) \<in> prov_abs (prov_Add c (Some (SelfEndpoint h)) (h_providers h))"
      using assms(2) by (simp add: prov_abs_Add SelfEndpoint_def)
    ultimately show ?thesis using p ne v Inr view by (simp add: svc_StoreBlock_def svc_GetBlock_def)
  qed
qed

theorem StoreBlock_spec_witness:
  "\<exists>resp h' d' e'. svc_StoreBlock ex_storage (Some \<lparr>sb_Cid = ex_cid [1], sb_Data = [1]\<rparr>) (ex_host, ex_disk, 0 :: nat) =
     (Inr resp, (h', d', e')) \<and> sbr_Ok resp \<and>
     fst (svc_GetBlock ex_storage (Some \<lparr>gb_Cid = ex_cid [1]\<rparr>) (h', d', e')) =
       Inr \<lparr>gbr_Data = [1], gbr_ErrorMessage = ''''\<rparr>"
proof -
  have l: "length (h_SelfID ex_host) \<noteq> 0" by simp
  have c: "ex_cid [1] \<noteq> []" using ex_cid_key [of "[1]"] by (auto simp: KeyFromHex_def keyBytes_def)
  have v: "Validate ex_storage (ex_cid [1]) = None" using Validate_NewCID [OF ex_storage_ok, of "[1]"] by simp
  from StoreBlock_spec [OF ex_storage_ok, of ex_host "ex_cid [1]" "[1]" ex_disk "0 :: nat"] l c v show ?thesis
    by (simp add: svc_StoreBlock_def)
qed

text \<open>
  \<open>StoreBlock\<close> does not compare the block with the id it is pushed under. Any well-formed id
  the node has no block for can be claimed with arbitrary other bytes: the call reports
  success, the node from then on names itself as a provider of the id, and still answers
  \<open>GetBlock\<close> for it with an error; what is kept is the block under its own id.
\<close>

theorem StoreBlock_accepts_mismatch:
  assumes "storage_ok S" "h_SelfID h \<noteq> ''''" "c \<noteq> ''''" "Validate S c = None" "c \<noteq> NewCID S data"
    and "view S (h_store h) d c = None" "store_Put S (h_store h) data d = (Inr c', d1)"
  shows "\<exists>h' err. svc_StoreBlock S (Some \<lparr>sb_Cid = c, sb_Data = data\<rparr>) (h, d, e) =
             (Inr \<lparr>sbr_Ok = True, sbr_ErrorMessage = ''''\<rparr>, (h', d1, e)) \<and>
           (c, h_SelfID h, SelfEndpoint h) \<in> prov_abs (h_providers h') \<and>
           fst (svc_GetBlock S (Some \<lparr>gb_Cid = c\<rparr>) (h', d1, e)) =
             Inr \<lparr>gbr_Data = [], gbr_ErrorMessage = err\<rparr> \<and>
           view S (h_store h') d1 (NewCID S data) = Some data"
proof -
  let ?h = "h\<lparr>h_providers := prov_Add c (Some (SelfEndpoint h)) (h_providers h)\<rparr>"
  have v: "view S (h_store h) d1 = (view S (h_store h) d)(NewCID S data \<mapsto> data)"
    using Put_ok [OF assms(1,7)] by simp
  then have "view S (h_store h) d1 c = None" using assms(5,6) by simp
  then obtain err where "store_Get S (h_store h) c d1 = Inl err" by (auto simp: view_def split: sum.splits)
  moreover have "(c, h_SelfID h, SelfEndpoint h) \<in> prov_abs (h_providers ?h)"
    using assms(2) by (simp add: prov_abs_Add SelfEndpoint_def)
  ultimately show ?thesis
    using assms(3,4,7) v
    by (intro exI [of _ ?h] exI [of _ err]) (simp add: svc_StoreBlock_def svc_GetBlock_def)
qed

theorem StoreBlock_accepts_mismatch_witness:
  "\<exists>h' err. svc_StoreBlock ex_storage (Some \<lparr>sb_Cid = ex_cid [2], sb_Data = [1]\<rparr>) (ex_host, ex_disk, 0 :: nat) =
       (Inr \<lparr>sbr_Ok = True, sbr_ErrorMessage = ''''\<rparr>, (h', ex_put ''s'' [1] ex_disk, 0)) \<and>
     (ex_cid [2], ex_idA, SelfEndpoint ex_host) \<in> prov_abs (h_providers h') \<and>
     fst (svc_GetBlock ex_storage (Some \<lparr>gb_Cid = ex_cid [2]\<rparr>) (h', ex_put ''s'' [1] ex_disk, 0 :: nat)) =
       Inr \<lparr>gbr_Data = [], gbr_ErrorMessage = err\<rparr>"
proof -
  have l: "length (h_SelfID ex_host) \<noteq> 0" by simp
  have c: "ex_cid [2] \<noteq> ''''" using ex_cid_key [of "[2]"] by (auto simp: KeyFromHex_def keyBytes_def)
  have v: "Validate ex_storage (ex_cid [2]) = None" using Validate_NewCID [OF ex_storage_ok, of "[2]"] by simp
  have n: "ex_cid [2] \<noteq> ex_cid [1]" using ex_cid_unique [of "[2]" "[1]"] by auto
  have "''f'' \<noteq> ''s'' @ CHR ''/'' # ex_cid [2]" by simp
  then have "view ex_storage ''s'' ex_disk (ex_cid [2]) = None"
    by (simp add: ex_view_eq ex_disk_def split: sum.split)
  with StoreBlock_accepts_mismatch [OF ex_storage_ok, of ex_host "ex_cid [2]" "[1]" ex_disk "ex_cid [1]"
      "ex_put ''s'' [1] ex_disk" "0 :: nat"] l c v n
  show ?thesis by (simp del: ex_host_fields(5)) blast
qed

text \<open>
  \<open>LeaveNetwork\<close> is not tied to the caller: any peer can have any nonempty id removed, the
  node's own included. The entry is gone whatever its state, no other entry changes, and the
  provider records, also those of the removed peer, all stay.
\<close>

theorem LeaveNetwork_spec:
  assumes "pid \<noteq> ''''"
  shows "\<exists>h'. svc_LeaveNetwork (Some \<lparr>ln_PeerId = pid\<rparr>) (h, d, e) = (Inr \<lparr>lnr_Ok = True\<rparr>, (h', d, e)) \<and>
           reg_peers (h_reg h') = (reg_peers (h_reg h))(pid := None) \<and> h_providers h' = h_providers h"
  using assms by (simp add: svc_LeaveNetwork_def Leave_peers)

theorem LeaveNetwork_spec_witness:
  "\<exists>h'. svc_LeaveNetwork (Some \<lparr>ln_PeerId = ex_idA\<rparr>) (ex_host, ex_disk, 0 :: nat) = (Inr \<lparr>lnr_Ok = True\<rparr>, (h', ex_disk, 0)) \<and>
     reg_peers (h_reg h') (h_SelfID ex_host) = None"
proof -
  have l: "length ex_idA \<noteq> 0" by simp
  then have "ex_idA \<noteq> ''''" by blast
  from LeaveNetwork_spec [OF this, of ex_host ex_disk "0 :: nat"] show ?thesis by auto
qed

end
