(* ===== verification/StoreGrowth.thy ===== *)
theory StoreGrowth
  imports Catalog GrpcService
begin

text \<open>
  What every operation of a node does to its block store: it only ever adds blocks under their
  own ids, so a block that no other block shares its id with stays readable for ever. The
  relation \<open>keeps\<close> composes along the steps of an operation; the lemmas of the collection
  \<open>keeps\<close> state it for each operation.
\<close>

named_theorems keeps \<open>operations that only add blocks to the store\<close>

section \<open>The relation\<close>

definition node_view :: "'s storage \<Rightarrow> ('s, 'c, 'e) node \<Rightarrow> string \<rightharpoonup> bytes" where
  "node_view S s = view S (h_store (fst s)) (fst (snd s))"

definition keeps :: "'s storage \<Rightarrow> ('s, 'c, 'e) node \<Rightarrow> ('s, 'c, 'e) node \<Rightarrow> bool" where
  "keeps S s s' \<longleftrightarrow>
     (view_sound S (node_view S s) \<longrightarrow>
        h_store (fst s') = h_store (fst s) \<and> (\<exists>bs. node_view S s' = put_blocks S bs (node_view S s)))"

lemma put_blocks_append: "put_blocks S (xs @ ys) v = put_blocks S ys (put_blocks S xs v)"
  by (simp add: put_blocks_def)

lemma keepsI:
  "h_store (fst s') = h_store (fst s) \<Longrightarrow> node_view S s' = put_blocks S bs (node_view S s) \<Longrightarrow> keeps S s s'"
  by (auto simp: keeps_def)

lemma keeps_same: "h_store (fst s') = h_store (fst s) \<Longrightarrow> node_view S s' = node_view S s \<Longrightarrow> keeps S s s'"
  by (rule keepsI [of _ _ _ "[]"]) simp_all

lemma keeps_refl [simp, keeps]: "keeps S s s"
  by (rule keeps_same) simp_all

lemma keeps_sound: "keeps S s s' \<Longrightarrow> view_sound S (node_view S s) \<Longrightarrow> view_sound S (node_view S s')"
  by (auto simp: keeps_def view_sound_put_blocks)

lemma keeps_trans: "keeps S s t \<Longrightarrow> keeps S t u \<Longrightarrow> keeps S s u"
proof -
  assume st: "keeps S s t" and tu: "keeps S t u"
  show "keeps S s u"
    unfolding keeps_def
  proof
    assume v: "view_sound S (node_view S s)"
    with st obtain xs where "h_store (fst t) = h_store (fst s)" "node_view S t = put_blocks S xs (node_view S s)"
      by (auto simp: keeps_def)
    moreover from keeps_sound [OF st v] tu obtain ys where "h_store (fst u) = h_store (fst t)"
      "node_view S u = put_blocks S ys (node_view S t)" by (auto simp: keeps_def)
    ultimately show "h_store (fst u) = h_store (fst s) \<and> (\<exists>bs. node_view S u = put_blocks S bs (node_view S s))"
      by (auto simp: put_blocks_append [symmetric])
  qed
qed

text \<open>A block with an id of its own stays.\<close>

lemma put_blocks_grows: "dom v \<subseteq> dom (put_blocks S bs v)"
proof (induction bs arbitrary: v)
  case (Cons b bs)
  have "dom v \<subseteq> dom (v(NewCID S b \<mapsto> b))" by auto
  also have "\<dots> \<subseteq> dom (put_blocks S (b # bs) v)" unfolding put_blocks_simps by (rule Cons.IH)
  finally show ?case .
qed simp

lemma keeps_block:
  assumes "keeps S s s'" "view_sound S (node_view S s)" "unforgeable S b" "node_view S s (NewCID S b) = Some b"
  shows "node_view S s' (NewCID S b) = Some b"
proof -
  from assms(1,2) obtain bs where bs: "node_view S s' = put_blocks S bs (node_view S s)" by (auto simp: keeps_def)
  have "NewCID S b \<in> dom (node_view S s')" using put_blocks_grows [of "node_view S s" S bs] assms(4) bs by auto
  then obtain x where x: "node_view S s' (NewCID S b) = Some x" by blast
  with keeps_sound [OF assms(1,2)] have "NewCID S x = NewCID S b" by (auto simp: view_sound_def)
  with assms(3) have "x = b" by (simp add: unforgeable_def)
  with x show ?thesis by simp
qed

lemma keeps_file:
  assumes "keeps S s s'" "view_sound S (node_view S s)" "\<forall>b\<in>set (file_node_block S bs # bs). unforgeable S b"
    and "holds_file S (h_store (fst s)) (fst (snd s)) root bs"
  shows "holds_file S (h_store (fst s')) (fst (snd s')) root bs"
proof -
  have "node_view S s' (NewCID S b) = Some b" if b: "b \<in> set (file_node_block S bs # bs)" for b
  proof (rule keeps_block [OF assms(1,2)])
    show "unforgeable S b" using assms(3) b by blast
    show "node_view S s (NewCID S b) = Some b" using assms(4) b unfolding holds_file_def node_view_def by blast
  qed
  then show ?thesis using assms(4) by (simp add: holds_file_def node_view_def)
qed

section \<open>Downloads and uploads\<close>

lemma keeps_load_block: 
  assumes "storage_ok S" "load_block S rt ctx wrap cid s = (r, s')"
  shows "keeps S s s'"
  unfolding keeps_def
proof
  assume "view_sound S (node_view S s)"
  then have "loaded S cid s r s'" using load_block_loaded [OF assms(1) _ assms(2)] by (simp add: node_view_def)
  then show "h_store (fst s') = h_store (fst s) \<and> (\<exists>bs. node_view S s' = put_blocks S bs (node_view S s))"
    by (cases r) (auto simp: loaded_def node_view_def same_host_fields
        intro: exI [of _ "[]"] exI [of _ "[b]" for b])
qed

lemma keeps_stream:
  assumes "storage_ok S" "stream_chunks S rt ctx w chs out s = (r, s')"
  shows "keeps S s s'"
  using assms(2)
proof (induction chs arbitrary: out s)
  case (Cons ch chs)
  obtain x s1 where l: "load_chunk S rt ctx ch s = (x, s1)" by (rule prod.exhaust)
  then have k: "keeps S s s1" using keeps_load_block [OF assms(1)] by (simp add: load_chunk_def)
  show ?case
  proof (cases "\<exists>data. x = Inr data \<and> w out data = None")
    case True
    then obtain data where "x = Inr data" "w out data = None" by blast
    with Cons.prems l have "stream_chunks S rt ctx w chs (out @ data) s1 = (r, s')" by simp
    from keeps_trans [OF k Cons.IH [OF this]] show ?thesis .
  next
    case False
    with Cons.prems l have "s' = s1" by (auto split: sum.splits option.splits)
    with k show ?thesis by simp
  qed
qed simp

lemma keeps_GetFile [keeps]:
  assumes "storage_ok S"
  shows "keeps S s (snd (GetFile S rt ctx root w s))"
proof -
  obtain x s1 where l: "load_root S rt ctx root s = (x, s1)" by (rule prod.exhaust)
  then have k: "keeps S s s1" using keeps_load_block [OF assms] by (simp add: load_root_def)
  have st: "keeps S s1 (snd (stream_chunks S rt ctx w chs out s1))" for chs out
    by (rule keeps_stream [OF assms]) (rule prod.collapse [symmetric])
  show ?thesis
    using k keeps_trans [OF k st] l by (auto simp: GetFile_def split: sum.split prod.split option.split)
qed

lemma same_host_node_view: "same_host (fst s) (fst s') \<Longrightarrow> fst (snd s') = fst (snd s) \<Longrightarrow> node_view S s' = node_view S s"
  by (simp add: node_view_def same_host_fields)

lemma keeps_fetch: "keeps S s (snd (fetch_remote S rt ctx cid s))"
proof -
  obtain h d e where s: "s = (h, d, e)" by (rule prod_cases3)
  obtain r h' d' e' where f: "fetch_remote S rt ctx cid (h, d, e) = (r, (h', d', e'))" by (metis prod.exhaust)
  from fetch_remote_effect [OF f] s f show ?thesis
    by (intro keeps_same) (auto simp: same_host_fields node_view_def)
qed

lemma keeps_InspectCID [keeps]: "keeps S s (snd (InspectCID S rt c s))"
  using keeps_fetch [of S s rt None c]
  by (cases s) (auto simp: InspectCID_def split: sum.split prod.split)

lemma keeps_replicate: "keeps S (h, d, e) (snd (replicate_all S rt ctx cs (h, d, e)))"
proof -
  obtain r h' d' e' where f: "replicate_all S rt ctx cs (h, d, e) = (r, (h', d', e'))" by (metis prod.exhaust)
  from replicate_all_effect [OF f] f show ?thesis
    by (intro keeps_same) (auto simp: same_host_fields node_view_def)
qed

lemma keeps_AddFile [keeps]:
  assumes ok: "storage_ok S"
  shows "keeps S s (snd (AddFile S os rt ctx path s))"
proof -
  obtain h d e where s: "s = (h, d, e)" by (rule prod_cases3)
  obtain r d1 where p: "PutFile S (h_chunker h) (h_store h) path d = (r, d1)" by (rule prod.exhaust)
  have k1: "keeps S (h, d, e) (h, d1, e)"
  proof (cases r)
    case Inl
    with p obtain bs where "view S (h_store h) d1 = put_blocks S bs (view S (h_store h) d)"
      by (metis PutFile_fails [OF ok])
    then show ?thesis by (intro keepsI [of _ _ _ bs]) (simp_all add: node_view_def)
  next
    case Inr
    with p obtain bs where "view S (h_store h) d1 = put_blocks S bs (view S (h_store h) d)"
      by (metis PutFile_ok [OF ok])
    then show ?thesis by (intro keepsI [of _ _ _ bs]) (simp_all add: node_view_def)
  qed
  show ?thesis
  proof (cases r)
    case Inl
    with p k1 show ?thesis by (simp add: s AddFile_def)
  next
    case (Inr chunks)
    with p obtain bs where cs: "chunks = map (NewCID S) bs" by (metis PutFile_ok [OF ok])
    let ?nb = "file_node_block S bs"
    obtain x d2 where put: "store_Put S (h_store h) ?nb d1 = (x, d2)" by (rule prod.exhaust)
    have k2: "keeps S (h, d1, e) (h, d2, e)"
    proof (cases x)
      case Inl
      with put Put_fails [OF ok] show ?thesis by (intro keeps_same) (simp_all add: node_view_def)
    next
      case Inr
      with put Put_ok [OF ok] show ?thesis by (intro keepsI [of _ _ _ "[?nb]"]) (simp_all add: node_view_def)
    qed
    let ?d3 = "snd (writeFileBundle S os (h_store h) (NewCID S ?nb) chunks ?nb d2)"
    let ?p = "foldl (\<lambda>p c. prov_Add c (Some (SelfEndpoint h)) p) (prov_Add (NewCID S ?nb) (Some (SelfEndpoint h)) (h_providers h)) chunks"
    have "view S (h_store h) ?d3 = view S (h_store h) d2"
      using NewCID_key [OF ok] cs by (intro writeFileBundle_view [OF ok]) auto
    then have k3: "keeps S (h, d2, e) (h\<lparr>h_providers := ?p\<rparr>, ?d3, e)"
      by (intro keeps_same) (simp_all add: node_view_def)
    note k4 = keeps_trans [OF keeps_trans [OF keeps_trans [OF k1 k2] k3] keeps_replicate]
    have a: "AddFile S os rt ctx path s =
        (case x of Inl err \<Rightarrow> (Inl err, (h, d2, e))
         | Inr _ \<Rightarrow> (case replicate_all S rt ctx (NewCID S ?nb # chunks) (h\<lparr>h_providers := ?p\<rparr>, ?d3, e) of
              (Inl err, s') \<Rightarrow> (Inl err, s') | (Inr _, s') \<Rightarrow> (Inr (NewCID S ?nb), s')))"
      unfolding s AddFile_def prod.case p Inr sum.case cs file_node_encoded(1) [OF ok] Let_def put ..
    have b: "snd (case y of (Inl err, s') \<Rightarrow> (Inl err, s') | (Inr u, s') \<Rightarrow> (Inr z, s')) = snd y"
      for y :: "('x + 'y) \<times> 'z" and z by (cases y) (simp split: sum.split)
    show ?thesis
      unfolding a using keeps_trans [OF k1 k2] k4 by (cases x) (simp_all add: b s del: replicate_all.simps)
  qed
qed

section \<open>The catalog\<close>

lemma keeps_disk:
  assumes "storage_ok S" "\<not> block_path path"
  shows "keeps S (h, d, e) (h, d(path := x), e)"
  by (rule keeps_same) (simp_all add: node_view_def view_frame [OF assms])

lemma keeps_world: "keeps S (h, d, e) (h, d, e')" "keeps S s (h, d, e) \<Longrightarrow> keeps S s (h, d, e')"
proof -
  show "keeps S (h, d, e) (h, d, e')" by (rule keeps_same) (simp_all add: node_view_def)
  then show "keeps S s (h, d, e) \<Longrightarrow> keeps S s (h, d, e')" by (rule keeps_trans [rotated])
qed

lemma keeps_upload_bytes:
  assumes "storage_ok S" "\<And>d. \<not> block_path (os_TempName os ''catalog-*'' d)"
  shows "keeps S s (snd (upload_bytes S os rt ctx b s))"
proof -
  obtain h d e where s: "s = (h, d, e)" by (rule prod_cases3)
  let ?tmp = "os_TempName os ''catalog-*'' d"
  note disk = keeps_disk [OF assms(1,2)]
  have removed: "keeps S (h', d', e') (h', os_Remove ?tmp d', e')" for h' :: "('a, 'b) PeerHost" and d' and e' :: 'c
    unfolding os_Remove_def by (rule disk)
  have written: "keeps S (h, d, e) (h, d(?tmp \<mapsto> b), e)" by (rule disk)
  obtain r h1 d1 e1 where a: "AddFile S os rt ctx ?tmp (h, d(?tmp \<mapsto> b), e) = (r, (h1, d1, e1))"
    by (metis prod.exhaust)
  have "keeps S (h, d(?tmp \<mapsto> b), e) (h1, d1, e1)"
    using keeps_AddFile [OF assms(1), of "(h, d(?tmp \<mapsto> b), e)" os rt ctx ?tmp] a by simp
  then have "keeps S (h, d, e) (h1, os_Remove ?tmp d1, e1)"
    using keeps_trans [OF keeps_trans [OF written] removed] by blast
  moreover have "keeps S (h, d, e) (h, os_Remove ?tmp (d(?tmp \<mapsto> [])), e)"
    using keeps_trans [OF disk removed] by blast
  ultimately show ?thesis using a
    by (auto simp: s upload_bytes_def os_CreateTemp_def file_Write_def Let_def split: option.split)
qed

lemma keeps_update_locked:
  assumes "storage_ok S" "\<And>d. \<not> block_path (os_TempName os ''catalog-*'' d)"
  shows "keeps S s (snd (update_locked S os rt R ctx entry s))"
proof -
  obtain c s1 where 1: "current_cid R ctx s = (c, s1)" by (rule prod.exhaust)
  have k1: "keeps S s s1"
    using 1 by (cases s) (auto simp: current_cid_def keeps_world split: if_splits prod.splits sum.splits)
  obtain b s2 where 2: "current_bytes S rt ctx c s1 = (b, s2)" by (rule prod.exhaust)
  have k2: "keeps S s1 s2"
    using 2 keeps_GetFile [OF assms(1), of s1 rt ctx c "\<lambda>_ _. None"]
    by (auto simp: current_bytes_def split: if_splits prod.splits option.splits)
  obtain r s3 where 3: "upload_bytes S os rt ctx (b @ bytes_of_string entry) s2 = (r, s3)" by (rule prod.exhaust)
  have k3: "keeps S s2 s3" using 3 keeps_upload_bytes [OF assms, of s2 rt ctx "b @ bytes_of_string entry"] by simp
  note k123 = keeps_trans [OF keeps_trans [OF k1 k2] k3]
  have "keeps S s3 (set_current R ctx x s3)" for x
    by (rule keeps_same) (cases s3, auto simp: set_current_def node_view_def)+
  from keeps_trans [OF k123 this] k123 show ?thesis
    using 1 2 3 by (simp add: update_locked_def split: sum.split)
qed

lemma keeps_UpdateGlobalCatalog:
  assumes "storage_ok S" "\<And>d. \<not> block_path (os_TempName os ''catalog-*'' d)"
    and "UpdateGlobalCatalog S os rt R ctx name cid sz ext s = Some (r, s')"
  shows "keeps S s s'"
proof -
  obtain h d e where s: "s = (h, d, e)" by (rule prod_cases3)
  let ?entry = "catalog_entry name cid sz ext"
  note k = keeps_update_locked [OF assms(1,2), of _ rt R ctx ?entry]
  show ?thesis
  proof (cases "reg_rdb (h_reg h) = None")
    case True
    with assms(3) k [of s] show ?thesis by (simp add: s UpdateGlobalCatalog_def Let_def)
  next
    case False
    with assms(3) obtain err e1 where l: "acquire_lock R ctx (h_SelfID h) e = Some (err, e1)"
      by (auto simp: s UpdateGlobalCatalog_def split: option.splits)
    obtain x h' d' e' where u: "update_locked S os rt R ctx ?entry (h, d, e1) = (x, (h', d', e'))"
      by (metis prod.exhaust)
    have "keeps S (h, d, e) (h', d', e')"
      using keeps_trans [OF keeps_world(1) k [of "(h, d, e1)"]] u by simp
    then have "keeps S (h, d, e) (h', d', rd_Del R None lockKey e')" by (rule keeps_world(2))
    with assms(3) False l u show ?thesis
      by (cases err) (auto simp: s UpdateGlobalCatalog_def Let_def keeps_world(1))
  qed
qed

section \<open>The service\<close>

lemma keeps_serve [keeps]:
  assumes "storage_ok S"
  shows "keeps S s (serve S rt c s)"
proof -
  obtain h d e where s: "s = (h, d, e)" by (rule prod_cases3)
  show ?thesis
  proof (cases c)
    case (CallStoreBlock q)
    have put: "keeps S (h, d, e) (h', d', e)" if "store_Put S (h_store h) b d = (x, d')" "h_store h' = h_store h" for b x d' h'
    proof (cases x)
      case Inl
      with that Put_fails [OF assms] show ?thesis by (intro keeps_same) (simp_all add: node_view_def)
    next
      case Inr
      with that Put_ok [OF assms] show ?thesis by (intro keepsI [of _ _ _ "[b]"]) (simp_all add: node_view_def)
    qed
    then show ?thesis
      by (auto simp: s CallStoreBlock svc_StoreBlock_def split: option.split sum.split prod.split)
  next
    case (CallJoinNetwork q)
    then show ?thesis
      by (intro keeps_same) (auto simp: s svc_JoinNetwork_def Let_def node_view_def split: option.split prod.split bool.split)
  qed (auto simp: s Let_def svc_Ping_def svc_GetBlock_def svc_FindProvider_def svc_LeaveNetwork_def svc_Heartbeat_def
      svc_AddProvider_def node_view_def intro!: keeps_same split: option.split sum.split prod.split)
qed

end
