(* ===== verification/Calls.thy ===== *)
theory Calls
  imports FileTransfer
begin

text \<open>
  What a node leaves behind when it calls its peers. A relation between two states of the pool
  and the world, kept by each single call and drawn order, is kept by the client operations
  that are composed of them: pushing blocks, looking providers up, fetching. The three locales
  state that once, for pushing and for reading; \<open>Cluster\<close> interprets them on a network of
  nodes.
\<close>

section \<open>Connections and orders\<close>

locale net_relation =
  fixes rt :: "('c, 'e) runtime" and R :: "('c, 'e) net \<Rightarrow> ('c, 'e) net \<Rightarrow> bool"
  assumes R_refl: "R n n"
    and R_trans: "R n m \<Longrightarrow> R m k \<Longrightarrow> R n k"
    and R_dial: "rt_DialContext rt ctx a e = (Inr c, e') \<Longrightarrow> R (conns, e) (conns(a \<mapsto> c), e')"
    and R_dial_fails: "rt_DialContext rt ctx a e = (Inl err, e') \<Longrightarrow> R (conns, e) (conns, e')"
    and R_range: "rt_range rt K e = (ks, e') \<Longrightarrow> R (conns, e) (conns, e')"
    and R_sched: "rt_sched rt i e = (perm, e') \<Longrightarrow> R (conns, e) (conns, e')"
begin

lemma R_Conn: "Conn rt ctx a n = (r, n') \<Longrightarrow> R n n'"
  by (cases n) (auto simp: Conn_def DialPeer_def R_refl intro: R_dial R_dial_fails
      split: option.splits prod.splits sum.splits)

lemma R_with_client:
  assumes "\<And>cctx cli conns e x e'. body cctx cli e = (x, e') \<Longrightarrow> R (conns, e) (conns, e')"
    and "with_client rt ctx t a body n = (r, n')"
  shows "R n n'"
proof -
  obtain ctx' where w: "(case Conn rt ctx' a n of (Inl err, n') \<Rightarrow> (Inl err, n')
       | (Inr cli, (conns, e)) \<Rightarrow> (case body ctx' cli e of (r, e') \<Rightarrow> (r, (conns, e')))) = (r, n')"
    using assms(2) by (auto simp: with_client_def WithTimeout_def)
  obtain x conns e where c: "Conn rt ctx' a n = (x, (conns, e))" by (rule prod_cases3)
  note k = R_Conn [OF c]
  show ?thesis
  proof (cases x)
    case (Inr cli)
    obtain y e' where b: "body ctx' cli e = (y, e')" by (rule prod.exhaust)
    with w c Inr have "n' = (conns, e')" by simp
    with R_trans [OF k assms(1) [OF b]] show ?thesis by simp
  qed (use w c k in simp)
qed

end

section \<open>Pushing\<close>

locale push_relation = net_relation +
  assumes R_StoreBlock: "rt_StoreBlock rt ctx c q e = (r, e') \<Longrightarrow> R (conns, e) (conns, e')"
begin

lemma R_StoreOnPeer: "StoreOnPeer rt ctx a c data n = (r, n') \<Longrightarrow> R n n'"
  unfolding StoreOnPeer_def
  by (erule R_with_client [rotated]) (auto split: prod.splits sum.splits if_splits intro: R_StoreBlock)

lemma R_ReplicateToAddrs: "ReplicateToAddrs_from err rt ctx addrs c data n = (r, n') \<Longrightarrow> R n n'"
proof (induction addrs arbitrary: err n)
  case (Cons a addrs)
  obtain x m where s: "StoreOnPeer rt ctx a c data n = (x, m)" by (rule prod.exhaust)
  with Cons.prems obtain err' where "ReplicateToAddrs_from err' rt ctx addrs c data m = (r, n')"
    by (cases x) auto
  from R_trans [OF R_StoreOnPeer [OF s] Cons.IH [OF this]] show ?case .
qed (simp add: R_refl)

end

section \<open>Reading\<close>

locale read_relation = net_relation +
  assumes R_FindProvider: "rt_FindProvider rt ctx c fq e = (fr, e') \<Longrightarrow> R (conns, e) (conns, e')"
    and R_GetBlock: "rt_GetBlock rt ctx c gq e = (gr, e') \<Longrightarrow> R (conns, e) (conns, e')"
begin

lemma R_ask_provider: "ask_provider rt ctx cid a n = (r, n') \<Longrightarrow> R n n'"
  unfolding ask_provider_def by (erule R_with_client [rotated]) (rule R_FindProvider)

lemma R_run_lookups: "run_lookups rt ctx cid addrs st n = (r, n') \<Longrightarrow> R n n'"
proof (induction addrs arbitrary: st n)
  case (Cons a addrs)
  obtain x m where s: "ask_provider rt ctx cid a n = (x, m)" by (rule prod.exhaust)
  with Cons.prems obtain st' where "run_lookups rt ctx cid addrs st' m = (r, n')"
    by (cases x) auto
  from R_trans [OF R_ask_provider [OF s] Cons.IH [OF this]] show ?case .
qed (simp add: R_refl)

lemma R_LookupProviders:
  assumes "LookupProviders rt ctx local self peers cid n = (out, n')"
  shows "R n n'"
proof -
  obtain conns e where n: "n = (conns, e)" by (rule prod.exhaust)
  let ?K = "case local cid of None \<Rightarrow> {} | Some mp \<Rightarrow> dom mp"
  obtain ks e1 where 1: "rt_range rt ?K e = (ks, e1)" by (rule prod.exhaust)
  let ?t = "lookup_targets self peers"
  obtain perm e2 where 2: "rt_sched rt (length ?t) e1 = (perm, e2)" by (rule prod.exhaust)
  obtain st m where 3: "run_lookups rt ctx cid (map (\<lambda>i. ?t ! i) perm)
      (foldl lookup_add ({}, []) (map Some (prov_Get ks cid local))) (conns, e2) = (st, m)" by (rule prod.exhaust)
  have "n' = m" using assms 1 2 3 n by (simp add: LookupProviders_def Let_def split: prod.splits)
  with R_trans [OF R_trans [OF R_range [OF 1] R_sched [OF 2]] R_run_lookups [OF 3]] n show ?thesis by simp
qed

lemma R_fetch_from: "fetch_from rt ctx cid a n = (r, n') \<Longrightarrow> R n n'"
  unfolding fetch_from_def
  by (erule R_with_client [rotated]) (auto split: prod.splits sum.splits if_splits intro: R_GetBlock)

lemma R_attempt: "attempt verify rt ctx cid a n = (r, n') \<Longrightarrow> R n n'"
  by (auto simp: attempt_def dest!: R_fetch_from split: prod.splits sum.splits option.splits)

lemma R_FetchBlock: "FetchBlock_from err verify rt ctx cid eps n = (r, n') \<Longrightarrow> R n n'"
proof (induction eps arbitrary: err n)
  case (Cons ep eps)
  show ?case
  proof (cases "\<exists>x. ep = Some x \<and> ep_GrpcAddr x \<noteq> ''''")
    case True
    then obtain x where x: "ep = Some x" "ep_GrpcAddr x \<noteq> ''''" by blast
    obtain y m where a: "attempt verify rt ctx cid (ep_GrpcAddr x) n = (y, m)" by (rule prod.exhaust)
    from Cons.prems a FetchBlock_from_attempt [OF x(2), of err verify rt ctx cid eps n] x(1)
    have "(\<exists>err'. FetchBlock_from err' verify rt ctx cid eps m = (r, n')) \<or> n' = m"
      by (cases y) auto
    then show ?thesis using R_attempt [OF a] Cons.IH R_trans by blast
  next
    case False
    with Cons.prems have "FetchBlock_from err verify rt ctx cid eps n = (r, n')" by (cases ep) auto
    then show ?thesis by (rule Cons.IH)
  qed
qed (simp add: R_refl)

lemma R_fetch_remote:
  assumes "fetch_remote S rt ctx cid (h, d, e) = (r, (h', d', e'))"
  shows "R (h_conns h, e) (h_conns h', e')"
proof -
  obtain ks e1 where 1: "rt_range rt (dom (reg_peers (h_reg h))) e = (ks, e1)" by (rule prod.exhaust)
  obtain provs n1 where 2: "LookupProviders rt ctx (h_providers h) (h_GrpcAddr h) (Snapshot ks (h_reg h)) cid
      (h_conns h, e1) = (provs, n1)" by (rule prod.exhaust)
  obtain x conns e2 where 3: "FetchBlock (VerifyCID S) rt ctx cid (map Some provs) n1 = (x, (conns, e2))"
    by (rule prod_cases3)
  have "h_conns h' = conns" "e' = e2"
    using assms 1 2 3 by (auto simp: fetch_remote_def draw_Snapshot_def)
  with R_trans [OF R_trans [OF R_range [OF 1] R_LookupProviders [OF 2]] R_FetchBlock [OF 3 [unfolded FetchBlock_def]]]
  show ?thesis by simp
qed

end

end
