(* ===== verification/Http.thy ===== *)
theory Http
  imports Storage Json
begin

text \<open>
  The part of \<open>net/http\<close> the servers of the repository use: the response writer, the request
  multiplexer, and handlers that answer a request on a state. The request is what the library
  hands to a handler: the method, the decoded path, the query as its pairs in order, and the
  body. Connections, and the writing of a finished response to them, are not modelled.
\<close>

section \<open>Requests and responses\<close>

record http_request =
  rq_Method :: string
  rq_Path :: string
  rq_Query :: "(string \<times> string) list"
  rq_Body :: string

text \<open>\<open>r.URL.Query().Get(key)\<close>: the first value given, the empty string if none.\<close>

definition Query_Get :: "string \<Rightarrow> http_request \<Rightarrow> string" where
  "Query_Get key r = (case map_of (rq_Query r) key of None \<Rightarrow> [] | Some v \<Rightarrow> v)"

text \<open>
  The response so far: the headers, the status once it is written, and the body. The status is
  written once, and headers set after that are not sent.
\<close>

record response =
  rs_Header :: "string \<rightharpoonup> string"
  rs_Status :: "nat option"
  rs_Body :: string

definition fresh_response :: response where
  "fresh_response = \<lparr>rs_Header = Map.empty, rs_Status = None, rs_Body = []\<rparr>"

definition Header_Set :: "string \<Rightarrow> string \<Rightarrow> response \<Rightarrow> response" where
  "Header_Set k v w = (if rs_Status w = None then w\<lparr>rs_Header := (rs_Header w)(k \<mapsto> v)\<rparr> else w)"

definition WriteHeader :: "nat \<Rightarrow> response \<Rightarrow> response" where
  "WriteHeader code w = (if rs_Status w = None then w\<lparr>rs_Status := Some code\<rparr> else w)"

definition Write :: "string \<Rightarrow> response \<Rightarrow> response" where
  "Write b w = (WriteHeader 200 w)\<lparr>rs_Body := rs_Body w @ b\<rparr>"

text \<open>\<open>http.Error\<close> and \<open>http.NotFound\<close>\<close>

definition Error :: "string \<Rightarrow> nat \<Rightarrow> response \<Rightarrow> response" where
  "Error msg code w =
     Write (msg @ [CHR 0x0A])
       (WriteHeader code
         (Header_Set ''X-Content-Type-Options'' ''nosniff''
           (Header_Set ''Content-Type'' ''text/plain; charset=utf-8'' w)))"

definition NotFound :: "response \<Rightarrow> response" where
  "NotFound w = Error ''404 page not found'' 404 w"

text \<open>A handler that wrote nothing has answered 200.\<close>

definition finish :: "response \<Rightarrow> response" where
  "finish w = WriteHeader 200 w"

definition status_of :: "response \<Rightarrow> nat" where
  "status_of w = (case rs_Status w of None \<Rightarrow> 200 | Some code \<Rightarrow> code)"

section \<open>Handlers and the multiplexer\<close>

type_synonym 's handler = "http_request \<Rightarrow> response \<times> 's \<Rightarrow> response \<times> 's"

text \<open>
  A pattern that ends in a slash matches every path it is a prefix of, another one only
  itself; the longest match wins.
\<close>

definition mux_match :: "string \<Rightarrow> string \<Rightarrow> bool" where
  "mux_match pat path \<longleftrightarrow>
     (if pat \<noteq> [] \<and> List.last pat = CHR ''/'' then take (length pat) path = pat else pat = path)"

fun mux_find :: "(string \<times> 'h) list \<Rightarrow> string \<Rightarrow> (string \<times> 'h) option" where
  "mux_find [] path = None"
| "mux_find ((pat, h) # ps) path =
     (case mux_find ps path of
        None \<Rightarrow> if mux_match pat path then Some (pat, h) else None
      | Some (pat', h') \<Rightarrow>
          if mux_match pat path \<and> length pat' < length pat then Some (pat, h) else Some (pat', h'))"

text \<open>
  The path a request is matched by. A request for another spelling of it, or for a path that
  only a pattern with a further slash matches, is redirected; the body of that answer is left
  out.
\<close>

definition cleanPath :: "string \<Rightarrow> string" where
  "cleanPath p =
     (if p = [] then ''/''
      else
        let p1 = (if hd p = CHR ''/'' then p else CHR ''/'' # p);
            np = Clean p1
        in if List.last p1 = CHR ''/'' \<and> np \<noteq> ''/'' then np @ ''/'' else np)"

definition redirect_to :: "string \<Rightarrow> response \<Rightarrow> response" where
  "redirect_to url w = WriteHeader 301 (Header_Set ''Location'' url w)"

datatype 'h route = Route 'h | Redirect string | NoRoute

definition mux_route :: "(string \<times> 'h) list \<Rightarrow> string \<Rightarrow> 'h route" where
  "mux_route pats p =
     (let path = cleanPath p
      in case mux_find pats path of
           None \<Rightarrow>
             (if path @ ''/'' \<in> fst ` set pats then Redirect (path @ ''/'')
              else if path \<noteq> p then Redirect path else NoRoute)
         | Some (_, h) \<Rightarrow> (if path \<noteq> p then Redirect path else Route h))"

definition ServeMux :: "(string \<times> 's handler) list \<Rightarrow> 's handler" where
  "ServeMux pats r ws =
     (case mux_route pats (rq_Path r) of
        Route h \<Rightarrow> h r ws
      | Redirect url \<Rightarrow> (case ws of (w, s) \<Rightarrow> (redirect_to url w, s))
      | NoRoute \<Rightarrow> (case ws of (w, s) \<Rightarrow> (NotFound w, s)))"

section \<open>What the writer keeps\<close>

lemma Header_Set_simps [simp]:
  "rs_Status (Header_Set k v w) = rs_Status w" "rs_Body (Header_Set k v w) = rs_Body w"
  "rs_Status w = None \<Longrightarrow> rs_Header (Header_Set k v w) = (rs_Header w)(k \<mapsto> v)"
  by (simp_all add: Header_Set_def)

lemma WriteHeader_simps [simp]:
  "rs_Status (WriteHeader code w) = Some (case rs_Status w of None \<Rightarrow> code | Some c \<Rightarrow> c)"
  "rs_Body (WriteHeader code w) = rs_Body w" "rs_Header (WriteHeader code w) = rs_Header w"
  by (auto simp: WriteHeader_def split: option.split)

lemma Write_simps [simp]:
  "rs_Status (Write b w) = Some (status_of w)" "rs_Body (Write b w) = rs_Body w @ b"
  "rs_Header (Write b w) = rs_Header w"
  by (auto simp: Write_def status_of_def split: option.split)

lemma status_of_simps [simp]:
  "status_of (Header_Set k v w) = status_of w" "status_of (Write b w) = status_of w"
  "status_of (WriteHeader code w) = (case rs_Status w of None \<Rightarrow> code | Some c \<Rightarrow> c)"
  by (simp_all add: status_of_def)

lemma Error_simps [simp]:
  "rs_Body (Error msg code w) = rs_Body w @ msg @ [CHR 0x0A]"
  "rs_Status (Error msg code w) = Some (case rs_Status w of None \<Rightarrow> code | Some c \<Rightarrow> c)"
  "status_of (Error msg code w) = (case rs_Status w of None \<Rightarrow> code | Some c \<Rightarrow> c)"
  by (simp_all add: Error_def)

lemma NotFound_status [simp]: "status_of (NotFound w) = (case rs_Status w of None \<Rightarrow> 404 | Some c \<Rightarrow> c)"
  by (simp add: NotFound_def)

lemma fresh_response_simps [simp]:
  "rs_Status fresh_response = None" "rs_Body fresh_response = []" "rs_Header fresh_response = Map.empty"
  by (simp_all add: fresh_response_def)

section \<open>What the multiplexer can call\<close>

lemma mux_find_in: "mux_find ps path = Some x \<Longrightarrow> x \<in> set ps"
  by (induction ps path rule: mux_find.induct) (auto split: option.splits if_splits)

lemma mux_route_in: "mux_route ps path = Route h \<Longrightarrow> h \<in> snd ` set ps"
  by (force simp: mux_route_def Let_def split: option.splits if_splits dest!: mux_find_in)

lemma ServeMux_state:
  "snd (ServeMux pats r (w, s)) = s \<or> (\<exists>h \<in> snd ` set pats. snd (ServeMux pats r (w, s)) = snd (h r (w, s)))"
  using mux_route_in [of pats "rq_Path r"] by (cases "mux_route pats (rq_Path r)") (auto simp: ServeMux_def)

end
