(* ===== verification/Api.thy ===== *)
theory Api
  imports StoreGrowth Http
begin

text \<open>
  The HTTP interface of a node: \<open>internal/api\<close>. The \<open>Host\<close> of the handlers is the node of
  \<open>PeerHost\<close>. A handler returns, panics (the library then drops the connection, the node goes
  on), or waits for ever for the catalog lock. The context of a request and whether writes to
  its connection fail are arguments, and so is the parsed multipart form of an upload.
\<close>

section \<open>Handlers\<close>

datatype 'r outcome = Returned 'r | Panicked | Hangs

type_synonym ('s, 'c, 'e) api_handler =
  "http_request \<Rightarrow> response \<times> ('s, 'c, 'e) node \<Rightarrow> (response \<times> ('s, 'c, 'e) node) outcome"

text \<open>\<open>json.NewEncoder(w).Encode(v)\<close> on a response that says it is JSON.\<close>

definition write_json :: "json \<Rightarrow> response \<Rightarrow> response" where
  "write_json v w = Write (print_json v @ newline) (Header_Set ''Content-Type'' ''application/json'' w)"

definition handleHealth :: "('c, 'e) runtime \<Rightarrow> ('s, 'c, 'e) api_handler" where
  "handleHealth rt r ws =
     (case ws of (w, (h, d, e)) \<Rightarrow>
        case rt_range rt (dom (reg_peers (h_reg h))) e of
          (ks, e1) \<Rightarrow>
            (case draw_Snapshot rt (h_reg h) e1 of
               (ps, e2) \<Rightarrow>
                 Returned
                   (write_json
                      (JObj [(''active_peers'', JNum (decimal (ActiveCount ks (h_reg h)))),
                             (''grpc'', JStr (h_GrpcAddr h)), (''http'', JStr (h_HTTPAddr h)),
                             (''peer_id'', JStr (h_SelfID h)),
                             (''total_peers'', JNum (decimal (length ps)))]) w,
                    (h, d, e2))))"

text \<open>
  \<open>t.UTC().Format("2006-01-02T15:04:05Z")\<close>, an instant as the nanoseconds since 1970: the day
  in the proleptic Gregorian calendar, counted from the first of March of the year 0.
\<close>

definition civil_date :: "int \<Rightarrow> int \<times> int \<times> int" where
  "civil_date days =
     (let z = days + 719468;
          era = z div 146097;
          doe = z mod 146097;
          yoe = (doe - doe div 1460 + doe div 36524 - doe div 146096) div 365;
          doy = doe - (365 * yoe + yoe div 4 - yoe div 100);
          mp = (5 * doy + 2) div 153;
          day = doy - (153 * mp + 2) div 5 + 1;
          month = (if mp < 10 then mp + 3 else mp - 9);
          year = yoe + era * 400 + (if month \<le> 2 then 1 else 0)
      in (year, month, day))"

definition pad :: "nat \<Rightarrow> int \<Rightarrow> string" where
  "pad n x = (let s = decimal (nat x) in replicate (n - length s) CHR ''0'' @ s)"

definition format_time :: "time \<Rightarrow> string" where
  "format_time t =
     (let secs = t div second; sod = secs mod 86400
      in case civil_date (secs div 86400) of
           (year, month, day) \<Rightarrow>
             pad 4 year @ ''-'' @ pad 2 month @ ''-'' @ pad 2 day @ ''T'' @
             pad 2 (sod div 3600) @ '':'' @ pad 2 (sod div 60 mod 60) @ '':'' @ pad 2 (sod mod 60) @ ''Z'')"

text \<open>A nil slice, which an empty result is, encodes as null.\<close>

definition json_list :: "('a \<Rightarrow> json) \<Rightarrow> 'a list \<Rightarrow> json" where
  "json_list f xs = (if xs = [] then JNull else JArr (map f xs))"

definition peer_json :: "Record \<Rightarrow> json" where
  "peer_json p =
     JObj [(''grpc_addr'', JStr (rec_GrpcAddr p)), (''http_addr'', JStr (rec_HttpAddr p)),
           (''id'', JStr (rec_ID p)), (''last_seen'', JStr (format_time (rec_LastSeen p))),
           (''state'', JStr (rec_State p))]"

definition handlePeers :: "('c, 'e) runtime \<Rightarrow> ('s, 'c, 'e) api_handler" where
  "handlePeers rt r ws =
     (case ws of (w, (h, d, e)) \<Rightarrow>
        case draw_Snapshot rt (h_reg h) e of
          (ps, e1) \<Rightarrow> Returned (write_json (json_list peer_json ps) w, (h, d, e1)))"

text \<open>The loop over the peers; \<open>p.ID[:8]\<close> panics on an id of fewer than eight bytes.\<close>

fun graph_loop :: "string \<Rightarrow> Record list \<Rightarrow> (json list \<times> json list) option" where
  "graph_loop self [] = Some ([], [])"
| "graph_loop self (p # ps) =
     (if length (rec_ID p) < 8 then None
      else case graph_loop self ps of
             None \<Rightarrow> None
           | Some (nodes, edges) \<Rightarrow>
               Some (JObj [(''id'', JStr (rec_ID p)), (''label'', JStr (take 8 (rec_ID p))),
                           (''state'', JStr (rec_State p))] # nodes,
                     (if rec_State p = StateActive \<and> rec_ID p \<noteq> self
                      then JArr [JStr self, JStr (rec_ID p)] # edges else edges)))"

definition handleGraph :: "('c, 'e) runtime \<Rightarrow> ('s, 'c, 'e) api_handler" where
  "handleGraph rt r ws =
     (case ws of (w, (h, d, e)) \<Rightarrow>
        case draw_Snapshot rt (h_reg h) e of
          (snap, e1) \<Rightarrow>
            (case graph_loop (h_SelfID h) snap of
               None \<Rightarrow> Panicked
             | Some (nodes, edges) \<Rightarrow>
                 Returned (write_json (JObj [(''edges'', json_list (\<lambda>v. v) edges),
                                             (''nodes'', json_list (\<lambda>v. v) nodes)]) w, (h, d, e1))))"

text \<open>
  The extension of a file name: the loop looks for the last dot from the end, from index
  \<open>n - 1\<close> downwards.
\<close>

fun scan_ext :: "nat \<Rightarrow> string \<Rightarrow> string" where
  "scan_ext 0 f = ''unknown''"
| "scan_ext (Suc i) f = (if f ! i = CHR ''.'' then drop i f else scan_ext i f)"

definition file_ext :: "string \<Rightarrow> string" where
  "file_ext f = (if f = [] then [] else scan_ext (length f) f)"

text \<open>
  An upload as the library parsed it: an error of the form, no file field, or the name and the
  bytes of the file.
\<close>

type_synonym upload_form = "error + (string \<times> bytes) option"

definition quoted :: "string \<Rightarrow> string" where
  "quoted s = CHR 0x22 # s @ [CHR 0x22]"

definition upload_answer :: "string \<Rightarrow> string \<Rightarrow> string" where
  "upload_answer root cat =
     ''{'' @ quoted ''root_cid'' @ '':'' @ quoted root @ '','' @ quoted ''catalog_cid'' @ '':'' @ quoted cat @ ''}'' @ newline"

text \<open>The file is copied to a temporary one, which goes up and is removed.\<close>

definition store_upload ::
  "'s storage \<Rightarrow> os \<Rightarrow> ('c, 'e) runtime \<Rightarrow> ctx \<Rightarrow> bytes \<Rightarrow> ('s, 'c, 'e) node \<Rightarrow>
   string option \<times> (error + string) \<times> ('s, 'c, 'e) node" where
  "store_upload S os rt ctx content s =
     (case s of (h, d, e) \<Rightarrow>
        (case os_CreateTemp os ''upload-*'' d of
           (Inl err, d1) \<Rightarrow> (None, Inl err, (h, d1, e))
         | (Inr tmp, d1) \<Rightarrow>
             (case file_Write os tmp content d1 of
                (Some err, d2) \<Rightarrow> (Some tmp, Inl err, (h, d2, e))
              | (None, d2) \<Rightarrow>
                  (case file_Close os tmp of
                     Some err \<Rightarrow> (Some tmp, Inl err, (h, d2, e))
                   | None \<Rightarrow>
                       (case AddFile S os rt ctx tmp (h, d2, e) of (r, s') \<Rightarrow> (Some tmp, r, s'))))))"

definition remove_temp :: "string option \<Rightarrow> ('s, 'c, 'e) node \<Rightarrow> ('s, 'c, 'e) node" where
  "remove_temp tmp s =
     (case s of (h, d, e) \<Rightarrow> (h, case tmp of None \<Rightarrow> d | Some path \<Rightarrow> os_Remove path d, e))"

definition handleUpload ::
  "'s storage \<Rightarrow> os \<Rightarrow> ('c, 'e) runtime \<Rightarrow> 'e redis \<Rightarrow> ctx \<Rightarrow> upload_form \<Rightarrow> ('s, 'c, 'e) api_handler" where
  "handleUpload S os rt R ctx form r ws =
     (case ws of (w, s) \<Rightarrow>
        if rq_Method r \<noteq> ''POST'' then Returned (Error ''method not allowed'' 405 w, s)
        else case form of
          Inl err \<Rightarrow> Returned (Error err 400 w, s)
        | Inr None \<Rightarrow> Returned (Error ''missing file field'' 400 w, s)
        | Inr (Some (name, content)) \<Rightarrow>
            (case store_upload S os rt ctx content s of
               (tmp, Inl err, s1) \<Rightarrow> Returned (Error err 500 w, remove_temp tmp s1)
             | (tmp, Inr root, s1) \<Rightarrow>
                 (case UpdateGlobalCatalog S os rt R ctx name root (int (length content)) (file_ext name) s1 of
                    None \<Rightarrow> Hangs
                  | Some (cat, s2) \<Rightarrow>
                      Returned
                        (Write (upload_answer root (case cat of Inl _ \<Rightarrow> [] | Inr c \<Rightarrow> c))
                           (Header_Set ''Content-Type'' ''application/json'' w),
                         remove_temp tmp s2))))"

text \<open>
  A download, over the operation of the host it calls. The writer is the response: bytes
  written set the status, and an error after that can only be appended. (A write of no bytes,
  which only an empty block would cause, is not told from no write.)
\<close>

definition download_with ::
  "(string \<Rightarrow> writer \<Rightarrow> 'n \<Rightarrow> (error option \<times> bytes) \<times> 'n) \<Rightarrow> writer \<Rightarrow>
   http_request \<Rightarrow> response \<times> 'n \<Rightarrow> response \<times> 'n" where
  "download_with getfile conn r ws =
     (case ws of (w, s) \<Rightarrow>
        if rq_Method r \<noteq> ''GET'' then (Error ''method not allowed'' 405 w, s)
        else if Query_Get ''cid'' r = [] then (Error ''missing cid'' 400 w, s)
        else
          let w1 = Header_Set ''Content-Disposition'' (''attachment; filename='' @ quoted ''download.bin'')
                     (Header_Set ''Content-Type'' ''application/octet-stream'' w)
          in case getfile (Query_Get ''cid'' r) conn s of
               ((err, out), s') \<Rightarrow>
                 let w2 = (if out = [] then w1 else Write (string_of_bytes out) w1)
                 in (case err of None \<Rightarrow> w2 | Some msg \<Rightarrow> Error msg 404 w2, s'))"

definition handleDownload ::
  "'s storage \<Rightarrow> ('c, 'e) runtime \<Rightarrow> ctx \<Rightarrow> writer \<Rightarrow> ('s, 'c, 'e) api_handler" where
  "handleDownload S rt ctx conn r ws = Returned (download_with (GetFile S rt ctx) conn r ws)"

text \<open>The generated message type leaves empty fields out.\<close>

definition endpoint_json :: "PeerEndpoint \<Rightarrow> json" where
  "endpoint_json ep =
     JObj (filter (\<lambda>kv. snd kv \<noteq> JStr [])
       [(''peer_id'', JStr (ep_PeerId ep)), (''grpc_addr'', JStr (ep_GrpcAddr ep)),
        (''http_addr'', JStr (ep_HttpAddr ep))])"

definition handleSearch :: "'s storage \<Rightarrow> ('c, 'e) runtime \<Rightarrow> ctx \<Rightarrow> ('s, 'c, 'e) api_handler" where
  "handleSearch S rt ctx r ws =
     (case ws of (w, (h, d, e)) \<Rightarrow>
        if rq_Method r \<noteq> ''GET'' then Returned (Error ''method not allowed'' 405 w, (h, d, e))
        else
          let cid = Query_Get ''cid'' r
          in if cid = [] then Returned (Error ''missing cid'' 400 w, (h, d, e))
             else
               case draw_Snapshot rt (h_reg h) e of
                 (peers, e1) \<Rightarrow>
                   (case LookupProviders rt ctx (h_providers h) (h_GrpcAddr h) peers cid (h_conns h, e1) of
                      (provs, (conns, e2)) \<Rightarrow>
                        (case InspectCID S rt cid (h\<lparr>h_conns := conns\<rparr>, d, e2) of
                           (info, s') \<Rightarrow>
                             Returned
                               (write_json
                                  (JObj [(''cid'', JStr cid),
                                         (''inspect'', JStr (case info of Inl err \<Rightarrow> err | Inr msg \<Rightarrow> msg)),
                                         (''providers'', json_list endpoint_json provs)]) w, s'))))"

definition handleCatalog :: "'e redis \<Rightarrow> ('s, 'c, 'e) api_handler" where
  "handleCatalog R r ws =
     (case ws of (w, s) \<Rightarrow>
        if rq_Method r \<noteq> ''GET'' then Returned (Error ''method not allowed'' 405 w, s)
        else case current_cid R None s of
               (c, s') \<Rightarrow>
                 Returned
                   (Write (''{'' @ quoted ''catalog_cid'' @ '':'' @ quoted c @ ''}'' @ newline)
                      (Header_Set ''Content-Type'' ''application/json'' w), s'))"

section \<open>Routes\<close>

definition CORSMiddleware :: "('s, 'c, 'e) api_handler \<Rightarrow> ('s, 'c, 'e) api_handler" where
  "CORSMiddleware next_h r ws =
     (case ws of (w, s) \<Rightarrow>
        let w1 = Header_Set ''Access-Control-Allow-Headers'' ''Content-Type, ngrok-skip-browser-warning''
                   (Header_Set ''Access-Control-Allow-Methods'' ''GET, POST, OPTIONS''
                     (Header_Set ''Access-Control-Allow-Origin'' ''*'' w))
        in if rq_Method r = ''OPTIONS'' then Returned (WriteHeader 204 w1, s) else next_h r (w1, s))"

definition RegisterRoutes ::
  "'s storage \<Rightarrow> os \<Rightarrow> ('c, 'e) runtime \<Rightarrow> 'e redis \<Rightarrow> ctx \<Rightarrow> writer \<Rightarrow> upload_form \<Rightarrow>
   (string \<times> ('s, 'c, 'e) api_handler) list" where
  "RegisterRoutes S os rt R ctx conn form =
     [(''/api/health'', handleHealth rt), (''/api/peers'', handlePeers rt), (''/api/graph'', handleGraph rt),
      (''/api/upload'', handleUpload S os rt R ctx form), (''/api/download'', handleDownload S rt ctx conn),
      (''/api/search'', handleSearch S rt ctx), (''/api/catalog'', handleCatalog R)]"

definition api_serve ::
  "'s storage \<Rightarrow> os \<Rightarrow> ('c, 'e) runtime \<Rightarrow> 'e redis \<Rightarrow> ctx \<Rightarrow> writer \<Rightarrow> upload_form \<Rightarrow>
   http_request \<Rightarrow> ('s, 'c, 'e) node \<Rightarrow> (response \<times> ('s, 'c, 'e) node) outcome" where
  "api_serve S os rt R ctx conn form r s =
     CORSMiddleware
       (\<lambda>r ws. case mux_route (RegisterRoutes S os rt R ctx conn form) (rq_Path r) of
          Route h \<Rightarrow> h r ws
        | Redirect url \<Rightarrow> (case ws of (w, s) \<Rightarrow> Returned (redirect_to url w, s))
        | NoRoute \<Rightarrow> (case ws of (w, s) \<Rightarrow> Returned (NotFound w, s)))
       r (fresh_response, s)"

section \<open>Downloads\<close>

text \<open>
  What the download handler relies on of its host: what \<open>GetFile\<close> writes is vouched for, and the
  call keeps the condition under which that holds.
\<close>

locale content_host =
  fixes getfile :: "string \<Rightarrow> writer \<Rightarrow> 'n \<Rightarrow> (error option \<times> bytes) \<times> 'n"
    and sound :: "'n \<Rightarrow> bool"
    and vouched :: "string \<Rightarrow> bool \<Rightarrow> bytes \<Rightarrow> bool"
  assumes get_vouched: "sound s \<Longrightarrow> getfile root conn s = ((err, out), s') \<Longrightarrow> err = None \<or> out \<noteq> [] \<Longrightarrow>
      vouched root (err = None) out"
    and get_sound: "sound s \<Longrightarrow> getfile root conn s = ((err, out), s') \<Longrightarrow> sound s'"
begin

lemma download_cases:
  assumes "sound s" "rq_Method r = ''GET''" "Query_Get ''cid'' r \<noteq> []" "rs_Status w = None" "rs_Body w = []"
    and "download_with getfile conn r (w, s) = (w', s')"
  shows "sound s' \<and>
    (status_of w' = 200 \<and> (\<exists>out. vouched (Query_Get ''cid'' r) True out \<and> rs_Body w' = string_of_bytes out) \<or>
     status_of w' = 404 \<and> (\<exists>msg. rs_Body w' = msg @ newline) \<or>
     status_of w' = 200 \<and>
       (\<exists>out msg. out \<noteq> [] \<and> vouched (Query_Get ''cid'' r) False out \<and> rs_Body w' = string_of_bytes out @ msg @ newline))"
proof -
  obtain err out s1 where g: "getfile (Query_Get ''cid'' r) conn s = ((err, out), s1)" by (metis prod.exhaust)
  note v = get_vouched [OF assms(1) g] and k = get_sound [OF assms(1) g]
  show ?thesis
  proof (cases err)
    case None
    with g v k assms(2-6) show ?thesis
      by (cases "out = []") (auto simp: download_with_def Let_def status_of_def string_of_bytes_def)
  next
    case (Some msg)
    with g v k assms(2-6) show ?thesis
      by (cases "out = []") (auto simp: download_with_def Let_def status_of_def newline_def)
  qed
qed

end

interpretation node_content: content_host "GetFile S rt ctx"
  "\<lambda>s :: ('s, 'c, 'e) node. storage_ok S \<and> view_sound S (node_view S s)" "delivered S"
  for S :: "'s storage" and rt :: "('c, 'e) runtime" and ctx :: ctx
proof unfold_locales
  fix s s' :: "('s, 'c, 'e) node" and root conn err out
  assume ok: "storage_ok S \<and> view_sound S (node_view S s)" and g: "GetFile S rt ctx root conn s = ((err, out), s')"
  obtain h d e where s: "s = (h, d, e)" by (rule prod_cases3)
  obtain h' d' e' where s': "s' = (h', d', e')" by (rule prod_cases3)
  have d: "(err = None \<or> out \<noteq> [] \<longrightarrow> delivered S root (err = None) out) \<and> same_host h h' \<and> view_sound S (view S (h_store h') d')"
    using GetFile_delivers [of S h d rt ctx root conn e err out h' d' e'] ok g s s' by (simp add: node_view_def)
  then show "err = None \<or> out \<noteq> [] \<Longrightarrow> delivered S root (err = None) out" by blast
  show "storage_ok S \<and> view_sound S (node_view S s')" using d ok by (simp add: node_view_def s')
qed

text \<open>
  What a download over HTTP can answer. Whatever the peers do, a \<open>GET\<close> with a content id is
  answered by the whole file under 200, or by an error text under 404, or, when the failure
  comes after the first bytes, under 200 by a part of the file and an error text after it; the
  bytes of the file are always vouched for by the id.
\<close>

theorem handleDownload_answers:
  assumes "storage_ok S" "view_sound S (node_view S s)" "rq_Method r = ''GET''" "Query_Get ''cid'' r \<noteq> ''''"
  shows "case handleDownload S rt ctx conn r (fresh_response, s) of
      Returned (w, s') \<Rightarrow>
        view_sound S (node_view S s') \<and>
        (status_of w = 200 \<and> (\<exists>out. delivered S (Query_Get ''cid'' r) True out \<and> rs_Body w = string_of_bytes out) \<or>
         status_of w = 404 \<and> (\<exists>msg. rs_Body w = msg @ newline) \<or>
         status_of w = 200 \<and>
           (\<exists>out msg. out \<noteq> [] \<and> delivered S (Query_Get ''cid'' r) False out \<and>
              rs_Body w = string_of_bytes out @ msg @ newline))
    | _ \<Rightarrow> False"
proof -
  obtain w s' where d: "download_with (GetFile S rt ctx) conn r (fresh_response, s) = (w, s')" by (rule prod.exhaust)
  from node_content.download_cases [OF _ assms(3,4) _ _ d] assms(1,2) d show ?thesis
    by (simp add: handleDownload_def)
qed

text \<open>
  C39. A download that fails midway looks like a success: when \<open>GetFile\<close> has written bytes and
  then fails, the answer has status 200 and the type of a file, and the error text is appended
  to the bytes.
\<close>

theorem download_truncated:
  assumes "rq_Method r = ''GET''" "Query_Get ''cid'' r \<noteq> ''''"
    and "GetFile S rt ctx (Query_Get ''cid'' r) conn s = ((Some msg, out), s')" "out \<noteq> []"
  shows "\<exists>w. handleDownload S rt ctx conn r (fresh_response, s) = Returned (w, s') \<and> status_of w = 200 \<and>
    rs_Header w ''Content-Type'' = Some ''application/octet-stream'' \<and>
    rs_Body w = string_of_bytes out @ msg @ newline"
  using assms by (simp add: handleDownload_def download_with_def Let_def newline_def status_of_def Error_def Header_Set_def)

section \<open>The graph\<close>

lemma graph_loop_panics: "graph_loop self ps = None \<longleftrightarrow> (\<exists>p\<in>set ps. length (rec_ID p) < 8)"
  by (induction ps) (auto split: option.split)

lemma handleGraph_panics:
  assumes "runtime_ok rt" "reg_wf (h_reg h)"
  shows "handleGraph rt r (w, (h, d, e)) = Panicked \<longleftrightarrow> (\<exists>p\<in>ran (reg_peers (h_reg h)). length (rec_ID p) < 8)"
proof -
  obtain ps e1 where ps: "draw_Snapshot rt (h_reg h) e = (ps, e1)" by (rule prod.exhaust)
  from draw_Snapshot_set [OF assms ps] graph_loop_panics [of "h_SelfID h" ps] ps show ?thesis
    by (auto simp: handleGraph_def split: option.split)
qed

text \<open>
  C38. Any peer can take the graph down. The graph handler panics exactly when a peer of the
  registry has an id of fewer than eight bytes, and joining with such an id is accepted like
  any other: after it every request for the graph panics.
\<close>

theorem short_id_breaks_graph:
  assumes "runtime_ok rt" "reg_wf (h_reg h)" "ep_PeerId ep \<noteq> ''''" "length (ep_PeerId ep) < 8"
    and "svc_JoinNetwork rt (Some \<lparr>jn_Self = Some ep\<rparr>) (h, d, e) = (Inr resp, s')" "jnr_Accepted resp"
  shows "handleGraph rt r (w, s') = Panicked"
proof -
  let ?rec = "\<lparr>rec_ID = ep_PeerId ep, rec_GrpcAddr = ep_GrpcAddr ep, rec_HttpAddr = ep_HttpAddr ep,
               rec_State = StateActive, rec_LastSeen = rt_now rt e, rec_JoinedAt = 0\<rparr>"
  obtain ok reg e1 where u: "draw_Upsert rt ?rec (h_reg h) e = (ok, reg, e1)" by (rule prod_cases3)
  obtain ps e2 where ps: "draw_Snapshot rt reg e1 = (ps, e2)" by (rule prod.exhaust)
  have ok: ok and s': "s' = (h\<lparr>h_reg := reg\<rparr>, d, e2)"
    using assms(5,6) u ps by (cases ok; auto simp: svc_JoinNetwork_def)+
  from u ok obtain q where q: "reg_peers reg (ep_PeerId ep) = Some q"
    by (auto elim: draw_Upsert_stored [OF assms(2)])
  have wf: "reg_wf reg" using draw_Upsert_wf [OF assms(2) u] by blast
  then have "rec_ID q = ep_PeerId ep" using q reg_wfD(2) by blast
  with q assms(4) have "\<exists>p\<in>ran (reg_peers (h_reg (h\<lparr>h_reg := reg\<rparr>))). length (rec_ID p) < 8"
    by (auto simp: ran_def)
  with handleGraph_panics [OF assms(1), of "h\<lparr>h_reg := reg\<rparr>" r w d e2] wf s' show ?thesis by simp
qed

section \<open>Uploads\<close>

lemma scan_ext_spec:
  "i \<le> length f \<Longrightarrow> scan_ext i f =
     (if CHR ''.'' \<in> set (take i f)
      then CHR ''.'' # rev (takeWhile (\<lambda>c. c \<noteq> CHR ''.'') (rev (take i f))) @ drop i f else ''unknown'')"
proof (induction i)
  case (Suc i)
  then have t: "take (Suc i) f = take i f @ [f ! i]" "drop i f = f ! i # drop (Suc i) f"
    by (simp_all add: take_Suc_conv_app_nth Cons_nth_drop_Suc)
  show ?case
  proof (cases "f ! i = CHR ''.''")
    case True
    then show ?thesis by (simp add: t)
  next
    case False
    with Suc t show ?thesis by simp
  qed
qed simp

text \<open>
  The loop over the file name computes the extension: nothing for an empty name, \<open>unknown\<close>
  for a name without a dot, and else the last dot with what follows it.
\<close>

theorem file_ext_spec:
  "file_ext f =
     (if f = '''' then '''' else if CHR ''.'' \<notin> set f then ''unknown''
      else CHR ''.'' # rev (takeWhile (\<lambda>c. c \<noteq> CHR ''.'') (rev f)))"
  using scan_ext_spec [of "length f" f] by (simp add: file_ext_def)

lemma store_upload_holds:
  assumes "storage_ok S" "\<And>d. \<not> block_path (os_TempName os ''upload-*'' d)"
    and "store_upload S os rt ctx content (h, d, e) = (tmp, Inr root, s1)"
  obtains bs where "concat bs = content" "root = NewCID S (file_node_block S bs)"
    "inj_on (NewCID S) (set (file_node_block S bs # bs)) \<Longrightarrow> holds_file S (h_store (fst s1)) (fst (snd s1)) root bs"
    "keeps S (h, d, e) s1" "tmp = Some (os_TempName os ''upload-*'' d)"
proof -
  let ?tmp = "os_TempName os ''upload-*'' d"
  let ?d = "d(?tmp \<mapsto> content)"
  obtain h1 d1 e1 where s1: "s1 = (h1, d1, e1)" by (rule prod_cases3)
  have a: "AddFile S os rt ctx ?tmp (h, ?d, e) = (Inr root, (h1, d1, e1))" and tmp: "tmp = Some ?tmp"
    using assms(3) s1 by (auto simp: store_upload_def os_CreateTemp_def file_Write_def Let_def
        split: option.splits prod.splits)
  from AddFile_holds [OF assms(1) a] obtain bs where bs: "?d ?tmp = Some (concat bs)"
    "root = NewCID S (file_node_block S bs)"
    "inj_on (NewCID S) (set (file_node_block S bs # bs)) \<Longrightarrow> holds_file S (h_store h) d1 root bs"
    "same_host (h\<lparr>h_providers := h_providers h1\<rparr>) h1" by metis
  have "keeps S (h, ?d, e) s1" using keeps_AddFile [OF assms(1), of "(h, ?d, e)" os rt ctx ?tmp] a s1 by simp
  with keeps_disk [OF assms(1,2), of h d e d "Some content"] have k: "keeps S (h, d, e) s1" by (rule keeps_trans)
  have "h_store h1 = h_store h" using same_host_fields [OF bs(4)] by simp
  with bs k tmp s1 show thesis by (intro that [of bs]) simp_all
qed

lemma unforgeable_inj: "\<forall>b\<in>A. unforgeable S b \<Longrightarrow> inj_on (NewCID S) A"
  by (auto simp: inj_on_def unforgeable_def)

definition download_request :: "string \<Rightarrow> http_request" where
  "download_request cid =
     \<lparr>rq_Method = ''GET'', rq_Path = ''/api/download'', rq_Query = [(''cid'', cid)], rq_Body = []\<rparr>"

lemma download_held:
  assumes "storage_ok S" "holds_file S (h_store (fst s)) (fst (snd s)) root bs"
  shows "\<exists>w. handleDownload S rt ctx (\<lambda>_ _. None) (download_request root) (fresh_response, s) = Returned (w, s) \<and>
    status_of w = 200 \<and> rs_Body w = string_of_bytes (concat bs)"
proof -
  obtain h d e where s: "s = (h, d, e)" by (rule prod_cases3)
  have "GetFile S rt ctx root (\<lambda>_ _. None) s = ((None, concat bs), s)"
    using GetFile_local [OF assms(1), of h d root bs] assms(2) by (simp add: s)
  moreover have "root \<noteq> []" using holds_file_root [OF assms] .
  ultimately show ?thesis
    by (simp add: handleDownload_def download_with_def download_request_def Query_Get_def Let_def
        status_of_def string_of_bytes_def)
qed

text \<open>
  C6. Upload and download over HTTP. When an upload is answered with 200, the answer names the
  root id of a file node over blocks that make up the uploaded bytes. If nobody can produce
  other blocks with their ids, then from then on, whatever else the node does, a download of
  that id on this node is answered with 200 and exactly the bytes uploaded.
\<close>

theorem upload_then_download:
  assumes "storage_ok S" "view_sound S (node_view S s)"
    and "\<And>p d. p = ''upload-*'' \<or> p = ''catalog-*'' \<Longrightarrow> \<not> block_path (os_TempName os p d)"
    and "handleUpload S os rt R ctx (Inr (Some (name, content))) r (fresh_response, s) = Returned (w, s1)"
    and "status_of w = 200"
  shows "\<exists>root cat bs. rs_Body w = upload_answer root cat \<and> concat bs = content \<and>
    root = NewCID S (file_node_block S bs) \<and>
    ((\<forall>b\<in>set (file_node_block S bs # bs). unforgeable S b) \<longrightarrow>
       (\<forall>s2. keeps S s1 s2 \<longrightarrow>
          (\<exists>w2. handleDownload S rt' ctx' (\<lambda>_ _. None) (download_request root) (fresh_response, s2) =
                  Returned (w2, s2) \<and> status_of w2 = 200 \<and> rs_Body w2 = string_of_bytes content)))"
proof -
  obtain h d e where s: "s = (h, d, e)" by (rule prod_cases3)
  obtain tmp x s0 where u: "store_upload S os rt ctx content s = (tmp, x, s0)" by (rule prod_cases3)
  have m: "rq_Method r = ''POST''" using assms(4,5) by (auto simp: handleUpload_def split: if_splits)
  with assms(4,5) u obtain root where root: "x = Inr root"
    by (cases x) (auto simp: handleUpload_def)
  with assms(4) u m obtain cat sc where cat:
    "UpdateGlobalCatalog S os rt R ctx name root (int (length content)) (file_ext name) s0 = Some (cat, sc)"
    "s1 = remove_temp tmp sc" "rs_Body w = upload_answer root (case cat of Inl _ \<Rightarrow> [] | Inr c \<Rightarrow> c)"
    by (auto simp: handleUpload_def split: option.splits prod.splits)
  have t1: "\<not> block_path (os_TempName os ''upload-*'' d)" and t2: "\<not> block_path (os_TempName os ''catalog-*'' d)" for d
    using assms(3) by auto
  obtain bs where bs: "concat bs = content" "root = NewCID S (file_node_block S bs)"
    "inj_on (NewCID S) (set (file_node_block S bs # bs)) \<Longrightarrow> holds_file S (h_store (fst s0)) (fst (snd s0)) root bs"
    "keeps S s s0" "tmp = Some (os_TempName os ''upload-*'' d)"
    using store_upload_holds [OF assms(1) t1 u [unfolded s root]] s by metis
  have "keeps S sc s1"
    using keeps_disk [OF assms(1) t1] cat(2) bs(5) by (cases sc) (simp add: remove_temp_def os_Remove_def)
  with keeps_trans [OF keeps_UpdateGlobalCatalog [OF assms(1) t2 cat(1)]] have k: "keeps S s0 s1" by blast
  note v0 = keeps_sound [OF bs(4) assms(2)]
  have down: "\<exists>w2. handleDownload S rt' ctx' (\<lambda>_ _. None) (download_request root) (fresh_response, s2) =
                  Returned (w2, s2) \<and> status_of w2 = 200 \<and> rs_Body w2 = string_of_bytes content"
    if un: "\<forall>b\<in>set (file_node_block S bs # bs). unforgeable S b" and k2: "keeps S s1 s2" for s2
  proof -
    have "holds_file S (h_store (fst s0)) (fst (snd s0)) root bs" using bs(3) unforgeable_inj [OF un] .
    from keeps_file [OF keeps_trans [OF k k2] v0 un this] download_held [OF assms(1)] show ?thesis
      using bs(1) by blast
  qed
  show ?thesis
    using cat(3) bs(1,2) down by (intro exI [of _ root] exI [of _ "case cat of Inl _ \<Rightarrow> [] | Inr c \<Rightarrow> c"] exI [of _ bs]) blast
qed

section \<open>Examples\<close>

text \<open>A node alone in the network, with a file of two blocks of which the second is missing.\<close>

definition ex_alone :: "(string, string) PeerHost" where
  "ex_alone = ex_host\<lparr>h_reg := NewRegistry False ex_idA\<rparr>"

definition ex_two :: "bytes list" where
  "ex_two = [ex_chunk, [9]]"

definition ex_partial :: disk where
  "ex_partial = ex_put ''s'' ex_chunk (ex_put ''s'' (file_node_block ex_storage ex_two) Map.empty)"

lemma ex_os_deny: "os_deny ex_os op path = None"
  by (simp add: ex_os_def)

theorem handleDownload_answers_witness:
  "case handleDownload ex_storage (ex_rt [7] [ex_ep]) None (\<lambda>_ _. None) (download_request ''x'') (fresh_response, (ex_host, ex_disk, 0)) of
     Returned (w, s') \<Rightarrow> view_sound ex_storage (node_view ex_storage s') | _ \<Rightarrow> False"
  using handleDownload_answers [OF ex_storage_ok, where s = "(ex_host, ex_disk, 0)" and r = "download_request ''x''"
      and rt = "ex_rt [7] [ex_ep]" and ctx = None and conn = "\<lambda>_ _. None"] ex_view_sound
  by (auto simp: node_view_def download_request_def Query_Get_def split: outcome.splits)

lemma ex_answer_root:
  "upload_answer (ex_cid a) cat = upload_answer (ex_cid b) cat' \<Longrightarrow> ex_cid a = ex_cid b"
proof -
  have "length (ex_cid x) = 64" for x
    using ex_cid_key [of x] by (auto simp: KeyFromHex_def keyBytes_def split: if_splits)
  then show "upload_answer (ex_cid a) cat = upload_answer (ex_cid b) cat' \<Longrightarrow> ex_cid a = ex_cid b"
    by (simp add: upload_answer_def quoted_def)
qed

lemma ex_short_blocks: "concat bs = ex_chunk \<Longrightarrow> b \<in> set bs \<Longrightarrow> length b \<le> 30"
proof -
  assume c: "concat bs = ex_chunk" and b: "b \<in> set bs"
  from b have "length b \<le> length (concat bs)" by (induction bs) auto
  with c show "length b \<le> 30" by (simp add: ex_chunk_def)
qed

theorem upload_then_download_witness:
  "\<exists>w s1 w2. handleUpload ex_storage ex_os (ex_rt [] []) (ex_redis '''') None (Inr (Some (''f.txt'', ex_chunk)))
       \<lparr>rq_Method = ''POST'', rq_Path = ''/api/upload'', rq_Query = [], rq_Body = []\<rparr> (fresh_response, (ex_host, ex_disk, 0)) =
       Returned (w, s1) \<and>
     handleDownload ex_storage (ex_rt [] []) None (\<lambda>_ _. None) (download_request (ex_cid ex_root)) (fresh_response, s1) =
       Returned (w2, s1) \<and> status_of w2 = 200 \<and> rs_Body w2 = string_of_bytes ex_chunk"
proof -
  let ?r = "\<lparr>rq_Method = ''POST'', rq_Path = ''/api/upload'', rq_Query = [], rq_Body = []\<rparr>"
  let ?tmp = "os_TempName ex_os ''upload-*'' ex_disk"
  let ?d = "ex_disk(?tmp \<mapsto> ex_chunk)"
  obtain h1 d1 e1 where a: "AddFile ex_storage ex_os (ex_rt [] []) None ?tmp (ex_host, ?d, 0) =
      (Inr (ex_cid ex_root), (h1, d1, e1))" by (rule ex_AddFile_at [of ?d ?tmp "ex_rt [] []" None 0]) simp_all
  have su: "store_upload ex_storage ex_os (ex_rt [] []) None ex_chunk (ex_host, ex_disk, 0) =
      (Some ?tmp, Inr (ex_cid ex_root), (h1, d1, e1))"
    using a by (simp add: store_upload_def os_CreateTemp_def file_Write_def file_Close_def Let_def ex_os_deny)
  obtain bs where "same_host (ex_host\<lparr>h_providers := h_providers h1\<rparr>) h1"
    using AddFile_holds [OF ex_storage_ok a] by metis
  note same = same_host_fields [OF this]
  have "\<exists>c s2. UpdateGlobalCatalog ex_storage ex_os (ex_rt [] []) (ex_redis '''') None ''f.txt'' (ex_cid ex_root)
      (int (length ex_chunk)) (file_ext ''f.txt'') (h1, d1, e1) = Some (Inr c, s2)"
    by (rule ex_update) (use same in \<open>simp_all add: ex_near_def\<close>, simp add: ex_host_def)
  then obtain c s2 where c: "UpdateGlobalCatalog ex_storage ex_os (ex_rt [] []) (ex_redis '''') None ''f.txt''
      (ex_cid ex_root) (int (length ex_chunk)) (file_ext ''f.txt'') (h1, d1, e1) = Some (Inr c, s2)" by blast
  obtain w s1 where u: "handleUpload ex_storage ex_os (ex_rt [] []) (ex_redis '''') None (Inr (Some (''f.txt'', ex_chunk)))
      ?r (fresh_response, (ex_host, ex_disk, 0)) = Returned (w, s1)" "status_of w = 200"
      "rs_Body w = upload_answer (ex_cid ex_root) c"
    using su c by (simp add: handleUpload_def status_of_def)
  have tmp: "\<not> block_path (os_TempName ex_os p d)" if "p = ''upload-*'' \<or> p = ''catalog-*''" for p d
    using that ex_temp by (auto simp: ex_os_def block_path_def base_name_def KeyFromHex_def keyBytes_def)
  have "view_sound ex_storage (node_view ex_storage (ex_host, ex_disk, 0 :: nat))"
    using ex_view_sound by (simp add: node_view_def)
  from upload_then_download [OF ex_storage_ok this tmp u(1,2), where rt' = "ex_rt [] []" and ctx' = None]
  obtain root cat bs where down: "rs_Body w = upload_answer root cat" "concat bs = ex_chunk"
    "root = ex_cid (file_node_block ex_storage bs)"
    "(\<forall>b\<in>set (file_node_block ex_storage bs # bs). unforgeable ex_storage b) \<Longrightarrow> keeps ex_storage s1 s1 \<Longrightarrow>
      \<exists>w2. handleDownload ex_storage (ex_rt [] []) None (\<lambda>_ _. None) (download_request root) (fresh_response, s1) =
        Returned (w2, s1) \<and> status_of w2 = 200 \<and> rs_Body w2 = string_of_bytes ex_chunk"
    unfolding ex_storage_fields by blast
  have root: "root = ex_cid ex_root" using u(3) down(1,3) ex_answer_root by metis
  with down(3) have "file_node_block ex_storage bs = ex_root" using ex_cid_unique [of "file_node_block ex_storage bs" ex_root] by simp
  then have "\<forall>b\<in>set (file_node_block ex_storage bs # bs). unforgeable ex_storage b"
    using ex_unforgeable ex_short_blocks [OF down(2)] by auto
  from down(4) [OF this keeps_refl] u(1) root show ?thesis by blast
qed

lemma ex_join_accepted:
  obtains resp s' where "svc_JoinNetwork (ex_rt [] []) (Some \<lparr>jn_Self = Some \<lparr>ep_PeerId = ''x'', ep_GrpcAddr = ''y:1'', ep_HttpAddr = []\<rparr>\<rparr>)
      (ex_host, ex_disk, 0) = (Inr resp, s')" "jnr_Accepted resp"
proof -
  let ?rec = "\<lparr>rec_ID = ''x'', rec_GrpcAddr = ''y:1'', rec_HttpAddr = [], rec_State = StateActive,
    rec_LastSeen = rt_now (ex_rt [] []) 0, rec_JoinedAt = 0\<rparr>"
  obtain ok reg e1 where u: "draw_Upsert (ex_rt [] []) ?rec ex_near 0 = (ok, reg, e1)" by (rule prod_cases3)
  have small: "card (dom (reg_peers (prune_stale ks rec ex_near))) < reg_max ex_near" for ks rec
  proof -
    have "dom (reg_peers (prune_stale ks rec ex_near)) \<subseteq> {ex_idA, ex_idB}"
      by (rule prune_stale_cases [of ks rec ex_near]) (auto simp: ex_near_def split: if_splits)
    from card_mono [OF _ this] show ?thesis by (simp add: ex_near_def)
  qed
  have "fst (Upsert ks ks' now (Some ?rec) ex_near)" for ks ks' now
    by (rule Upsert_cases [of ?rec ex_near ks ks' now]) (use small [of ks ?rec] in auto)
  with u have ok by (auto simp: draw_Upsert_def split: prod.splits) (metis fst_conv)
  obtain ps e2 where "draw_Snapshot (ex_rt [] []) reg e1 = (ps, e2)" by (rule prod.exhaust)
  with u \<open>ok\<close> show thesis by (intro that) (auto simp: svc_JoinNetwork_def)
qed

theorem short_id_breaks_graph_witness:
  "\<exists>resp s'. svc_JoinNetwork (ex_rt [] []) (Some \<lparr>jn_Self = Some \<lparr>ep_PeerId = ''x'', ep_GrpcAddr = ''y:1'', ep_HttpAddr = []\<rparr>\<rparr>)
      (ex_host, ex_disk, 0) = (Inr resp, s') \<and> handleGraph (ex_rt [] []) (download_request ''x'') (fresh_response, s') = Panicked"
proof -
  obtain resp s' where j: "svc_JoinNetwork (ex_rt [] []) (Some \<lparr>jn_Self = Some \<lparr>ep_PeerId = ''x'', ep_GrpcAddr = ''y:1'', ep_HttpAddr = []\<rparr>\<rparr>)
      (ex_host, ex_disk, 0) = (Inr resp, s')" "jnr_Accepted resp" by (rule ex_join_accepted)
  have "handleGraph (ex_rt [] []) (download_request ''x'') (fresh_response, s') = Panicked"
    by (rule short_id_breaks_graph [OF ex_rt_ok _ _ _ j]) simp_all
  with j(1) show ?thesis by blast
qed

lemma ex_alone_fields [simp]:
  "h_store ex_alone = ''s''" "h_reg ex_alone = NewRegistry False ex_idA" "h_providers ex_alone = NewProviderRecords"
  by (simp_all add: ex_alone_def)

text \<open>No peer is known, so nothing can be fetched.\<close>

lemma ex_alone_fetch: "\<exists>err s'. fetch_remote ex_storage (ex_rt [] []) None cid (ex_alone, d, e) = (Inl err, s')"
  by (simp add: fetch_remote_def draw_Snapshot_def ex_rt_def LookupProviders_def lookup_targets_def NewProviderRecords_def
      prov_Get_def FetchBlock_def Snapshot_def Let_def split: prod.split)

theorem download_truncated_witness:
  "\<exists>w root msg s'. handleDownload ex_storage (ex_rt [] []) None (\<lambda>_ _. None) (download_request root)
      (fresh_response, (ex_alone, ex_partial, 0)) = Returned (w, s') \<and> status_of w = 200 \<and>
     rs_Body w = string_of_bytes ex_chunk @ msg @ newline"
proof -
  let ?fb = "file_node_block ex_storage ex_two"
  let ?root = "ex_cid ?fb"
  let ?s = "(ex_alone, ex_partial, 0 :: nat)"
  let ?c1 = "ex_cid ex_chunk" and ?c2 = "ex_cid [9]"
  have v: "view ex_storage ''s'' ex_partial = Map.empty(?root \<mapsto> ?fb, ?c1 \<mapsto> ex_chunk)"
    by (simp add: ex_partial_def ex_view_put) (simp add: fun_eq_iff ex_view_eq split: sum.split)
  have d: "?c1 \<noteq> ?root" "?c2 \<noteq> ?c1" "?c2 \<noteq> ?root"
  proof -
    have "length (ex_cid b) = 64" for b
      using ex_cid_key [of b] by (auto simp: KeyFromHex_def keyBytes_def split: if_splits)
    then have "30 < length ?fb"
      by (simp add: file_node_block_def file_block_def NewFileNode_def slice_json_copy ex_two_def print_field_def
          print_string_def escape_CID [OF ex_cid_key])
    then have fb: "?fb \<noteq> b" if "length b \<le> 30" for b using that by auto
    have short: "length ex_chunk \<le> 30" "length ([9] :: bytes) \<le> 30" by (simp_all add: ex_chunk_def)
    show "?c1 \<noteq> ?root" using ex_cid_unique [of ?fb ex_chunk] fb short by metis
    show "?c2 \<noteq> ?root" using ex_cid_unique [of ?fb "[9]"] fb short by metis
    have "[9] \<noteq> ex_chunk" by (simp add: ex_chunk_def)
    then show "?c2 \<noteq> ?c1" using ex_cid_unique [of "[9]" ex_chunk] short by metis
  qed
  have get: "store_Get ex_storage ''s'' ?root ex_partial = Inr ?fb" "store_Get ex_storage ''s'' ?c1 ex_partial = Inr ex_chunk"
    using d by (simp_all add: store_Get_view v)
  have "view ex_storage ''s'' ex_partial ?c2 = None" using d by (simp add: v)
  then obtain err where miss: "store_Get ex_storage ''s'' ?c2 ex_partial = Inl err"
    by (auto simp: view_def split: sum.splits)
  obtain err2 s' where f: "fetch_remote ex_storage (ex_rt [] []) None ?c2 ?s = (Inl err2, s')"
    using ex_alone_fetch by blast
  have "Unmarshal_FileNode ?fb = (NewFileNode [?c1, ?c2], None)"
    using file_node_encoded(2) [OF ex_storage_ok, of ex_two] by (simp add: ex_two_def)
  then obtain msg where g: "GetFile ex_storage (ex_rt [] []) None ?root (\<lambda>_ _. None) ?s = ((Some msg, ex_chunk), s')"
    using get miss f by (simp add: GetFile_def load_root_def load_chunk_def load_block_def)
  have "?root \<noteq> []" using ex_cid_key [of ?fb] by (auto simp: KeyFromHex_def keyBytes_def)
  then have "\<exists>w. handleDownload ex_storage (ex_rt [] []) None (\<lambda>_ _. None) (download_request ?root) (fresh_response, ?s) =
      Returned (w, s') \<and> status_of w = 200 \<and> rs_Header w ''Content-Type'' = Some ''application/octet-stream'' \<and>
      rs_Body w = string_of_bytes ex_chunk @ msg @ newline"
    using g by (intro download_truncated) (simp_all add: download_request_def Query_Get_def ex_chunk_def)
  then show ?thesis by blast
qed

end
