(* ===== verification/NodeLocal.thy ===== *)
theory NodeLocal
  imports Api
begin

text \<open>
  What a node does on behalf of its users: uploads, downloads and the requests of the HTTP
  interface. They change the pool, announce the node itself as a provider, move the local
  catalog, and leave the registry and the identity of the node alone (\<open>local_change\<close>). The
  locale \<open>request_relation\<close> extends any relation kept by the operations requests are composed of
  to whole requests.
\<close>

section \<open>Calls that leave the registry alone\<close>

named_theorems local_change \<open>operations that leave the registry and the identity of the node alone\<close>

definition announce_self :: "('s, 'c) PeerHost \<Rightarrow> string list \<Rightarrow> ProviderRecords" where
  "announce_self h cs = foldl (\<lambda>p c. prov_Add c (Some (SelfEndpoint h)) p) (h_providers h) cs"

definition local_change :: "('s, 'c) PeerHost \<Rightarrow> ('s, 'c) PeerHost \<Rightarrow> bool" where
  "local_change h h' \<longleftrightarrow>
     h' = h\<lparr>h_conns := h_conns h', h_providers := h_providers h', h_localCatalogCid := h_localCatalogCid h'\<rparr> \<and>
     (\<exists>cs. h_providers h' = announce_self h cs)"

lemma local_change_fields:
  "local_change h h' \<Longrightarrow> h_reg h' = h_reg h \<and> h_SelfID h' = h_SelfID h \<and> h_GrpcAddr h' = h_GrpcAddr h \<and>
   h_HTTPAddr h' = h_HTTPAddr h \<and> h_store h' = h_store h \<and> h_rtm h' = h_rtm h \<and> h_DataDir h' = h_DataDir h \<and>
   h_Bootstrap h' = h_Bootstrap h \<and> h_ReplFactor h' = h_ReplFactor h \<and> SelfEndpoint h' = SelfEndpoint h"
  by (cases h; cases h') (auto simp: local_change_def SelfEndpoint_def)

lemma announce_self_Nil [simp]: "announce_self h [] = h_providers h"
  by (simp add: announce_self_def)

lemma announce_self_append:
  "h_providers h' = announce_self h cs \<Longrightarrow> SelfEndpoint h' = SelfEndpoint h \<Longrightarrow>
   announce_self h' ds = announce_self h (cs @ ds)"
  by (simp add: announce_self_def)

lemma local_change_refl [simp]: "local_change h h"
  by (auto simp: local_change_def intro: exI [of _ "[]"])

lemma local_change_trans:
  assumes "local_change h h'" "local_change h' h''"
  shows "local_change h h''"
proof -
  obtain cs ds where p: "h_providers h' = announce_self h cs" "h_providers h'' = announce_self h' ds"
    using assms by (auto simp: local_change_def)
  then have "h_providers h'' = announce_self h (cs @ ds)"
    using announce_self_append [OF p(1)] local_change_fields [OF assms(1)] by simp
  moreover have "h'' = h\<lparr>h_conns := h_conns h'', h_providers := h_providers h'', h_localCatalogCid := h_localCatalogCid h''\<rparr>"
    using assms by (cases h; cases h'; cases h'') (auto simp: local_change_def)
  ultimately show ?thesis by (auto simp: local_change_def)
qed

lemma prov_wf_announce: "prov_wf p \<Longrightarrow> prov_wf (foldl (\<lambda>p c. prov_Add c ep p) p cs)"
  by (induction cs arbitrary: p) (simp_all add: prov_wf_Add)

lemma local_change_wf: "local_change h h' \<Longrightarrow> prov_wf (h_providers h) \<Longrightarrow> prov_wf (h_providers h')"
  by (auto simp: local_change_def announce_self_def prov_wf_announce)

lemma same_host_local_change: "same_host h h' \<Longrightarrow> local_change h h'"
  by (cases h; cases h') (auto simp: same_host_def local_change_def announce_self_def intro: exI [of _ "[]"])

lemma local_change_conns: "local_change h (h\<lparr>h_conns := cs\<rparr>)" "local_change h (h\<lparr>h_localCatalogCid := c\<rparr>)"
  by (auto simp: local_change_def intro: exI [of _ "[]"])

lemma same_host_load_block:
  assumes "load_block S rt ctx wrap cid s = (r, s')"
  shows "same_host (fst s) (fst s')"
proof -
  obtain h d e where s: "s = (h, d, e)" by (rule prod_cases3)
  obtain z h1 d1 e1 where f: "fetch_remote S rt ctx cid (h, d, e) = (z, (h1, d1, e1))" by (rule prod_cases4)
  have "same_host h h1" using fetch_remote_effect [OF f] by blast
  moreover have "fst s' = h \<or> fst s' = h1"
    using assms s f by (auto simp: load_block_def keep_block_def split: sum.splits option.splits)
  ultimately show ?thesis by (auto simp: s)
qed

lemma same_host_stream:
  "stream_chunks S rt ctx w chs out s = (r, s') \<Longrightarrow> same_host (fst s) (fst s')"
proof (induction chs arbitrary: out s)
  case (Cons ch chs)
  obtain x s1 where l: "load_chunk S rt ctx ch s = (x, s1)" by (rule prod.exhaust)
  then have k: "same_host (fst s) (fst s1)" using same_host_load_block by (simp add: load_chunk_def)
  have "s' = s1 \<or> (\<exists>out'. stream_chunks S rt ctx w chs out' s1 = (r, s'))"
    using Cons.prems l by (auto split: sum.splits option.splits)
  then show ?case using k Cons.IH same_host_trans by blast
qed simp

lemma same_host_GetFile: "same_host (fst s) (fst (snd (GetFile S rt ctx root w s)))"
proof -
  obtain x s1 where l: "load_root S rt ctx root s = (x, s1)" by (rule prod.exhaust)
  then have k: "same_host (fst s) (fst s1)" using same_host_load_block by (simp add: load_root_def)
  have "same_host (fst s) (fst (snd (stream_chunks S rt ctx w chs out s1)))" for chs out
    by (rule same_host_trans [OF k same_host_stream]) (rule prod.collapse [symmetric])
  then show ?thesis using k l by (auto simp: GetFile_def split: sum.split prod.split option.split)
qed

lemma local_change_GetFile [local_change]: "local_change (fst s) (fst (snd (GetFile S rt ctx root w s)))"
  by (rule same_host_local_change [OF same_host_GetFile])

lemma local_change_fetch [local_change]: "local_change (fst s) (fst (snd (fetch_remote S rt ctx cid s)))"
proof -
  obtain h d e where s: "s = (h, d, e)" by (rule prod_cases3)
  obtain z h1 d1 e1 where f: "fetch_remote S rt ctx cid (h, d, e) = (z, (h1, d1, e1))" by (rule prod_cases4)
  with fetch_remote_effect [OF f] show ?thesis by (simp add: s same_host_local_change)
qed

lemma local_change_InspectCID [local_change]: "local_change (fst s) (fst (snd (InspectCID S rt c s)))"
  using local_change_fetch [of s S rt None c]
  by (cases s) (auto simp: InspectCID_def split: sum.split prod.split)

lemma local_change_AddFile [local_change]: "local_change (fst s) (fst (snd (AddFile S os rt ctx path s)))"
proof -
  obtain h d e where s: "s = (h, d, e)" by (rule prod_cases3)
  have ra: "local_change h (fst (snd (replicate_all S rt ctx cs (h\<lparr>h_providers := foldl (\<lambda>p c. prov_Add c (Some (SelfEndpoint h)) p)
      (prov_Add root (Some (SelfEndpoint h)) (h_providers h)) chs\<rparr>, d2, e2))))" for cs chs root d2 e2
  proof -
    let ?h = "h\<lparr>h_providers := announce_self h (root # chs)\<rparr>"
    obtain z h1 d3 e3 where r: "replicate_all S rt ctx cs (?h, d2, e2) = (z, (h1, d3, e3))" by (rule prod_cases4)
    have "local_change h ?h" by (auto simp: local_change_def)
    moreover have "local_change ?h h1" using replicate_all_effect [OF r] same_host_local_change by blast
    ultimately have "local_change h h1" by (rule local_change_trans)
    with r show ?thesis by (simp add: announce_self_def)
  qed
  have snd_case: "snd (case y of (Inl err, s') \<Rightarrow> (Inl err, s') | (Inr u, s') \<Rightarrow> (Inr z, s')) = snd y"
    for y :: "('x + 'y) \<times> 'z" and z by (cases y) (simp split: sum.split)
  show ?thesis
    using ra by (simp add: s AddFile_def Let_def snd_case del: replicate_all.simps split: sum.split prod.split)
qed

section \<open>Requests\<close>

text \<open>
  The contract: the relation is kept by what uploads, downloads and the catalog are made of,
  by the temporary files, and, where there is a Redis client, by its calls.
\<close>

locale request_relation =
  fixes S :: "'s storage" and os :: os and rt :: "('c, 'e) runtime"
    and T :: "('s, 'c, 'e) node \<Rightarrow> ('s, 'c, 'e) node \<Rightarrow> bool"
  assumes T_refl: "T s s"
    and T_trans: "T s t \<Longrightarrow> T t u \<Longrightarrow> T s u"
    and T_range: "rt_range rt (K :: string set) e = (ks, e') \<Longrightarrow> T (h, d, e) (h, d, e')"
    and T_lookup: "LookupProviders rt ctx (h_providers h) (h_GrpcAddr h) ps c (h_conns h, e) = (out, (conns, e')) \<Longrightarrow>
      T (h, d, e) (h\<lparr>h_conns := conns\<rparr>, d, e')"
    and T_InspectCID: "T s (snd (InspectCID S rt c s))"
    and T_GetFile: "T s (snd (GetFile S rt ctx root w s))"
    and T_AddFile: "T s (snd (AddFile S os rt ctx path s))"
    and T_temp: "p = ''upload-*'' \<or> p = ''catalog-*'' \<Longrightarrow> T (h, d, e) (h, d(os_TempName os p d' := x), e)"
    and T_catalog: "T (h, d, e) (h\<lparr>h_localCatalogCid := c\<rparr>, d, e)"
    and T_rdb: "T s t \<Longrightarrow> reg_rdb (h_reg (fst t)) = reg_rdb (h_reg (fst s))"
    and T_redis: "reg_rdb (h_reg h) \<noteq> None \<Longrightarrow> T (h, d, e) (h, d, e')"
begin

lemma T_upload_bytes: "T s (snd (upload_bytes S os rt ctx b s))"
proof -
  obtain h d e where s: "s = (h, d, e)" by (rule prod_cases3)
  let ?tmp = "os_TempName os ''catalog-*'' d"
  note t = T_temp [OF disjI2 [OF refl]]
  obtain r h1 d1 e1 where a: "AddFile S os rt ctx ?tmp (h, d(?tmp \<mapsto> b), e) = (r, (h1, d1, e1))" by (rule prod_cases4)
  have "T (h, d, e) (h1, d1, e1)" using T_trans [OF t T_AddFile [of "(h, d(?tmp \<mapsto> b), e)" ctx ?tmp]] a by simp
  from T_trans [OF this t, of d None] have "T (h, d, e) (h1, d1(?tmp := None), e1)" .
  with a t [of h d e] T_refl show ?thesis
    by (auto simp: s upload_bytes_def os_CreateTemp_def file_Write_def os_Remove_def Let_def split: option.split)
qed

lemma T_current_cid: "current_cid R ctx s = (c, s') \<Longrightarrow> T s s'"
  by (cases s) (auto simp: current_cid_def T_refl T_redis split: if_splits prod.splits sum.splits)

lemma T_update_locked: "T s (snd (update_locked S os rt R ctx entry s))"
proof -
  obtain c s1 where 1: "current_cid R ctx s = (c, s1)" by (rule prod.exhaust)
  obtain b s2 where 2: "current_bytes S rt ctx c s1 = (b, s2)" by (rule prod.exhaust)
  have k2: "T s1 s2"
    using 2 T_refl T_GetFile [of s1 ctx c "\<lambda>_ _. None"]
    by (auto simp: current_bytes_def split: if_splits prod.splits option.splits)
  obtain r s3 where 3: "upload_bytes S os rt ctx (b @ bytes_of_string entry) s2 = (r, s3)" by (rule prod.exhaust)
  have k3: "T s2 s3" using 3 T_upload_bytes [of s2 ctx "b @ bytes_of_string entry"] by simp
  note k = T_trans [OF T_trans [OF T_current_cid [OF 1] k2] k3]
  have "T s3 (set_current R ctx x s3)" for x
    by (cases s3) (auto simp: set_current_def T_catalog T_redis)
  with k T_trans [OF k] 1 2 3 show ?thesis by (simp add: update_locked_def split: sum.split)
qed

lemma T_UpdateGlobalCatalog:
  assumes "UpdateGlobalCatalog S os rt R ctx name cid sz ext s = Some (r, s')"
  shows "T s s'"
proof -
  obtain h d e where s: "s = (h, d, e)" by (rule prod_cases3)
  let ?u = "\<lambda>s. update_locked S os rt R ctx (catalog_entry name cid sz ext) s"
  show ?thesis
  proof (cases "reg_rdb (h_reg h) = None")
    case True
    with assms(1) s T_update_locked [of s R ctx "catalog_entry name cid sz ext"] show ?thesis
      by (auto simp: UpdateGlobalCatalog_def Let_def)
  next
    case False
    then obtain err e1 where l: "acquire_lock R ctx (h_SelfID h) e = Some (err, e1)"
      using assms(1) s by (auto simp: UpdateGlobalCatalog_def Let_def split: option.splits)
    have 1: "T s (h, d, e1)" using T_redis [OF False] by (simp add: s)
    obtain z h2 d2 e2 where u: "?u (h, d, e1) = (z, (h2, d2, e2))" by (rule prod_cases4)
    have 2: "T s (h2, d2, e2)" using T_trans [OF 1 T_update_locked] u by (metis snd_conv)
    have "reg_rdb (h_reg h2) \<noteq> None" using T_rdb [OF 2] False s by simp
    from T_trans [OF 2 T_redis [OF this]] have "T s (h2, d2, rd_Del R None lockKey e2)" .
    with 1 assms(1) s l u False show ?thesis
      by (cases err) (auto simp: UpdateGlobalCatalog_def Let_def)
  qed
qed

lemma T_store_upload:
  assumes "store_upload S os rt ctx content s = (tmp, r, s')"
  shows "T s s'" "T t (remove_temp tmp t)"
proof -
  obtain h d e where s: "s = (h, d, e)" by (rule prod_cases3)
  let ?tmp = "os_TempName os ''upload-*'' d"
  note t = T_temp [OF disjI1 [OF refl]]
  obtain x s2 where a: "AddFile S os rt ctx ?tmp (h, d(?tmp \<mapsto> content), e) = (x, s2)" by (rule prod.exhaust)
  have "T s s2" using T_trans [OF t T_AddFile [of "(h, d(?tmp \<mapsto> content), e)" ctx ?tmp]] a s by simp
  with assms a t T_refl show "T s s'"
    by (auto simp: s store_upload_def os_CreateTemp_def file_Write_def Let_def split: option.splits prod.splits)
  have "tmp = None \<or> tmp = Some ?tmp"
    using assms by (auto simp: s store_upload_def os_CreateTemp_def file_Write_def Let_def split: option.splits prod.splits)
  then show "T t (remove_temp tmp t)" by (cases t) (auto simp: remove_temp_def os_Remove_def T_refl t)
qed

text \<open>The handlers.\<close>

lemma T_snapshot: "draw_Snapshot rt (h_reg h) e = (ps, e') \<Longrightarrow> T (h, d, e) (h, d, e')"
  by (auto simp: draw_Snapshot_def intro: T_range split: prod.splits)

lemma T_simple:
  "handleHealth rt r (w, s) = Returned (w', s') \<Longrightarrow> T s s'"
  "handlePeers rt r (w, s) = Returned (w', s') \<Longrightarrow> T s s'"
  "handleGraph rt r (w, s) = Returned (w', s') \<Longrightarrow> T s s'"
  "handleCatalog R r (w, s) = Returned (w', s') \<Longrightarrow> T s s'"
proof -
  show "handleHealth rt r (w, s) = Returned (w', s') \<Longrightarrow> T s s'"
    by (cases s) (auto simp: handleHealth_def intro: T_trans [OF T_range T_snapshot] split: prod.splits)
  show "handlePeers rt r (w, s) = Returned (w', s') \<Longrightarrow> T s s'"
    by (cases s) (auto simp: handlePeers_def intro: T_snapshot split: prod.splits)
  show "handleGraph rt r (w, s) = Returned (w', s') \<Longrightarrow> T s s'"
    by (cases s) (auto simp: handleGraph_def intro: T_snapshot split: prod.splits option.splits)
  show "handleCatalog R r (w, s) = Returned (w', s') \<Longrightarrow> T s s'"
    by (auto simp: handleCatalog_def T_refl intro: T_current_cid split: if_splits prod.splits)
qed

lemma T_handleDownload: "handleDownload S rt ctx conn r (w, s) = Returned (w', s') \<Longrightarrow> T s s'"
proof -
  assume h: "handleDownload S rt ctx conn r (w, s) = Returned (w', s')"
  let ?g = "GetFile S rt ctx (Query_Get ''cid'' r) conn s"
  have "s' = s \<or> s' = snd ?g"
    using h by (auto simp: handleDownload_def download_with_def Let_def split: if_splits prod.splits)
  then show "T s s'" using T_refl [of s] T_GetFile [of s] by (elim disjE) simp_all
qed

lemma T_handleSearch: "handleSearch S rt ctx r (w, s) = Returned (w', s') \<Longrightarrow> T s s'"
proof -
  assume h: "handleSearch S rt ctx r (w, s) = Returned (w', s')"
  obtain hh d e where s: "s = (hh, d, e)" by (rule prod_cases3)
  obtain ps e1 where 1: "draw_Snapshot rt (h_reg hh) e = (ps, e1)" by (rule prod.exhaust)
  let ?c = "Query_Get ''cid'' r"
  obtain provs conns e2 where 2: "LookupProviders rt ctx (h_providers hh) (h_GrpcAddr hh) ps ?c (h_conns hh, e1) = (provs, (conns, e2))"
    by (rule prod_cases3)
  let ?s = "(hh\<lparr>h_conns := conns\<rparr>, d, e2)"
  have "T s (snd (InspectCID S rt ?c ?s))"
    using T_trans [OF T_trans [OF T_snapshot [OF 1] T_lookup [OF 2]] T_InspectCID] by (simp add: s)
  moreover have "s' = s \<or> s' = snd (InspectCID S rt ?c ?s)"
    using h s 1 2 by (auto simp: handleSearch_def Let_def split: if_splits prod.splits)
  ultimately show "T s s'" using T_refl [of s] by (elim disjE) simp_all
qed

lemma T_handleUpload: "handleUpload S os rt R ctx form r (w, s) = Returned (w', s') \<Longrightarrow> T s s'"
proof -
  assume h: "handleUpload S os rt R ctx form r (w, s) = Returned (w', s')"
  show "T s s'"
  proof (cases "\<exists>name content. form = Inr (Some (name, content)) \<and> rq_Method r = ''POST''")
    case True
    then obtain name content where f: "form = Inr (Some (name, content))" "rq_Method r = ''POST''" by blast
    obtain tmp x s1 where u: "store_upload S os rt ctx content s = (tmp, x, s1)" by (rule prod_cases3)
    note k = T_store_upload [OF u]
    show ?thesis
    proof (cases x)
      case (Inl err)
      with h f u T_trans [OF k] show ?thesis by (simp add: handleUpload_def)
    next
      case (Inr root)
      with h f u obtain cat s2 where
        "UpdateGlobalCatalog S os rt R ctx name root (int (length content)) (file_ext name) s1 = Some (cat, s2)"
        "s' = remove_temp tmp s2" by (auto simp: handleUpload_def split: option.splits)
      with T_trans [OF T_trans [OF k(1) T_UpdateGlobalCatalog] k(2)] show ?thesis by simp
    qed
  next
    case False
    with h have "s' = s" by (auto simp: handleUpload_def split: if_splits sum.splits option.splits)
    then show ?thesis by (simp add: T_refl)
  qed
qed

lemma T_api_serve:
  assumes "api_serve S os rt R ctx conn form r s = Returned (w, s')"
  shows "T s s'"
proof (cases "mux_route (RegisterRoutes S os rt R ctx conn form) (rq_Path r)")
  case (Route h)
  have "h \<in> snd ` set (RegisterRoutes S os rt R ctx conn form)" using mux_route_in [OF Route] .
  then have "h = handleHealth rt \<or> h = handlePeers rt \<or> h = handleGraph rt \<or> h = handleCatalog R \<or>
      h = handleDownload S rt ctx conn \<or> h = handleSearch S rt ctx \<or> h = handleUpload S os rt R ctx form"
    by (auto simp: RegisterRoutes_def)
  then have "h r (w1, s) = Returned (w, s') \<Longrightarrow> T s s'" for w1
    using T_simple(1-3) [of r w1 s w s'] T_simple(4) [of R r w1 s w s'] T_handleDownload [of ctx conn r w1 s w s'] T_handleSearch [of ctx r w1 s w s']
      T_handleUpload [of R ctx form r w1 s w s'] by (elim disjE) simp_all
  moreover have "s' = s \<or> (\<exists>w1. h r (w1, s) = Returned (w, s'))"
    using assms Route by (auto simp: api_serve_def CORSMiddleware_def Let_def split: if_splits)
  ultimately show ?thesis using T_refl [of s] by (elim disjE exE) simp_all
qed (use assms T_refl [of s] in \<open>auto simp: api_serve_def CORSMiddleware_def Let_def split: if_splits\<close>)

end

section \<open>A request is a local change that only adds blocks\<close>

definition temp_files_ok :: "os \<Rightarrow> bool" where
  "temp_files_ok os \<longleftrightarrow> (\<forall>p d. p = ''upload-*'' \<or> p = ''catalog-*'' \<longrightarrow> \<not> block_path (os_TempName os p d))"

definition local_step :: "'s storage \<Rightarrow> ('s, 'c, 'e) node \<Rightarrow> ('s, 'c, 'e) node \<Rightarrow> bool" where
  "local_step S s s' \<longleftrightarrow> local_change (fst s) (fst s') \<and> keeps S s s'"

lemma local_step_refl [simp]: "local_step S s s"
  by (simp add: local_step_def)

lemma local_step_trans: "local_step S s t \<Longrightarrow> local_step S t u \<Longrightarrow> local_step S s u"
  unfolding local_step_def using local_change_trans keeps_trans by blast

text \<open>The relation under the assumptions it needs, so that the interpretation has none.\<close>

definition request_local :: "'s storage \<Rightarrow> os \<Rightarrow> ('s, 'c, 'e) node \<Rightarrow> ('s, 'c, 'e) node \<Rightarrow> bool" where
  "request_local S os s s' \<longleftrightarrow>
     local_change (fst s) (fst s') \<and> (storage_ok S \<and> temp_files_ok os \<longrightarrow> keeps S s s')"

interpretation request: request_relation S os rt "request_local S os"
  for S :: "'s storage" and os :: os and rt :: "('c, 'e) runtime"
proof unfold_locales
  fix s t u :: "('s, 'c, 'e) node"
  show "request_local S os s s" by (simp add: request_local_def)
  show "request_local S os s t \<Longrightarrow> request_local S os t u \<Longrightarrow> request_local S os s u"
    unfolding request_local_def using local_change_trans keeps_trans by blast
  show "request_local S os s t \<Longrightarrow> reg_rdb (h_reg (fst t)) = reg_rdb (h_reg (fst s))"
    using local_change_fields [of "fst s" "fst t"] by (simp add: request_local_def)
  show "request_local S os s (snd (InspectCID S rt c s))" for c
    by (simp add: request_local_def local_change_InspectCID keeps_InspectCID)
  show "request_local S os s (snd (GetFile S rt ctx root w s))" for ctx root w
    by (simp add: request_local_def local_change_GetFile keeps_GetFile)
  show "request_local S os s (snd (AddFile S os rt ctx path s))" for ctx path
    by (simp add: request_local_def local_change_AddFile keeps_AddFile)
next
  fix p x d' and h :: "('s, 'c) PeerHost" and d and e :: 'e
  assume "p = ''upload-*'' \<or> p = ''catalog-*''"
  then show "request_local S os (h, d, e) (h, d(os_TempName os p d' := x), e)"
    using keeps_disk [of S "os_TempName os p d'" h d e x] by (auto simp: request_local_def temp_files_ok_def)
qed (auto simp: request_local_def local_change_conns node_view_def intro: keeps_same)

lemma api_serve_local:
  assumes "storage_ok S" "temp_files_ok os" "api_serve S os rt R ctx conn form r s = Returned (w, s')"
  shows "local_step S s s'"
  using request.T_api_serve [OF assms(3)] assms(1,2) by (simp add: request_local_def local_step_def)

lemma store_upload_local:
  assumes "storage_ok S" "temp_files_ok os" "store_upload S os rt ctx content s = (tmp, r, s')"
  shows "local_step S s s'"
  using request.T_store_upload(1) [OF assms(3)] assms(1,2) by (simp add: request_local_def local_step_def)

end
