(* ===== verification/BootstrapSync.thy ===== *)
theory BootstrapSync
  imports GrpcService
begin

text \<open>
  Discovery: \<open>internal/coordinator/bootstrap_sync.go\<close> and the bootstrap loop of
  \<open>internal/coordinator/node.go\<close>. The HTTP client is a parameter: a request gives an error or
  a status and a body. An address that does not parse as a URL is one of its errors.
\<close>

section \<open>Messages\<close>

record BootstrapPeer =
  bp_PeerID :: string
  bp_GrpcAddr :: string
  bp_HttpAddr :: string

definition BootstrapPeer_json :: "BootstrapPeer \<Rightarrow> json" where
  "BootstrapPeer_json p =
     JObj [(''peer_id'', JStr (bp_PeerID p)), (''grpc_addr'', JStr (bp_GrpcAddr p)),
           (''http_addr'', JStr (bp_HttpAddr p))]"

definition zero_BootstrapPeer :: BootstrapPeer where
  "zero_BootstrapPeer = \<lparr>bp_PeerID = [], bp_GrpcAddr = [], bp_HttpAddr = []\<rparr>"

definition set_BootstrapPeer :: "string \<Rightarrow> BootstrapPeer \<Rightarrow> json \<Rightarrow> BootstrapPeer \<times> error option" where
  "set_BootstrapPeer name p v =
     (if name = ''peer_id''
      then (case decode_string (bp_PeerID p) v of (s, err) \<Rightarrow> (p\<lparr>bp_PeerID := s\<rparr>, err))
      else if name = ''grpc_addr''
      then (case decode_string (bp_GrpcAddr p) v of (s, err) \<Rightarrow> (p\<lparr>bp_GrpcAddr := s\<rparr>, err))
      else (case decode_string (bp_HttpAddr p) v of (s, err) \<Rightarrow> (p\<lparr>bp_HttpAddr := s\<rparr>, err)))"

definition decode_BootstrapPeer :: "BootstrapPeer \<Rightarrow> json \<Rightarrow> BootstrapPeer \<times> error option" where
  "decode_BootstrapPeer = decode_struct [''peer_id'', ''grpc_addr'', ''http_addr''] set_BootstrapPeer"

text \<open>\<open>json.NewDecoder(body).Decode(&list)\<close> for a list of peers.\<close>

definition Decode_peers :: "string \<Rightarrow> error + BootstrapPeer list" where
  "Decode_peers body =
     (case decode_json body of
        None \<Rightarrow> Inl json_syntax_error
      | Some v \<Rightarrow>
          (case decode_slice_field zero_BootstrapPeer decode_BootstrapPeer None v of
             (_, Some err) \<Rightarrow> Inl err
           | (list, None) \<Rightarrow> Inr (elems list)))"

section \<open>Operations\<close>

text \<open>A request: method, URL and body. The response: status and body.\<close>

type_synonym 'e http_client = "string \<Rightarrow> string \<Rightarrow> string \<Rightarrow> 'e \<Rightarrow> (error + nat \<times> string) \<times> 'e"

definition TrimRight_slash :: "string \<Rightarrow> string" where
  "TrimRight_slash s = rev (dropWhile (\<lambda>c. c = CHR ''/'') (rev s))"

definition status_error :: "string \<Rightarrow> nat \<Rightarrow> string \<Rightarrow> error" where
  "status_error what code body = what @ '': status '' @ decimal code @ '': '' @ body"

definition registerBootstrap ::
  "'e http_client \<Rightarrow> ('s, 'c, 'e) node \<Rightarrow> error option \<times> ('s, 'c, 'e) node" where
  "registerBootstrap http s =
     (case s of (h, d, e) \<Rightarrow>
        if h_Bootstrap h = [] then (None, s)
        else
          let body = print_json (BootstrapPeer_json
                \<lparr>bp_PeerID = h_SelfID h, bp_GrpcAddr = h_GrpcAddr h, bp_HttpAddr = h_HTTPAddr h\<rparr>);
              u = TrimRight_slash (h_Bootstrap h) @ ''/v1/register''
          in case http ''POST'' u body e of
               (Inl err, e') \<Rightarrow> (Some err, (h, d, e'))
             | (Inr (code, b), e') \<Rightarrow>
                 ((if 300 \<le> code then Some (status_error ''register'' code b) else None), (h, d, e')))"

definition active_record :: "PeerEndpoint \<Rightarrow> time \<Rightarrow> Record" where
  "active_record ep now =
     \<lparr>rec_ID = ep_PeerId ep, rec_GrpcAddr = ep_GrpcAddr ep, rec_HttpAddr = ep_HttpAddr ep,
      rec_State = StateActive, rec_LastSeen = now, rec_JoinedAt = 0\<rparr>"

text \<open>The peers a joined peer knows: each with an id is upserted, the node itself included.\<close>

fun merge_known ::
  "('c, 'e) runtime \<Rightarrow> PeerEndpoint option list \<Rightarrow> ('s, 'c, 'e) node \<Rightarrow> ('s, 'c, 'e) node" where
  "merge_known rt [] s = s"
| "merge_known rt (None # eps) s = merge_known rt eps s"
| "merge_known rt (Some ep # eps) (h, d, e) =
     (if ep_PeerId ep = [] then merge_known rt eps (h, d, e)
      else case draw_Upsert rt (active_record ep (rt_now rt e)) (h_reg h) e of
             (_, reg, e') \<Rightarrow> merge_known rt eps (h\<lparr>h_reg := reg\<rparr>, d, e'))"

text \<open>Join one peer; a failed call or a refusal is ignored.\<close>

definition join_peer ::
  "('c, 'e) runtime \<Rightarrow> ctx \<Rightarrow> string \<Rightarrow> ('s, 'c, 'e) node \<Rightarrow> ('s, 'c, 'e) node" where
  "join_peer rt ctx addr s =
     (case s of (h, d, e) \<Rightarrow>
        (case with_client rt ctx (8 * second) addr
                (\<lambda>cctx cli e. rt_JoinNetwork rt cctx cli \<lparr>jn_Self = Some (SelfEndpoint h)\<rparr> e) (h_conns h, e) of
           (Inl _, (conns, e')) \<Rightarrow> (h\<lparr>h_conns := conns\<rparr>, d, e')
         | (Inr resp, (conns, e')) \<Rightarrow>
             (if \<not> jnr_Accepted resp then (h\<lparr>h_conns := conns\<rparr>, d, e')
              else merge_known rt (jnr_KnownPeers resp) (h\<lparr>h_conns := conns\<rparr>, d, e'))))"

fun merge_listed ::
  "('c, 'e) runtime \<Rightarrow> ctx \<Rightarrow> BootstrapPeer list \<Rightarrow> ('s, 'c, 'e) node \<Rightarrow> ('s, 'c, 'e) node" where
  "merge_listed rt ctx [] s = s"
| "merge_listed rt ctx (bp # bps) (h, d, e) =
     (if bp_PeerID bp = [] \<or> bp_PeerID bp = h_SelfID h then merge_listed rt ctx bps (h, d, e)
      else
        case draw_Upsert rt
               (active_record \<lparr>ep_PeerId = bp_PeerID bp, ep_GrpcAddr = bp_GrpcAddr bp, ep_HttpAddr = bp_HttpAddr bp\<rparr>
                  (rt_now rt e)) (h_reg h) e of
          (ok, reg, e') \<Rightarrow>
            let s' = (h\<lparr>h_reg := reg\<rparr>, d, e')
            in if \<not> ok then merge_listed rt ctx bps s'
               else if bp_GrpcAddr bp = [] then merge_listed rt ctx bps s'
               else merge_listed rt ctx bps (join_peer rt ctx (bp_GrpcAddr bp) s'))"

definition mergeBootstrapPeers ::
  "'e http_client \<Rightarrow> ('c, 'e) runtime \<Rightarrow> ctx \<Rightarrow> ('s, 'c, 'e) node \<Rightarrow> error option \<times> ('s, 'c, 'e) node" where
  "mergeBootstrapPeers http rt ctx s =
     (case s of (h, d, e) \<Rightarrow>
        if h_Bootstrap h = [] then (None, s)
        else
          case http ''GET'' (TrimRight_slash (h_Bootstrap h) @ ''/v1/peers'') [] e of
            (Inl err, e') \<Rightarrow> (Some err, (h, d, e'))
          | (Inr (code, b), e') \<Rightarrow>
              (if 300 \<le> code then (Some (status_error ''peers'' code b), (h, d, e'))
               else case Decode_peers b of
                      Inl err \<Rightarrow> (Some err, (h, d, e'))
                    | Inr list \<Rightarrow> (None, merge_listed rt ctx list (h, d, e'))))"

text \<open>One round of the bootstrap loop; the errors of both calls are only logged.\<close>

definition bootstrap_tick ::
  "'e http_client \<Rightarrow> ('c, 'e) runtime \<Rightarrow> ctx \<Rightarrow> ('s, 'c, 'e) node \<Rightarrow> ('s, 'c, 'e) node" where
  "bootstrap_tick http rt ctx s =
     (if h_Bootstrap (fst s) = [] then s
      else snd (mergeBootstrapPeers http rt ctx (snd (registerBootstrap http s))))"

section \<open>The list on the wire\<close>

definition ascii_peer :: "BootstrapPeer \<Rightarrow> bool" where
  "ascii_peer p \<longleftrightarrow> ascii (bp_PeerID p) \<and> ascii (bp_GrpcAddr p) \<and> ascii (bp_HttpAddr p)"

lemma plain_peer: "ascii_peer p \<Longrightarrow> plain (BootstrapPeer_json p)"
  by (simp add: ascii_peer_def BootstrapPeer_json_def)

lemma nesting_peer: "nesting (BootstrapPeer_json p) = 1"
  by (simp add: BootstrapPeer_json_def)

lemma decode_peer: "decode_BootstrapPeer zero_BootstrapPeer (BootstrapPeer_json p) = (p, None)"
  by (simp add: decode_BootstrapPeer_def decode_struct_def BootstrapPeer_json_def match_field_def
      set_BootstrapPeer_def zero_BootstrapPeer_def decode_string_def save_error_def)

lemma decode_peers_elems:
  "decode_elems zero_BootstrapPeer decode_BootstrapPeer (map BootstrapPeer_json ps) [] = (ps, None)"
  by (induction ps) (simp_all add: decode_peer save_error_def)

lemma Decode_peers_print:
  assumes "\<forall>p\<in>set ps. ascii_peer p"
  shows "Decode_peers (print_json (JArr (map BootstrapPeer_json ps)) @ t) = Inr ps"
proof -
  have "foldr max (map (nesting \<circ> BootstrapPeer_json) ps) 0 \<le> 1" by (induction ps) (simp_all add: nesting_peer)
  then have "nesting (JArr (map BootstrapPeer_json ps)) \<le> maxNestingDepth"
    by (simp add: maxNestingDepth_def)
  moreover have "plain (JArr (map BootstrapPeer_json ps))" using assms plain_peer by simp
  ultimately have d: "decode_json (print_json (JArr (map BootstrapPeer_json ps)) @ t) =
      Some (JArr (map BootstrapPeer_json ps))" by (rule decode_print [rotated])
  show ?thesis
  proof (cases ps)
    case Nil
    with d show ?thesis
      by (simp add: Decode_peers_def decode_slice_field_def decode_slice_def elems_def slice_elems_def)
  next
    case (Cons p qs)
    with d decode_peers_elems [of ps] show ?thesis
      unfolding Decode_peers_def d
      by (auto simp: decode_slice_field_def decode_slice_def elems_def slice_elems_def
          decode_peer split: prod.splits)
  qed
qed

section \<open>The rounds are runs of the abstract node\<close>

text \<open>What discovery changes of a node: its registry, its pool and the world.\<close>

definition same_but_reg :: "('s, 'c) PeerHost \<Rightarrow> ('s, 'c) PeerHost \<Rightarrow> bool" where
  "same_but_reg h h' \<longleftrightarrow> h' = h\<lparr>h_reg := h_reg h', h_conns := h_conns h'\<rparr>"

lemma same_but_reg_simps [simp]:
  "same_but_reg h h" "same_but_reg h (h'\<lparr>h_reg := r\<rparr>) \<longleftrightarrow> same_but_reg h h'"
  "same_but_reg h (h'\<lparr>h_conns := cs\<rparr>) \<longleftrightarrow> same_but_reg h h'"
  by (cases h; cases h'; auto simp: same_but_reg_def)+

lemma same_but_reg_trans: "same_but_reg h h' \<Longrightarrow> same_but_reg h' h'' \<Longrightarrow> same_but_reg h h''"
  by (cases h; cases h'; cases h'') (auto simp: same_but_reg_def)

lemma same_but_reg_fields:
  assumes "same_but_reg h h'"
  shows "h_providers h' = h_providers h" "h_SelfID h' = h_SelfID h" "h_store h' = h_store h"
    "h_GrpcAddr h' = h_GrpcAddr h" "h_HTTPAddr h' = h_HTTPAddr h" "h_Bootstrap h' = h_Bootstrap h"
  using assms by (cases h; cases h'; auto simp: same_but_reg_def)+

text \<open>A run that consists of upserts of active peers.\<close>

fun is_upsert :: "node_event \<Rightarrow> bool" where
  "is_upsert (Ev_upsert now rec) \<longleftrightarrow> rec_State rec = StateActive \<and> rec_ID rec \<noteq> []"
| "is_upsert ev \<longleftrightarrow> False"

definition upserts :: "('s, 'c, 'e) node \<Rightarrow> ('s, 'c, 'e) node \<Rightarrow> bool" where
  "upserts s s' \<longleftrightarrow> same_but_reg (fst s) (fst s') \<and> fst (snd s') = fst (snd s) \<and>
     reg_wf (h_reg (fst s')) \<and>
     (\<exists>evs. trace node_step (node_of s) evs (node_of s') \<and> (\<forall>ev\<in>set evs. is_upsert ev))"

lemma upserts_refl: "reg_wf (h_reg (fst s)) \<Longrightarrow> upserts s s"
  by (auto simp: upserts_def intro: exI [of _ "[]"] trace_nil)

lemma upserts_trans: "upserts s t \<Longrightarrow> upserts t u \<Longrightarrow> upserts s u"
  unfolding upserts_def
  by (auto intro: same_but_reg_trans) (metis Un_iff set_append trace_append)

lemma upserts_conns: "upserts s (h, d, e) \<Longrightarrow> upserts s (h\<lparr>h_conns := cs\<rparr>, d, e')"
  by (simp add: upserts_def node_of_def)

lemma upserts_one:
  assumes "runtime_ok rt" "reg_wf (h_reg h)" "rec_ID rec \<noteq> []" "rec_State rec = StateActive"
    and "draw_Upsert rt rec (h_reg h) e = (ok, reg, e')"
  shows "upserts (h, d, e) (h\<lparr>h_reg := reg\<rparr>, d, e')"
proof -
  obtain now where "node_step (Ev_upsert now rec) (h_reg h, h_providers h) (reg, h_providers h)"
    using draw_Upsert_step [OF assms(1,2,5)] by blast
  then have "trace node_step (node_of (h, d, e)) [Ev_upsert now rec] (node_of (h\<lparr>h_reg := reg\<rparr>, d, e'))"
    by (simp add: trace_single node_of_def)
  moreover have "\<forall>ev\<in>set [Ev_upsert now rec]. is_upsert ev" using assms(3,4) by simp
  ultimately show ?thesis
    using draw_Upsert_wf [OF assms(2,5)] unfolding upserts_def by auto
qed

lemma merge_known_upserts:
  "runtime_ok rt \<Longrightarrow> reg_wf (h_reg (fst s)) \<Longrightarrow> upserts s (merge_known rt eps s)"
proof (induction rt eps s rule: merge_known.induct)
  case (3 rt ep eps h d e)
  show ?case
  proof (cases "ep_PeerId ep = []")
    case False
    obtain ok reg e' where u: "draw_Upsert rt (active_record ep (rt_now rt e)) (h_reg h) e = (ok, reg, e')"
      by (rule prod_cases3)
    have one: "upserts (h, d, e) (h\<lparr>h_reg := reg\<rparr>, d, e')"
      using 3 False by (intro upserts_one [OF _ _ _ _ u]) (simp_all add: active_record_def)
    then have "upserts (h\<lparr>h_reg := reg\<rparr>, d, e') (merge_known rt eps (h\<lparr>h_reg := reg\<rparr>, d, e'))"
      using 3(2) [OF False u [symmetric] refl] 3(3) by (simp add: upserts_def)
    with one u False show ?thesis by (auto intro: upserts_trans)
  qed (use 3 in simp)
qed (simp_all add: upserts_refl)

lemma join_peer_upserts:
  assumes "runtime_ok rt" "reg_wf (h_reg (fst s))"
  shows "upserts s (join_peer rt ctx addr s)"
proof -
  obtain h d e where s: "s = (h, d, e)" by (rule prod_cases3)
  have refl: "upserts s (h\<lparr>h_conns := cs\<rparr>, d, e')" for cs e'
    using upserts_conns [of s h d e] upserts_refl [OF assms(2)] s by simp
  have "upserts s (merge_known rt eps (h\<lparr>h_conns := cs\<rparr>, d, e'))" for eps cs e'
    using upserts_trans [OF refl merge_known_upserts [OF assms(1)]] assms(2) s by simp
  with refl show ?thesis by (auto simp: s join_peer_def split: prod.split sum.split)
qed

lemma merge_listed_upserts:
  "runtime_ok rt \<Longrightarrow> reg_wf (h_reg (fst s)) \<Longrightarrow> upserts s (merge_listed rt ctx bps s)"
proof (induction bps arbitrary: s)
  case (Cons bp bps)
  obtain h d e where s: "s = (h, d, e)" by (rule prod_cases3)
  show ?case
  proof (cases "bp_PeerID bp = [] \<or> bp_PeerID bp = h_SelfID h")
    case False
    let ?rec = "active_record \<lparr>ep_PeerId = bp_PeerID bp, ep_GrpcAddr = bp_GrpcAddr bp, ep_HttpAddr = bp_HttpAddr bp\<rparr>
                  (rt_now rt e)"
    obtain ok reg e' where u: "draw_Upsert rt ?rec (h_reg h) e = (ok, reg, e')" by (rule prod_cases3)
    let ?s = "(h\<lparr>h_reg := reg\<rparr>, d, e')"
    have one: "upserts s ?s"
      using Cons.prems False s by (simp add: s) (intro upserts_one [OF _ _ _ _ u], simp_all add: active_record_def)
    have wf: "upserts s t \<Longrightarrow> reg_wf (h_reg (fst t))" for t by (simp add: upserts_def)
    have next_: "upserts s (merge_listed rt ctx bps t)" if "upserts s t" for t
      using upserts_trans [OF that Cons.IH [OF Cons.prems(1) wf [OF that]]] .
    have "upserts s (join_peer rt ctx (bp_GrpcAddr bp) ?s)"
      using upserts_trans [OF one join_peer_upserts [OF Cons.prems(1) wf [OF one]]] .
    with one False u next_ show ?thesis by (simp add: s Let_def)
  next
    case True
    with Cons s show ?thesis by simp
  qed
qed (simp add: upserts_refl)

lemma upserts_world: "upserts (h, d, e) s' \<longleftrightarrow> upserts (h, d, e') s'"
  by (simp add: upserts_def node_of_def)

lemma mergeBootstrapPeers_cases:
  assumes "runtime_ok rt" "reg_wf (h_reg h)"
    and "mergeBootstrapPeers http rt ctx (h, d, e) = (r, (h', d', e'))"
  shows "if r = None then upserts (h, d, e) (h', d', e') else h' = h \<and> d' = d"
proof -
  have "upserts (h, d, e) (merge_listed rt ctx list (h, d, e1))" for list e1
    using merge_listed_upserts [OF assms(1), of "(h, d, e1)"] assms(2)
    by (simp add: upserts_world [of h d e _ e1])
  then have "r = None \<longrightarrow> upserts (h, d, e) (h', d', e')"
    using assms(3) upserts_refl [of "(h, d, e)"] assms(2)
    by (auto simp: mergeBootstrapPeers_def split: if_splits prod.splits sum.splits) metis
  moreover have "r \<noteq> None \<longrightarrow> h' = h \<and> d' = d"
    using assms(3) by (auto simp: mergeBootstrapPeers_def split: if_splits prod.splits sum.splits)
  ultimately show ?thesis by simp
qed

lemma registerBootstrap_frame: "\<exists>e'. snd (registerBootstrap http (h, d, e)) = (h, d, e')"
  by (auto simp: registerBootstrap_def Let_def split: prod.split sum.split)

lemma bootstrap_tick_upserts:
  assumes "runtime_ok rt" "reg_wf (h_reg h)"
  shows "upserts (h, d, e) (bootstrap_tick http rt ctx (h, d, e))"
proof -
  obtain e1 where reg: "snd (registerBootstrap http (h, d, e)) = (h, d, e1)"
    using registerBootstrap_frame [of http h d e] by (elim exE)
  obtain r h' d' e' where m: "mergeBootstrapPeers http rt ctx (h, d, e1) = (r, (h', d', e'))"
    by (metis prod.exhaust)
  have "upserts (h, d, e1) (h', d', e')"
    using mergeBootstrapPeers_cases [OF assms m] assms upserts_refl [of "(h, d, e1)"]
    by (cases "r = None") (auto simp: upserts_def node_of_def)
  then show ?thesis
    using upserts_refl [of "(h, d, e)"] assms(2) reg m
    by (simp add: bootstrap_tick_def upserts_world [of h d e _ e1])
qed

section \<open>Properties\<close>

text \<open>
  C24. Discovery refines the abstract node. Whatever the bootstrap service and the listed peers
  answer, one round of the bootstrap loop is a run of the abstract node that consists of
  upserts of active peers with an id; the registry keeps its bound, and the provider records,
  the disk and the identity of the node do not change. When fetching the list fails, or it
  does not parse, nothing of the node changes at all.
\<close>

theorem bootstrap_tick_refines:
  assumes "runtime_ok rt" "reg_wf (h_reg h)"
  shows "(case bootstrap_tick http rt ctx (h, d, e) of (h', d', e') \<Rightarrow>
           (\<exists>evs. trace node_step (h_reg h, h_providers h) evs (h_reg h', h_providers h') \<and>
              (\<forall>ev\<in>set evs. is_upsert ev)) \<and>
           reg_wf (h_reg h') \<and> d' = d \<and> h' = h\<lparr>h_reg := h_reg h', h_conns := h_conns h'\<rparr>) \<and>
         (case mergeBootstrapPeers http rt ctx (h, d, e) of
            (Some err, (h', d', e')) \<Rightarrow> h' = h \<and> d' = d
          | (None, (h', d', e')) \<Rightarrow> upserts (h, d, e) (h', d', e'))"
proof
  show "case bootstrap_tick http rt ctx (h, d, e) of (h', d', e') \<Rightarrow>
           (\<exists>evs. trace node_step (h_reg h, h_providers h) evs (h_reg h', h_providers h') \<and>
              (\<forall>ev\<in>set evs. is_upsert ev)) \<and>
           reg_wf (h_reg h') \<and> d' = d \<and> h' = h\<lparr>h_reg := h_reg h', h_conns := h_conns h'\<rparr>"
    using bootstrap_tick_upserts [OF assms, of d e http ctx]
    by (cases "bootstrap_tick http rt ctx (h, d, e)")
       (auto simp: upserts_def node_of_def same_but_reg_def)
  show "case mergeBootstrapPeers http rt ctx (h, d, e) of
            (Some err, (h', d', e')) \<Rightarrow> h' = h \<and> d' = d
          | (None, (h', d', e')) \<Rightarrow> upserts (h, d, e) (h', d', e')"
    using mergeBootstrapPeers_cases [OF assms, of http ctx d e]
    by (auto split: prod.split option.split)
qed

text \<open>
  The list of the bootstrap service overrules the heartbeat: the service keeps every peer that
  ever registered and did not deregister, and the round marks each listed peer active.
\<close>


theorem bootstrap_tick_refines_witness:
  "case bootstrap_tick (\<lambda>_ _ _ e. (Inr (200, ''[]''), e)) (ex_rt [] []) None (ex_host, ex_disk, 0) of
     (h', d', e') \<Rightarrow> reg_wf (h_reg h') \<and> d' = ex_disk"
  using bootstrap_tick_refines [of "ex_rt [] []" ex_host, where http = "\<lambda>_ _ _ e. (Inr (200, ''[]''), e)"
      and ctx = None and d = ex_disk and e = 0]
  by (auto split: prod.splits)

definition ex_listed :: BootstrapPeer where
  "ex_listed = \<lparr>bp_PeerID = ex_idB, bp_GrpcAddr = ''x:1'', bp_HttpAddr = []\<rparr>"

lemma ex_listed_ascii: "ascii_peer ex_listed"
  using CID_ascii [OF ex_ids(4)] by (simp add: ascii_peer_def ex_listed_def ascii_def)


end
