(* ===== verification/NodeCalls.thy ===== *)
theory NodeCalls
  imports Calls NodeLocal BootstrapSync
begin

text \<open>
  The relations of \<open>Calls\<close> along the operations of a node: whatever every single call keeps of
  the pool and the world, uploads, downloads, the catalog and the requests of the HTTP
  interface keep. The catalog is the one of a node without Redis.
\<close>

text \<open>The part of a node the relation is about.\<close>

definition net_of :: "('s, 'c, 'e) node \<Rightarrow> ('c, 'e) net" where
  "net_of s = (h_conns (fst s), snd (snd s))"

lemma net_of_simps [simp]: "net_of (h, d, e) = (h_conns h, e)"
  by (simp add: net_of_def)

context read_relation begin

lemma R_keep_block: "net_of (snd (keep_block S cid b s)) = net_of s"
  by (cases s) (auto simp: keep_block_def split: option.split)

lemma R_load_block:
  assumes "load_block S rt ctx wrap cid s = (r, s')"
  shows "R (net_of s) (net_of s')"
proof -
  obtain h d e where s: "s = (h, d, e)" by (rule prod_cases3)
  obtain x h1 d1 e1 where f: "fetch_remote S rt ctx cid (h, d, e) = (x, (h1, d1, e1))" by (rule prod_cases4)
  have "s' = s \<or> net_of s' = net_of (h1, d1, e1)"
    using assms s f R_keep_block [of S cid _ "(h1, d1, e1)"]
    by (auto simp: load_block_def split: sum.splits) (metis snd_conv)
  with R_fetch_remote [OF f] R_refl show ?thesis by (auto simp: s)
qed

lemma R_stream_chunks: "stream_chunks S rt ctx w chs out s = (r, s') \<Longrightarrow> R (net_of s) (net_of s')"
proof (induction chs arbitrary: out s)
  case (Cons ch chs)
  obtain x s1 where l: "load_chunk S rt ctx ch s = (x, s1)" by (rule prod.exhaust)
  then have k: "R (net_of s) (net_of s1)" using R_load_block by (simp add: load_chunk_def)
  have "s' = s1 \<or> (\<exists>out'. stream_chunks S rt ctx w chs out' s1 = (r, s'))"
    using Cons.prems l by (auto split: sum.splits option.splits)
  then show ?case using k Cons.IH R_trans by blast
qed (simp add: R_refl)

lemma R_GetFile: "R (net_of s) (net_of (snd (GetFile S rt ctx root w s)))"
proof -
  obtain x s1 where l: "load_root S rt ctx root s = (x, s1)" by (rule prod.exhaust)
  then have k: "R (net_of s) (net_of s1)" using R_load_block by (simp add: load_root_def)
  have "R (net_of s) (net_of (snd (stream_chunks S rt ctx w chs out s1)))" for chs out
    by (rule R_trans [OF k R_stream_chunks]) (rule prod.collapse [symmetric])
  with k l show ?thesis by (auto simp: GetFile_def split: sum.split prod.split option.split)
qed

lemma R_InspectCID: "R (net_of s) (net_of (snd (InspectCID S rt c s)))"
proof -
  obtain h d e where s: "s = (h, d, e)" by (rule prod_cases3)
  obtain x h1 d1 e1 where f: "fetch_remote S rt None c (h, d, e) = (x, (h1, d1, e1))" by (rule prod_cases4)
  from R_fetch_remote [OF f] f R_refl show ?thesis by (auto simp: s InspectCID_def split: sum.split)
qed

end

context push_relation begin

lemma R_replicate_all: "replicate_all S rt ctx cs s = (r, s') \<Longrightarrow> R (net_of s) (net_of s')"
proof (induction cs arbitrary: s)
  case (Cons c cs)
  obtain h d e where s: "s = (h, d, e)" by (rule prod_cases3)
  obtain ks e1 where ks: "rt_range rt (dom (reg_peers (h_reg h))) e = (ks, e1)" by (rule prod.exhaust)
  have skip: "R (net_of s) (net_of (h, d, e1))" using R_range [OF ks] by (simp add: s)
  let ?sel = "SelectReplicaPeerIDs ks c (h_ReplFactor h) (h_SelfID h) (h_reg h)"
  consider "s' = s" | "s' = (h, d, e1)" | "replicate_all S rt ctx cs (h, d, e1) = (r, s')"
    | data ids where "?sel = Some (Inr ids)" "store_Get S (h_store h) c d = Inr data"
      "replica_addrs (h_reg h) ids \<noteq> []"
    using Cons.prems ks s by (cases "store_Get S (h_store h) c d"; cases ?sel) (auto simp: Let_def split: sum.splits if_splits)
  then show ?case
  proof cases
    case 4
    obtain y conns e2 where p: "ReplicateToAddrs rt ctx (replica_addrs (h_reg h) ids) c data (h_conns h, e1) = (y, (conns, e2))"
      by (rule prod_cases3)
    have "R (net_of s) (net_of (h\<lparr>h_conns := conns\<rparr>, d, e2))"
      using R_trans [OF skip] R_ReplicateToAddrs [OF p [unfolded ReplicateToAddrs_def]] by simp
    moreover have "replicate_all S rt ctx cs (h\<lparr>h_conns := conns\<rparr>, d, e2) = (r, s')"
      using Cons.prems ks s p 4 by (simp add: Let_def)
    ultimately show ?thesis using Cons.IH R_trans by blast
  qed (use skip R_refl Cons.IH R_trans in blast)+
qed (simp add: R_refl)

lemma R_AddFile: "R (net_of s) (net_of (snd (AddFile S os rt ctx path s)))"
proof -
  obtain h d e where s: "s = (h, d, e)" by (rule prod_cases3)
  have snd_case: "snd (case y of (Inl err, s') \<Rightarrow> (Inl err, s') | (Inr u, s') \<Rightarrow> (Inr z, s')) = snd y"
    for y :: "('x + 'y) \<times> 'z" and z by (cases y) (simp split: sum.split)
  have "R (h_conns h, e) (net_of (snd (replicate_all S rt ctx cs (h\<lparr>h_providers := p\<rparr>, d', e))))" for cs p d'
    using R_replicate_all [OF prod.collapse [symmetric], where s = "(h\<lparr>h_providers := p\<rparr>, d', e)"] by simp
  then show ?thesis
    using R_refl by (simp add: s AddFile_def Let_def snd_case del: replicate_all.simps split: sum.split prod.split)
qed

end

text \<open>So requests keep the relation, on a node without Redis.\<close>

locale client_relation = push_relation + read_relation

definition calls_net :: "(('c, 'e) net \<Rightarrow> ('c, 'e) net \<Rightarrow> bool) \<Rightarrow> ('s, 'c, 'e) node \<Rightarrow> ('s, 'c, 'e) node \<Rightarrow> bool" where
  "calls_net R s t \<longleftrightarrow> reg_rdb (h_reg (fst t)) = reg_rdb (h_reg (fst s)) \<and>
     (reg_rdb (h_reg (fst s)) = None \<longrightarrow> R (net_of s) (net_of t))"

sublocale client_relation \<subseteq> req: request_relation store os rt "calls_net R"
  for store :: "'s storage" and os :: os
proof unfold_locales
  fix s t u :: "('s, 'a, 'b) node"
  have reg: "local_change (fst s) (fst t) \<Longrightarrow> reg_rdb (h_reg (fst t)) = reg_rdb (h_reg (fst s))" for t
    using local_change_fields [of "fst s" "fst t"] by simp
  show "calls_net R s s" by (simp add: calls_net_def R_refl)
  show "calls_net R s t \<Longrightarrow> calls_net R t u \<Longrightarrow> calls_net R s u"
    using R_trans [of "net_of s" "net_of t" "net_of u"] by (simp add: calls_net_def)
  show "calls_net R s t \<Longrightarrow> reg_rdb (h_reg (fst t)) = reg_rdb (h_reg (fst s))" by (simp add: calls_net_def)
  show "calls_net R s (snd (InspectCID store rt c s))" for c
    using reg [OF local_change_InspectCID] by (simp add: calls_net_def R_InspectCID)
  show "calls_net R s (snd (GetFile store rt ctx root w s))" for ctx root w
    using reg [OF local_change_GetFile] by (simp add: calls_net_def R_GetFile)
  show "calls_net R s (snd (AddFile store os rt ctx path s))" for ctx path
    using reg [OF local_change_AddFile] by (simp add: calls_net_def R_AddFile)
qed (auto simp: calls_net_def R_refl intro: R_range R_LookupProviders)

section \<open>The loops\<close>

locale ping_relation = net_relation +
  assumes R_Ping: "rt_Ping rt ctx c q e = (r, e') \<Longrightarrow> R (conns, e) (conns, e')"
begin

lemma R_ping_peers: "R (net_of s) (net_of (ping_peers rt ctx recs s))"
proof (induction recs arbitrary: s)
  case (Cons rec recs)
  obtain h d e where s: "s = (h, d, e)" by (rule prod_cases3)
  let ?body = "\<lambda>cctx cli e. rt_Ping rt cctx cli \<lparr>ping_PeerId = h_SelfID h\<rparr> e"
  obtain x conns e' where w: "with_client rt ctx (3 * second) (rec_GrpcAddr rec) ?body (h_conns h, e) = (x, (conns, e'))"
    by (rule prod_cases3)
  have k: "R (net_of s) (conns, e')" using R_with_client [OF R_Ping w] by (simp add: s)
  let ?t = "\<lambda>r. (h\<lparr>h_conns := conns, h_reg := r\<rparr>, d, e')"
  have "R (net_of s) (net_of (ping_peers rt ctx recs (?t r)))" for r
    using R_trans [OF k] Cons.IH [of "?t r"] by simp
  moreover have "R (net_of s) (net_of (ping_peers rt ctx recs (h\<lparr>h_conns := conns\<rparr>, d, e')))"
    using R_trans [OF k] Cons.IH [of "(h\<lparr>h_conns := conns\<rparr>, d, e')"] by simp
  moreover have "R (net_of s) (net_of (ping_peers rt ctx recs (h, d, e)))" using Cons.IH [of s] by (simp add: s)
  ultimately show ?case using w by (simp add: s split: sum.split)
qed (simp add: R_refl)

lemma R_heartbeat: "R (net_of s) (net_of (heartbeat_tick rt ctx s))"
proof -
  obtain h d e where s: "s = (h, d, e)" by (rule prod_cases3)
  let ?r1 = "Touch (rt_now rt e) (h_SelfID h) (h_reg h)"
  obtain ks e1 where ks: "rt_range rt (dom (reg_peers ?r1)) e = (ks, e1)" by (rule prod.exhaust)
  let ?r2 = "Sweep ks (rt_now rt e) (h_rtm h) ?r1"
  obtain recs e2 where recs: "draw_Snapshot rt ?r2 e1 = (recs, e2)" by (rule prod.exhaust)
  have "R (net_of s) (net_of (h\<lparr>h_reg := ?r2\<rparr>, d, e2))"
    using R_trans [OF R_range [OF ks] R_range] recs by (auto simp: s draw_Snapshot_def split: prod.splits)
  from R_trans [OF this R_ping_peers] ks recs show ?thesis by (simp add: s heartbeat_tick_def Let_def)
qed

lemma R_draw_Upsert: "draw_Upsert rt rec r e = (ok, r', e') \<Longrightarrow> R (conns, e) (conns, e')"
  by (auto simp: draw_Upsert_def intro: R_trans [OF R_range R_range] split: prod.splits)

end

locale peer_relation = client_relation + ping_relation

text \<open>The rounds of the bootstrap loop also join peers and call the service.\<close>

locale loop_relation = ping_relation +
  fixes http :: "'b http_client"
  assumes R_JoinNetwork: "rt_JoinNetwork rt ctx c jq e = (jr, e') \<Longrightarrow> R (conns, e) (conns, e')"
    and R_http: "http meth u body e = (x, e') \<Longrightarrow> R (conns, e) (conns, e')"
begin

lemma R_merge_known: "R (net_of s) (net_of (merge_known rt eps s))"
proof (induction eps arbitrary: s)
  case (Cons x eps)
  obtain h d e where s: "s = (h, d, e)" by (rule prod_cases3)
  show ?case
  proof (cases x)
    case None
    then show ?thesis using Cons.IH [of s] by (simp add: s)
  next
    case (Some ep)
    obtain ok reg e' where u: "draw_Upsert rt (active_record ep (rt_now rt e)) (h_reg h) e = (ok, reg, e')" by (rule prod_cases3)
    have k: "R (net_of s) (net_of (h\<lparr>h_reg := reg\<rparr>, d, e'))" using R_draw_Upsert [OF u] by (simp add: s)
    show ?thesis using Some Cons.IH [of s] R_trans [OF k Cons.IH] u by (simp add: s)
  qed
qed (simp add: R_refl)

lemma R_join_peer: "R (net_of s) (net_of (join_peer rt ctx addr s))"
proof -
  obtain h d e where s: "s = (h, d, e)" by (rule prod_cases3)
  let ?q = "\<lparr>jn_Self = Some (SelfEndpoint h)\<rparr>"
  obtain x conns e' where w: "with_client rt ctx (8 * second) addr
      (\<lambda>cctx cli e. rt_JoinNetwork rt cctx cli ?q e) (h_conns h, e) = (x, (conns, e'))" by (rule prod_cases3)
  let ?t = "(h\<lparr>h_conns := conns\<rparr>, d, e')"
  have k: "R (net_of s) (net_of ?t)" using R_with_client [OF R_JoinNetwork w] by (simp add: s)
  with R_trans [OF k R_merge_known] w show ?thesis by (simp add: s join_peer_def split: sum.split)
qed

lemma R_merge_listed: "R (net_of s) (net_of (merge_listed rt ctx bps s))"
proof (induction bps arbitrary: s)
  case (Cons bp bps)
  obtain h d e where s: "s = (h, d, e)" by (rule prod_cases3)
  let ?rec = "active_record \<lparr>ep_PeerId = bp_PeerID bp, ep_GrpcAddr = bp_GrpcAddr bp, ep_HttpAddr = bp_HttpAddr bp\<rparr> (rt_now rt e)"
  obtain ok reg e' where u: "draw_Upsert rt ?rec (h_reg h) e = (ok, reg, e')" by (rule prod_cases3)
  have k: "R (net_of s) (net_of (h\<lparr>h_reg := reg\<rparr>, d, e'))" using R_draw_Upsert [OF u] by (simp add: s)
  from Cons.IH [of s] R_trans [OF k Cons.IH] R_trans [OF R_trans [OF k R_join_peer] Cons.IH] u
  show ?case by (simp add: s Let_def)
qed (simp add: R_refl)

lemma R_registerBootstrap: "R (net_of s) (net_of (snd (registerBootstrap http s)))"
proof -
  obtain h d e where s: "s = (h, d, e)" by (rule prod_cases3)
  have k: "http meth u body e = (x, e') \<Longrightarrow> R (h_conns h, e) (h_conns h, e')" for meth u body x e' by (rule R_http)
  show ?thesis
    using R_refl k by (auto simp: s registerBootstrap_def Let_def simp del: print_json.simps split: sum.split prod.split)
qed

lemma R_mergeBootstrapPeers: "R (net_of s) (net_of (snd (mergeBootstrapPeers http rt ctx s)))"
proof -
  obtain h d e where s: "s = (h, d, e)" by (rule prod_cases3)
  obtain x e' where x: "http ''GET'' (TrimRight_slash (h_Bootstrap h) @ ''/v1/peers'') [] e = (x, e')" by (rule prod.exhaust)
  have k: "R (net_of s) (net_of (h, d, e'))" using R_http [OF x] by (simp add: s)
  from R_trans [OF k R_merge_listed] k R_refl [of "net_of s"] x show ?thesis
    by (auto simp: s mergeBootstrapPeers_def split: sum.split prod.split)
qed

lemma R_bootstrap_tick: "R (net_of s) (net_of (bootstrap_tick http rt ctx s))"
  using R_trans [OF R_registerBootstrap R_mergeBootstrapPeers [of "snd (registerBootstrap http s)" ctx]] R_refl
  by (simp add: bootstrap_tick_def)

end

end
