(* ===== verification/BootstrapServer.thy ===== *)
theory BootstrapServer
  imports BootstrapSync Http
begin

text \<open>
  The bootstrap service, \<open>cmd/bootstrap/main.go\<close>: the list of registered peers and the three
  endpoints on it. The Redis client is the log of the commands sent, if there is one. Every
  handler holds the mutex while it works on the list, so a request is one step.
\<close>

section \<open>State\<close>

text \<open>\<open>regPeer\<close> has the fields and the JSON tags of the \<open>BootstrapPeer\<close> of the nodes.\<close>

type_synonym regPeer = BootstrapPeer

datatype bs_cmd = BDel string | BSet string string int

record Bootstrap =
  bs_peers :: "regPeer list"
  bs_rdb :: "bs_cmd list option"

definition NewBootstrap :: "bool \<Rightarrow> Bootstrap" where
  "NewBootstrap redis = \<lparr>bs_peers = [], bs_rdb = (if redis then Some [] else None)\<rparr>"

definition bootstrap_addr :: "string \<Rightarrow> string" where
  "bootstrap_addr env = (if env \<noteq> [] then env else '':9099'')"

text \<open>
  \<open>main\<close>: \<open>env\<close> is \<open>BOOTSTRAP_ADDR\<close>, \<open>redis\<close> whether \<open>REDIS_URL\<close> is set and parses, \<open>listen\<close> what listening
  at an address answers. The program ends with an error, or serves from an empty list.
\<close>

definition bootstrap_main :: "(string \<Rightarrow> error option) \<Rightarrow> string \<Rightarrow> bool \<Rightarrow> error + Bootstrap" where
  "bootstrap_main listen env redis =
     (case listen (bootstrap_addr env) of Some err \<Rightarrow> Inl err | None \<Rightarrow> Inr (NewBootstrap redis))"

definition bs_do :: "bs_cmd \<Rightarrow> Bootstrap \<Rightarrow> Bootstrap" where
  "bs_do c s = s\<lparr>bs_rdb := map_option (\<lambda>log. log @ [c]) (bs_rdb s)\<rparr>"

definition bs_key :: "string \<Rightarrow> string" where
  "bs_key pid = ''bootstrap:peer:'' @ pid"

definition publish :: "regPeer \<Rightarrow> Bootstrap \<Rightarrow> Bootstrap" where
  "publish p s = bs_do (BSet (bs_key (bp_PeerID p)) (print_json (BootstrapPeer_json p)) (300 * second)) s"

section \<open>Handlers\<close>

definition Decode_peer :: "string \<Rightarrow> error + regPeer" where
  "Decode_peer body =
     (case decode_json body of
        None \<Rightarrow> Inl json_syntax_error
      | Some v \<Rightarrow>
          (case decode_BootstrapPeer zero_BootstrapPeer v of
             (_, Some err) \<Rightarrow> Inl err
           | (p, None) \<Rightarrow> Inr p))"

definition same_peer :: "regPeer \<Rightarrow> regPeer \<Rightarrow> bool" where
  "same_peer p q \<longleftrightarrow> bp_PeerID q = bp_PeerID p \<or> bp_GrpcAddr q = bp_GrpcAddr p \<or> bp_HttpAddr q = bp_HttpAddr p"

text \<open>The loop stops at the first entry with the same id or address; else the peer is appended.\<close>

definition register_peer :: "regPeer \<Rightarrow> response \<times> Bootstrap \<Rightarrow> response \<times> Bootstrap" where
  "register_peer p ws =
     (case ws of (w, s) \<Rightarrow>
        case List.extract (same_peer p) (bs_peers s) of
          Some (before, old, after) \<Rightarrow>
            let s1 = (if bp_PeerID old \<noteq> bp_PeerID p then bs_do (BDel (bs_key (bp_PeerID old))) s else s)
            in (WriteHeader 200 w, publish p (s1\<lparr>bs_peers := before @ p # after\<rparr>))
        | None \<Rightarrow>
            if MaxNetworkPeers \<le> length (bs_peers s) then (Error ''network full'' 403 w, s)
            else (WriteHeader 200 w, publish p (s\<lparr>bs_peers := bs_peers s @ [p]\<rparr>)))"

definition handleRegister :: "Bootstrap handler" where
  "handleRegister r ws =
     (case ws of (w, s) \<Rightarrow>
        if rq_Method r \<noteq> ''POST'' then (Error ''method not allowed'' 405 w, s)
        else case Decode_peer (rq_Body r) of
               Inl err \<Rightarrow> (Error err 400 w, s)
             | Inr p \<Rightarrow>
                 if bp_PeerID p = [] \<or> bp_GrpcAddr p = []
                 then (Error ''peer_id and grpc_addr required'' 400 w, s)
                 else register_peer p (w, s))"

definition handleList :: "Bootstrap handler" where
  "handleList r ws =
     (case ws of (w, s) \<Rightarrow>
        if rq_Method r \<noteq> ''GET'' then (Error ''method not allowed'' 405 w, s)
        else (Write (print_json (JArr (map BootstrapPeer_json (bs_peers s))) @ newline)
                (Header_Set ''Content-Type'' ''application/json'' w), s))"

definition handleDelete :: "Bootstrap handler" where
  "handleDelete r ws =
     (case ws of (w, s) \<Rightarrow>
        if rq_Method r \<noteq> ''DELETE'' then (Error ''method not allowed'' 405 w, s)
        else
          let pid = drop (length ''/v1/peers/'') (rq_Path r)
          in if pid = [] then (Error ''missing id'' 400 w, s)
             else case List.extract (\<lambda>p. bp_PeerID p = pid) (bs_peers s) of
                    Some (before, _, after) \<Rightarrow>
                      (WriteHeader 204 w, bs_do (BDel (bs_key pid)) (s\<lparr>bs_peers := before @ after\<rparr>))
                  | None \<Rightarrow> (NotFound w, s))"

definition cors_headers :: "response \<Rightarrow> response" where
  "cors_headers w =
     Header_Set ''Access-Control-Allow-Headers'' ''Content-Type''
       (Header_Set ''Access-Control-Allow-Methods'' ''GET, POST, DELETE, OPTIONS''
         (Header_Set ''Access-Control-Allow-Origin'' ''*'' w))"

definition withCORS :: "'s handler \<Rightarrow> 's handler" where
  "withCORS next_h r ws =
     (case ws of (w, s) \<Rightarrow>
        if rq_Method r = ''OPTIONS'' then (WriteHeader 204 (cors_headers w), s)
        else next_h r (cors_headers w, s))"

lemma cors_headers_simps [simp]:
  "rs_Status (cors_headers w) = rs_Status w" "rs_Body (cors_headers w) = rs_Body w"
  by (simp_all add: cors_headers_def)

definition bootstrap_mux :: "Bootstrap handler" where
  "bootstrap_mux =
     ServeMux [(''/v1/register'', handleRegister), (''/v1/peers'', handleList), (''/v1/peers/'', handleDelete)]"

definition bootstrap_serve :: "http_request \<Rightarrow> Bootstrap \<Rightarrow> response \<times> Bootstrap" where
  "bootstrap_serve r s = (case withCORS bootstrap_mux r (fresh_response, s) of (w, s') \<Rightarrow> (finish w, s'))"

section \<open>What the operations keep\<close>

lemma bs_do_simps [simp]: "bs_peers (bs_do c s) = bs_peers s"
  by (simp add: bs_do_def)

lemma publish_simps [simp]: "bs_peers (publish p s) = bs_peers s"
  by (simp add: publish_def)

lemma same_peer_refl [simp]: "same_peer p p"
  by (simp add: same_peer_def)

text \<open>What any handler does to the list.\<close>

inductive list_step :: "regPeer list \<Rightarrow> regPeer list \<Rightarrow> bool" where
  ls_same: "list_step ps ps"
| ls_replace: "same_peer p q \<Longrightarrow> \<not> (\<exists>x\<in>set before. same_peer p x) \<Longrightarrow> bp_PeerID p \<noteq> [] \<Longrightarrow> bp_GrpcAddr p \<noteq> [] \<Longrightarrow>
     list_step (before @ q # after) (before @ p # after)"
| ls_append: "length ps < MaxNetworkPeers \<Longrightarrow> \<not> (\<exists>x\<in>set ps. same_peer p x) \<Longrightarrow> bp_PeerID p \<noteq> [] \<Longrightarrow> bp_GrpcAddr p \<noteq> [] \<Longrightarrow>
     list_step ps (ps @ [p])"
| ls_delete: "list_step (before @ q # after) (before @ after)"

inductive_cases list_stepE: "list_step ps qs"

lemma extract_SomeE2:
  assumes "List.extract P xs = Some (ys, x, zs)"
  shows "xs = ys @ x # zs" "P x" "\<not> (\<exists>y\<in>set ys. P y)"
  using assms by (auto simp: extract_Some_iff)

lemma register_step:
  assumes "bp_PeerID p \<noteq> []" "bp_GrpcAddr p \<noteq> []"
  shows "list_step (bs_peers s) (bs_peers (snd (register_peer p (w, s))))"
proof (cases "List.extract (same_peer p) (bs_peers s)")
  case None
  then have "\<not> (\<exists>x\<in>set (bs_peers s). same_peer p x)" by (simp add: extract_None_iff)
  with assms ls_append [of "bs_peers s" p] None show ?thesis
    by (auto simp: register_peer_def ls_same)
next
  case (Some t)
  obtain ys x zs where t: "t = (ys, x, zs)" by (rule prod_cases3)
  note e = extract_SomeE2 [OF Some [unfolded t]]
  have "bs_peers (snd (register_peer p (w, s))) = ys @ p # zs"
    unfolding register_peer_def by (simp add: Some [unfolded t] Let_def)
  with ls_replace [OF e(2,3) assms, of zs] e(1) show ?thesis by simp
qed

lemma handlers_step:
  "list_step (bs_peers s) (bs_peers (snd (handleRegister r (w, s))))"
  "list_step (bs_peers s) (bs_peers (snd (handleList r (w, s))))"
  "list_step (bs_peers s) (bs_peers (snd (handleDelete r (w, s))))"
proof -
  show "list_step (bs_peers s) (bs_peers (snd (handleRegister r (w, s))))"
    using register_step by (auto simp: handleRegister_def ls_same split: sum.split)
  show "list_step (bs_peers s) (bs_peers (snd (handleList r (w, s))))"
    by (simp add: handleList_def ls_same)
  have "list_step (bs_peers s) (ys @ zs)" if "List.extract P (bs_peers s) = Some (ys, x, zs)" for P ys x zs
    using ls_delete [of ys x zs] extract_SomeE2(1) [OF that] by simp
  then show "list_step (bs_peers s) (bs_peers (snd (handleDelete r (w, s))))"
    by (auto simp: handleDelete_def Let_def ls_same split: option.split)
qed

lemma bootstrap_mux_step: "list_step (bs_peers s) (bs_peers (snd (bootstrap_mux r (w, s))))"
  using ServeMux_state [of "[(''/v1/register'', handleRegister), (''/v1/peers'', handleList), (''/v1/peers/'', handleDelete)]" r w s]
    handlers_step [of s r w] ls_same
  unfolding bootstrap_mux_def [symmetric] by (elim disjE bexE) (simp_all, elim disjE, simp_all)

lemma bootstrap_serve_step: "list_step (bs_peers s) (bs_peers (snd (bootstrap_serve r s)))"
  using bootstrap_mux_step [of s r "cors_headers fresh_response"]
  by (simp add: bootstrap_serve_def withCORS_def ls_same split_beta)

definition list_ok :: "regPeer list \<Rightarrow> bool" where
  "list_ok ps \<longleftrightarrow> length ps \<le> MaxNetworkPeers \<and> (\<forall>p\<in>set ps. bp_PeerID p \<noteq> [] \<and> bp_GrpcAddr p \<noteq> [])"

lemma list_ok_step: "list_ok ps \<Longrightarrow> list_step ps qs \<Longrightarrow> list_ok qs"
  by (erule list_stepE) (auto simp: list_ok_def)

definition bs_init :: "Bootstrap \<Rightarrow> bool" where
  "bs_init s \<longleftrightarrow> (\<exists>listen env redis. bootstrap_main listen env redis = Inr s)"

definition bs_step :: "Bootstrap \<Rightarrow> Bootstrap \<Rightarrow> bool" where
  "bs_step s t \<longleftrightarrow> (\<exists>r. t = snd (bootstrap_serve r s))"

interpretation bs: invariant_machine bs_init bs_step "\<lambda>s. list_ok (bs_peers s)"
proof unfold_locales
  show "list_ok (bs_peers s)" if "bs_init s" for s
    using that by (auto simp: bs_init_def bootstrap_main_def NewBootstrap_def list_ok_def split: option.splits)
  show "list_ok (bs_peers t)" if "list_ok (bs_peers s)" "bs_step s t" for s t
    using that list_ok_step [OF _ bootstrap_serve_step] by (auto simp: bs_step_def)
qed

section \<open>Registering and listing\<close>

text \<open>The request a node sends to register, and the one for the list.\<close>

definition register_request :: "regPeer \<Rightarrow> http_request" where
  "register_request p =
     \<lparr>rq_Method = ''POST'', rq_Path = ''/v1/register'', rq_Query = [], rq_Body = print_json (BootstrapPeer_json p)\<rparr>"

definition list_request :: http_request where
  "list_request = \<lparr>rq_Method = ''GET'', rq_Path = ''/v1/peers'', rq_Query = [], rq_Body = []\<rparr>"

lemma clean_paths:
  "cleanPath ''/v1/register'' = ''/v1/register''" "cleanPath ''/v1/peers'' = ''/v1/peers''"
  by code_simp+

lemma match_paths:
  "\<not> mux_match ''/v1/peers/'' ''/v1/register''" "\<not> mux_match ''/v1/peers'' ''/v1/register''"
  "\<not> mux_match ''/v1/peers/'' ''/v1/peers''" "\<not> mux_match ''/v1/register'' ''/v1/peers''"
  "mux_match ''/v1/register'' ''/v1/register''" "mux_match ''/v1/peers'' ''/v1/peers''"
  by code_simp+

lemma mux_paths:
  "bootstrap_mux (register_request p) ws = handleRegister (register_request p) ws"
  "bootstrap_mux list_request ws = handleList list_request ws"
  by (cases ws; simp add: bootstrap_mux_def ServeMux_def mux_route_def register_request_def list_request_def
      clean_paths match_paths)+

lemma Decode_peer_print:
  assumes "ascii_peer p"
  shows "Decode_peer (print_json (BootstrapPeer_json p)) = Inr p"
proof -
  have "decode_json (print_json (BootstrapPeer_json p) @ []) = Some (BootstrapPeer_json p)"
    by (rule decode_print [OF plain_peer [OF assms]]) (simp add: nesting_peer maxNestingDepth_def)
  then show ?thesis by (simp add: Decode_peer_def decode_peer)
qed

lemma serve_register:
  assumes "ascii_peer p" "bp_PeerID p \<noteq> []" "bp_GrpcAddr p \<noteq> []"
  shows "bootstrap_serve (register_request p) s =
    (case register_peer p (cors_headers fresh_response, s) of (w', s') \<Rightarrow> (finish w', s'))"
proof -
  have d: "Decode_peer (rq_Body (register_request p)) = Inr p"
    using Decode_peer_print [OF assms(1)] by (simp add: register_request_def)
  have m: "rq_Method (register_request p) = ''POST''" by (simp add: register_request_def)
  show ?thesis
    using assms(2,3) by (simp add: bootstrap_serve_def withCORS_def m mux_paths handleRegister_def d)
qed

lemma serve_list:
  assumes "bootstrap_serve list_request s = (w, s')"
  shows "s' = s \<and> status_of w = 200 \<and> rs_Body w = print_json (JArr (map BootstrapPeer_json (bs_peers s))) @ newline"
proof -
  have m: "rq_Method list_request = ''GET''" by (simp add: list_request_def)
  show ?thesis
    using assms by (auto simp: bootstrap_serve_def withCORS_def m mux_paths handleList_def finish_def
        simp del: print_json.simps) (simp_all add: status_of_def)
qed

text \<open>What registering gives: the peer is listed, or refused as the list is full.\<close>

lemma register_cases:
  assumes "ascii_peer p" "bp_PeerID p \<noteq> []" "bp_GrpcAddr p \<noteq> []"
    and "bootstrap_serve (register_request p) s = (w, s')"
  obtains (replaced) before q after where "bs_peers s = before @ q # after" "same_peer p q"
      "\<forall>x\<in>set before. \<not> same_peer p x" "status_of w = 200" "bs_peers s' = before @ p # after"
  | (appended) "\<forall>x\<in>set (bs_peers s). \<not> same_peer p x" "length (bs_peers s) < MaxNetworkPeers"
      "status_of w = 200" "bs_peers s' = bs_peers s @ [p]"
  | (refused) "\<forall>x\<in>set (bs_peers s). \<not> same_peer p x" "MaxNetworkPeers \<le> length (bs_peers s)"
      "status_of w = 403" "s' = s"
proof -
  note w0 = serve_register [OF assms(1,2,3), of s]
  show thesis
  proof (cases "List.extract (same_peer p) (bs_peers s)")
    case None
    then have no: "\<forall>x\<in>set (bs_peers s). \<not> same_peer p x" by (simp add: extract_None_iff)
    show thesis
    proof (cases "MaxNetworkPeers \<le> length (bs_peers s)")
      case True
      with None w0 assms(4) have "status_of w = 403" "s' = s" by (auto simp: register_peer_def finish_def)
      with no True show thesis by (rule refused)
    next
      case False
      with None w0 assms(4) have "status_of w = 200" "bs_peers s' = bs_peers s @ [p]"
        by (auto simp: register_peer_def finish_def)
      with no False show thesis by (intro appended) auto
    qed
  next
    case (Some t)
    obtain ys x zs where t: "t = (ys, x, zs)" by (rule prod_cases3)
    note e = extract_SomeE2 [OF Some [unfolded t]]
    have "status_of w = 200" "bs_peers s' = ys @ p # zs"
      using w0 assms(4) Some t by (auto simp: register_peer_def finish_def Let_def)
    with e show thesis by (intro replaced [of ys x zs]) auto
  qed
qed

text \<open>
  C30. The service never lists more than \<open>MaxNetworkPeers\<close> peers, each with an id and a gRPC
  address, whatever requests it gets, well-formed or not.
\<close>

theorem bootstrap_bounded:
  assumes "reach bs_init bs_step s"
  shows "length (bs_peers s) \<le> MaxNetworkPeers \<and>
    (\<forall>p\<in>set (bs_peers s). bp_PeerID p \<noteq> '''' \<and> bp_GrpcAddr p \<noteq> '''')"
  using bs.reach_inv [OF assms] by (simp add: list_ok_def)

text \<open>
  Registration round trip. A peer with an id and a gRPC address that registers is answered
  200, and is then in the list a node decodes from \<open>/v1/peers\<close>, exactly as it registered; or it
  is answered 403, and then the list is full, holds no peer with its id or an address of it,
  and does not change.
\<close>

theorem register_then_listed:
  assumes "ascii_peer p" "bp_PeerID p \<noteq> ''''" "bp_GrpcAddr p \<noteq> ''''" "\<forall>q\<in>set (bs_peers s). ascii_peer q"
    and "bootstrap_serve (register_request p) s = (w, s1)"
    and "bootstrap_serve list_request s1 = (w2, s2)"
  shows "s2 = s1 \<and> Decode_peers (rs_Body w2) = Inr (bs_peers s1) \<and>
    (status_of w = 200 \<and> p \<in> set (bs_peers s1) \<or>
     status_of w = 403 \<and> s1 = s \<and> MaxNetworkPeers \<le> length (bs_peers s) \<and>
       (\<forall>q\<in>set (bs_peers s). \<not> same_peer p q))"
proof -
  have a: "\<forall>q\<in>set (bs_peers s1). ascii_peer q"
    by (rule register_cases [OF assms(1,2,3,5)]) (use assms(1,4) in auto)
  have "Decode_peers (rs_Body w2) = Inr (bs_peers s1)" "s2 = s1"
    using serve_list [OF assms(6)] Decode_peers_print [OF a, of newline] by simp_all
  then show ?thesis
    by (intro conjI) (simp_all, rule register_cases [OF assms(1,2,3,5)], auto)
qed

text \<open>
  Registering replaces the first entry that shares the id, the gRPC address or the HTTP
  address, the empty one included, and only that entry. So a peer without an HTTP address
  displaces another one without, which is then no longer listed; and a later entry with the
  peer's id stays, so that the id is listed twice.
\<close>

theorem register_replaces_first:
  assumes "ascii_peer p" "bp_PeerID p \<noteq> ''''" "bp_GrpcAddr p \<noteq> ''''"
    and "bs_peers s = before @ q # after" "same_peer p q" "\<forall>x\<in>set before. \<not> same_peer p x"
    and "bootstrap_serve (register_request p) s = (w, s')"
  shows "bs_peers s' = before @ p # after \<and>
    (q \<noteq> p \<and> distinct (bs_peers s) \<longrightarrow> q \<notin> set (bs_peers s')) \<and>
    (bp_PeerID p \<in> bp_PeerID ` set after \<longrightarrow> \<not> distinct (map bp_PeerID (bs_peers s')))"
proof -
  have e: "bs_peers s' = before @ p # after"
  proof (rule register_cases [OF assms(1,2,3,7)])
    fix b2 q2 a2 assume *: "bs_peers s = b2 @ q2 # a2" "same_peer p q2" "\<forall>x\<in>set b2. \<not> same_peer p x"
      "bs_peers s' = b2 @ p # a2"
    then have "List.extract (same_peer p) (bs_peers s) = Some (b2, q2, a2)" by (auto simp: extract_Some_iff)
    moreover have "List.extract (same_peer p) (bs_peers s) = Some (before, q, after)"
      using assms(4,5,6) by (auto simp: extract_Some_iff)
    ultimately show ?thesis using * by simp
  qed (use assms in auto)
  then show ?thesis using assms(4) by auto
qed

text \<open>Two peers without an HTTP address, and the second registering.\<close>

definition ex_bare :: "string \<Rightarrow> regPeer" where
  "ex_bare i = \<lparr>bp_PeerID = i, bp_GrpcAddr = i @ '':1'', bp_HttpAddr = []\<rparr>"

lemma ex_bare_ascii [simp]: "ascii_peer (ex_bare ''a'')" "ascii_peer (ex_bare ''b'')"
  by (simp_all add: ascii_peer_def ex_bare_def ascii_def)

theorem bootstrap_bounded_witness: "length (bs_peers (NewBootstrap True)) \<le> MaxNetworkPeers"
proof -
  have "bootstrap_main (\<lambda>_. None) [] True = Inr (NewBootstrap True)" by (simp add: bootstrap_main_def)
  then have "reach bs_init bs_step (NewBootstrap True)" by (intro reach_init) (auto simp: bs_init_def)
  from bootstrap_bounded [OF this] show ?thesis by simp
qed

theorem register_then_listed_witness:
  "\<exists>w s1 w2 s2. bootstrap_serve (register_request (ex_bare ''a'')) (NewBootstrap True) = (w, s1) \<and>
     bootstrap_serve list_request s1 = (w2, s2) \<and> Decode_peers (rs_Body w2) = Inr (bs_peers s1)"
proof -
  obtain w s1 where 1: "bootstrap_serve (register_request (ex_bare ''a'')) (NewBootstrap True) = (w, s1)"
    by (rule prod.exhaust)
  obtain w2 s2 where 2: "bootstrap_serve list_request s1 = (w2, s2)" by (rule prod.exhaust)
  have "bp_PeerID (ex_bare ''a'') \<noteq> ''''" "bp_GrpcAddr (ex_bare ''a'') \<noteq> ''''"
    "\<forall>q\<in>set (bs_peers (NewBootstrap True)). ascii_peer q" by (simp_all add: ex_bare_def NewBootstrap_def)
  from register_then_listed [OF ex_bare_ascii(1) this 1 2] 1 2 show ?thesis by blast
qed

theorem register_replaces_first_witness:
  "bs_peers (snd (bootstrap_serve (register_request (ex_bare ''b'')) \<lparr>bs_peers = [ex_bare ''a''], bs_rdb = None\<rparr>)) =
     [ex_bare ''b'']"
proof -
  let ?s = "\<lparr>bs_peers = [ex_bare ''a''], bs_rdb = None\<rparr>"
  obtain w s' where 1: "bootstrap_serve (register_request (ex_bare ''b'')) ?s = (w, s')" by (rule prod.exhaust)
  have "bp_PeerID (ex_bare ''b'') \<noteq> ''''" "bp_GrpcAddr (ex_bare ''b'') \<noteq> ''''"
    "bs_peers ?s = [] @ ex_bare ''a'' # []" "same_peer (ex_bare ''b'') (ex_bare ''a'')"
    "\<forall>x\<in>set []. \<not> same_peer (ex_bare ''b'') x" by (simp_all add: ex_bare_def same_peer_def)
  from register_replaces_first [OF ex_bare_ascii(2) this 1] 1 show ?thesis by simp
qed

section \<open>A node and the service\<close>

text \<open>
  The HTTP client of a node whose requests below \<open>base\<close> reach a service that is part of the
  world \<open>e\<close>: \<open>srv\<close> reads its state, \<open>put\<close> writes it.
\<close>

definition service_client ::
  "string \<Rightarrow> ('e \<Rightarrow> Bootstrap) \<Rightarrow> (Bootstrap \<Rightarrow> 'e \<Rightarrow> 'e) \<Rightarrow> 'e http_client" where
  "service_client base srv put meth url body e =
     (if take (length base) url = base
      then (case bootstrap_serve \<lparr>rq_Method = meth, rq_Path = drop (length base) url, rq_Query = [], rq_Body = body\<rparr>
                  (srv e) of
              (w, s') \<Rightarrow> (Inr (status_of w, rs_Body w), put s' e))
      else (Inl ''dial tcp: no route'', e))"

definition self_peer :: "('s, 'c) PeerHost \<Rightarrow> regPeer" where
  "self_peer h = \<lparr>bp_PeerID = h_SelfID h, bp_GrpcAddr = h_GrpcAddr h, bp_HttpAddr = h_HTTPAddr h\<rparr>"

lemma service_register:
  "service_client base srv put ''POST'' (base @ ''/v1/register'') (print_json (BootstrapPeer_json p)) e =
     (case bootstrap_serve (register_request p) (srv e) of
        (w, s') \<Rightarrow> (Inr (status_of w, rs_Body w), put s' e))"
  by (simp add: service_client_def register_request_def)

lemma service_list:
  "service_client base srv put ''GET'' (base @ ''/v1/peers'') [] e =
     (case bootstrap_serve list_request (srv e) of
        (w, s') \<Rightarrow> (Inr (status_of w, rs_Body w), put s' e))"
  by (simp add: service_client_def list_request_def)

text \<open>
  C16. Discovery across two programs. A node with an id and a gRPC address that registers with
  the service gets no error exactly if the service then lists it with its endpoint, and an
  error only if the list is full and stays as it is. Any other node that polls the service
  afterwards gets no error and merges exactly the peers the service lists.
\<close>

theorem discovery_through_service:
  assumes lens: "\<And>s e. srv (put s e) = s" "\<And>e. put (srv e) e = e"
    and self: "ascii_peer (self_peer h)" "h_SelfID h \<noteq> ''''" "h_GrpcAddr h \<noteq> ''''"
    and others: "\<forall>q\<in>set (bs_peers (srv e)). ascii_peer q"
    and url: "h_Bootstrap h \<noteq> ''''" "h_Bootstrap g \<noteq> ''''"
      "TrimRight_slash (h_Bootstrap h) = base" "TrimRight_slash (h_Bootstrap g) = base"
  shows "case registerBootstrap (service_client base srv put) (h, d, e) of
           (r, (h', d', e')) \<Rightarrow>
             h' = h \<and> d' = d \<and>
             (if r = None then self_peer h \<in> set (bs_peers (srv e'))
              else bs_peers (srv e') = bs_peers (srv e) \<and> MaxNetworkPeers \<le> length (bs_peers (srv e))) \<and>
             mergeBootstrapPeers (service_client base srv put) rt ctx (g, dg, e') =
               (None, merge_listed rt ctx (bs_peers (srv e')) (g, dg, e'))"
proof -
  obtain w s1 where w: "bootstrap_serve (register_request (self_peer h)) (srv e) = (w, s1)" by (rule prod.exhaust)
  have id: "bp_PeerID (self_peer h) \<noteq> []" "bp_GrpcAddr (self_peer h) \<noteq> []" using self by (simp_all add: self_peer_def)
  have reg: "registerBootstrap (service_client base srv put) (h, d, e) =
      ((if 300 \<le> status_of w then Some (status_error ''register'' (status_of w) (rs_Body w)) else None), (h, d, put s1 e))"
    using url(1,3) w service_register [of base srv put "self_peer h" e]
    by (simp add: registerBootstrap_def self_peer_def Let_def del: print_json.simps)
  have a: "\<forall>q\<in>set (bs_peers s1). ascii_peer q"
    by (rule register_cases [OF self(1) id w]) (use self(1) others in auto)
  obtain w2 s2 where w2: "bootstrap_serve list_request s1 = (w2, s2)" by (rule prod.exhaust)
  note l = serve_list [OF w2]
  have "service_client base srv put ''GET'' (base @ ''/v1/peers'') [] (put s1 e) = (Inr (200, rs_Body w2), put s1 e)"
    using w2 l lens by (simp add: service_list) (metis lens)
  moreover have "Decode_peers (rs_Body w2) = Inr (bs_peers s1)"
    using l Decode_peers_print [OF a, of newline] by simp
  ultimately have merge: "mergeBootstrapPeers (service_client base srv put) rt ctx (g, dg, put s1 e) =
      (None, merge_listed rt ctx (bs_peers s1) (g, dg, put s1 e))"
    using url(2,4) by (simp add: mergeBootstrapPeers_def)
  have out: "if status_of w < 300 then self_peer h \<in> set (bs_peers s1)
      else bs_peers s1 = bs_peers (srv e) \<and> MaxNetworkPeers \<le> length (bs_peers (srv e))"
    by (rule register_cases [OF self(1) id w]) auto
  from reg merge out lens show ?thesis by (auto split: if_splits)
qed

lemma ex_self_peer: "ascii_peer (self_peer ex_host)" "self_peer (ex_host\<lparr>h_Bootstrap := u\<rparr>) = self_peer ex_host"
proof -
  have "h_HTTPAddr ex_host = ''me:2''" by (simp add: ex_host_def)
  then show "ascii_peer (self_peer ex_host)"
    using CID_ascii [OF ex_ids(3)] by (simp add: ascii_peer_def self_peer_def)
qed (simp add: self_peer_def)

theorem discovery_through_service_witness:
  "\<exists>e'. registerBootstrap (service_client ''http://b'' (\<lambda>e. e) (\<lambda>s _. s))
      (ex_host\<lparr>h_Bootstrap := ''http://b/''\<rparr>, ex_disk, NewBootstrap False) =
      (None, (ex_host\<lparr>h_Bootstrap := ''http://b/''\<rparr>, ex_disk, e')) \<and> self_peer ex_host \<in> set (bs_peers e')"
proof -
  let ?h = "ex_host\<lparr>h_Bootstrap := ''http://b/''\<rparr>"
  let ?s = "NewBootstrap False"
  let ?http = "service_client ''http://b'' (\<lambda>e. e) (\<lambda>s _. s)"
  let ?rt = "\<lparr>rt_now = \<lambda>_. 0, rt_range = \<lambda>_ e. ([], e), rt_sched = \<lambda>_ e. ([], e),
          rt_DialContext = \<lambda>_ _ e. (Inl [], e), rt_ConnClose = \<lambda>_ e. (None, e), rt_Ping = \<lambda>_ _ _ e. (Inl [], e),
          rt_StoreBlock = \<lambda>_ _ _ e. (Inl [], e), rt_GetBlock = \<lambda>_ _ _ e. (Inl [], e), rt_FindProvider = \<lambda>_ _ _ e. (Inl [], e),
          rt_JoinNetwork = \<lambda>_ _ _ e. (Inl [], e)\<rparr> :: (string, Bootstrap) runtime"
  have "case registerBootstrap ?http (?h, ex_disk, ?s) of
           (r, (h', d', e')) \<Rightarrow>
             h' = ?h \<and> d' = ex_disk \<and>
             (if r = None then self_peer ?h \<in> set (bs_peers e')
              else bs_peers e' = bs_peers ?s \<and> MaxNetworkPeers \<le> length (bs_peers ?s)) \<and>
             mergeBootstrapPeers ?http ?rt None (?h, ex_disk, e') =
               (None, merge_listed ?rt None (bs_peers e') (?h, ex_disk, e'))"
    by (rule discovery_through_service)
       (simp_all add: ex_self_peer NewBootstrap_def TrimRight_slash_def)
  moreover have "bs_peers ?s = []" "MaxNetworkPeers \<noteq> 0" by (simp_all add: NewBootstrap_def MaxNetworkPeers_def)
  ultimately show ?thesis by (auto simp: ex_self_peer split: prod.splits if_splits)
qed

end
