(* ===== verification/Cluster.thy ===== *)
theory Cluster
  imports StoreGrowth NodeCalls BootstrapServer
begin

text \<open>
  Several nodes together: a call of one node is served by the handlers of another. The world of
  a node is the rest of the cluster, each running node under its address; the runtime below
  routes every call to the service of \<open>GrpcService\<close>. Which peers are down, which messages are
  lost and in which order the runtime visits things are arbitrary choices. A handler runs to
  its end before the caller goes on.
\<close>

section \<open>The cluster as the world of a node\<close>

text \<open>
  The nodes that run, by address, the bootstrap service, and a counter of the choices made so
  far.
\<close>

record 's cluster =
  cl_draws :: nat
  cl_nodes :: "string \<rightharpoonup> ('s, string) PeerHost \<times> disk"
  cl_service :: Bootstrap

datatype fate = Answered | RequestLost | ReplyLost

record choices =
  ch_now :: "nat \<Rightarrow> time"
  ch_range :: "string set \<Rightarrow> nat \<Rightarrow> string list"
  ch_sched :: "nat \<Rightarrow> nat \<Rightarrow> nat list"
  ch_fate :: "string \<Rightarrow> nat \<Rightarrow> fate"

definition choices_ok :: "choices \<Rightarrow> bool" where
  "choices_ok C \<longleftrightarrow>
     (\<forall>K i. finite K \<longrightarrow> distinct (ch_range C K i) \<and> set (ch_range C K i) = K) \<and>
     (\<forall>n i. distinct (ch_sched C n i) \<and> set (ch_sched C n i) = {..<n})"

definition tick :: "'s cluster \<Rightarrow> 's cluster" where
  "tick e = e\<lparr>cl_draws := Suc (cl_draws e)\<rparr>"

definition unavailable :: error where
  "unavailable = ''rpc error: code = Unavailable''"

text \<open>A call of the node at an address, by one of its handlers.\<close>

definition deliver ::
  "choices \<Rightarrow> string \<Rightarrow>
   (('s, string, 's cluster) node \<Rightarrow> (error + 'r) \<times> ('s, string, 's cluster) node) \<Rightarrow>
   's cluster \<Rightarrow> (error + 'r) \<times> 's cluster" where
  "deliver C addr handler e =
     (case cl_nodes e addr of
        None \<Rightarrow> (Inl unavailable, tick e)
      | Some (h, d) \<Rightarrow>
          if ch_fate C addr (cl_draws e) = RequestLost then (Inl unavailable, tick e)
          else case handler (h, d, tick e) of
                 (r, (h', d', e')) \<Rightarrow>
                   (if ch_fate C addr (cl_draws e) = ReplyLost then Inl unavailable else r,
                    e'\<lparr>cl_nodes := (cl_nodes e')(addr \<mapsto> (h', d'))\<rparr>))"

text \<open>
  The handlers only use the clock and the orders of the runtime. Dialing does not connect
  (\<open>grpc.DialContext\<close> without the blocking option), so it succeeds for any address; a
  connection is named by its address.
\<close>

definition local_rt :: "choices \<Rightarrow> (string, 's cluster) runtime" where
  "local_rt C =
     \<lparr>rt_now = (\<lambda>e. ch_now C (cl_draws e)), rt_range = (\<lambda>K e. (ch_range C K (cl_draws e), tick e)),
      rt_sched = (\<lambda>n e. (ch_sched C n (cl_draws e), tick e)),
      rt_DialContext = (\<lambda>ctx addr e. (Inr addr, e)), rt_ConnClose = (\<lambda>c e. (None, e)),
      rt_Ping = (\<lambda>ctx c q e. (Inl unavailable, e)), rt_StoreBlock = (\<lambda>ctx c q e. (Inl unavailable, e)),
      rt_GetBlock = (\<lambda>ctx c q e. (Inl unavailable, e)), rt_FindProvider = (\<lambda>ctx c q e. (Inl unavailable, e)),
      rt_JoinNetwork = (\<lambda>ctx c q e. (Inl unavailable, e))\<rparr>"

definition cluster_rt :: "'s storage \<Rightarrow> choices \<Rightarrow> (string, 's cluster) runtime" where
  "cluster_rt S C =
     (local_rt C)
       \<lparr>rt_Ping := (\<lambda>ctx c q. deliver C c (svc_Ping (local_rt C) (Some q))),
        rt_StoreBlock := (\<lambda>ctx c q. deliver C c (svc_StoreBlock S (Some q))),
        rt_GetBlock := (\<lambda>ctx c q. deliver C c (svc_GetBlock S (Some q))),
        rt_FindProvider := (\<lambda>ctx c q. deliver C c (svc_FindProvider (local_rt C) (Some q))),
        rt_JoinNetwork := (\<lambda>ctx c q. deliver C c (svc_JoinNetwork (local_rt C) (Some q)))\<rparr>"

lemma cl_nodes_tick [simp]: "cl_nodes (tick e) = cl_nodes e"
  by (simp add: tick_def)

lemma cluster_rt_simps [simp]:
  "rt_range (cluster_rt S C) K e = (ch_range C K (cl_draws e), tick e)"
  "rt_sched (cluster_rt S C) n e = (ch_sched C n (cl_draws e), tick e)"
  "rt_DialContext (cluster_rt S C) ctx addr e = (Inr addr, e)"
  "rt_StoreBlock (cluster_rt S C) ctx addr sq e = deliver C addr (svc_StoreBlock S (Some sq)) e"
  "rt_GetBlock (cluster_rt S C) ctx addr gq e = deliver C addr (svc_GetBlock S (Some gq)) e"
  "rt_FindProvider (cluster_rt S C) ctx addr fq e = deliver C addr (svc_FindProvider (local_rt C) (Some fq)) e"
  "rt_range (local_rt C) K e = (ch_range C K (cl_draws e), tick e)"
  by (simp_all add: cluster_rt_def local_rt_def)

lemma cluster_rt_ok [simp]: "choices_ok C \<Longrightarrow> runtime_ok (cluster_rt S C)" "choices_ok C \<Longrightarrow> runtime_ok (local_rt C)"
  by (simp_all add: runtime_ok_def choices_ok_def local_rt_def cluster_rt_def)

text \<open>Every connection of a pool leads where it says.\<close>

definition conns_ok :: "(string \<rightharpoonup> string) \<Rightarrow> bool" where
  "conns_ok conns \<longleftrightarrow> (\<forall>a c. conns a = Some c \<longrightarrow> c = a)"

lemma conns_ok_upd [simp]: "conns_ok conns \<Longrightarrow> conns_ok (conns(a \<mapsto> a))"
  by (simp add: conns_ok_def)

lemma cluster_Conn:
  "conns_ok conns \<Longrightarrow> \<exists>conns'. Conn (cluster_rt S C) ctx a (conns, e) = (Inr a, (conns', e)) \<and> conns_ok conns'"
  by (cases "conns a") (auto simp: Conn_def DialPeer_def conns_ok_def)

text \<open>So a call reaches the address it is for.\<close>

lemma cluster_callE:
  assumes "with_client (cluster_rt S C) ctx t a body (conns, e) = (r, (conns', e'))" "conns_ok conns"
  obtains ctx' where "conns_ok conns'" "body ctx' a e = (r, e')"
proof -
  let ?ctx = "WithDeadline ctx t (rt_now (cluster_rt S C) e)"
  obtain conns1 where "Conn (cluster_rt S C) ?ctx a (conns, e) = (Inr a, (conns1, e))" "conns_ok conns1"
    using cluster_Conn [OF assms(2)] by blast
  with assms(1) show thesis
    by (intro that [of ?ctx]) (auto simp: with_client_def WithTimeout_def split: prod.splits)
qed

section \<open>What the calls do to the nodes\<close>

text \<open>Wherever the peer is on record, its address is the right one.\<close>

definition known_at :: "string \<Rightarrow> string \<Rightarrow> ProviderRecords \<Rightarrow> bool" where
  "known_at i b p \<longleftrightarrow> prov_wf p \<and> (\<forall>c ep. (c, i, ep) \<in> prov_abs p \<longrightarrow> ep_GrpcAddr ep = b)"

lemma prov_wf_id: "prov_wf p \<Longrightarrow> (c, j, ep) \<in> prov_abs p \<Longrightarrow> ep_PeerId ep = j"
  by (auto simp: prov_wf_def prov_abs_def)

lemma known_at_Add:
  assumes "known_at i b p" "ep_PeerId ep = i \<Longrightarrow> ep_GrpcAddr ep = b"
  shows "known_at i b (prov_Add c (Some ep) p)"
proof (cases "ep_PeerId ep = ''''")
  case False
  then show ?thesis using assms prov_wf_Add [of p c "Some ep"] by (auto simp: known_at_def prov_abs_Add)
qed (use assms(1) in \<open>simp add: prov_Add_eq\<close>)

text \<open>The peer at an address goes on: its blocks, its identity and what it announces remain.\<close>

definition announces :: "string \<Rightarrow> ('s, 'c) PeerHost \<Rightarrow> bool" where
  "announces c h \<longleftrightarrow> (c, h_SelfID h, SelfEndpoint h) \<in> prov_abs (h_providers h)"

definition grows :: "'s storage \<Rightarrow> ('s, 'c) PeerHost \<times> disk \<Rightarrow> ('s, 'c) PeerHost \<times> disk \<Rightarrow> bool" where
  "grows S x y \<longleftrightarrow>
     SelfEndpoint (fst y) = SelfEndpoint (fst x) \<and> h_store (fst y) = h_store (fst x) \<and>
     keeps S (fst x, snd x, ()) (fst y, snd y, ()) \<and>
     (prov_wf (h_providers (fst x)) \<longrightarrow> prov_wf (h_providers (fst y))) \<and>
     (known_at (h_SelfID (fst x)) (h_GrpcAddr (fst x)) (h_providers (fst x)) \<longrightarrow>
        known_at (h_SelfID (fst x)) (h_GrpcAddr (fst x)) (h_providers (fst y))) \<and>
     (\<forall>c. announces c (fst x) \<longrightarrow> announces c (fst y))"

definition peer_grows :: "'s storage \<Rightarrow> string \<Rightarrow> 's cluster \<Rightarrow> 's cluster \<Rightarrow> bool" where
  "peer_grows S b e e' \<longleftrightarrow>
     (\<forall>x. cl_nodes e b = Some x \<longrightarrow> (\<exists>y. cl_nodes e' b = Some y \<and> grows S x y))"

lemma grows_refl [simp]: "grows S x x"
  by (simp add: grows_def)

lemma grows_trans: "grows S x y \<Longrightarrow> grows S y z \<Longrightarrow> grows S x z"
  by (auto simp: grows_def SelfEndpoint_def elim: keeps_trans)

lemma peer_grows_same [simp]: "cl_nodes e' = cl_nodes e \<Longrightarrow> peer_grows S b e e'"
  by (simp add: peer_grows_def)

lemma peer_grows_trans: "peer_grows S b e f \<Longrightarrow> peer_grows S b f g \<Longrightarrow> peer_grows S b e g"
  unfolding peer_grows_def by (meson grows_trans)

lemma keeps_any_world: "keeps S (h, d, e) (h', d', e') \<Longrightarrow> keeps S (h, d, f) (h', d', f')"
  by (auto simp: keeps_def node_view_def)

lemma announces_Add: "announces c h \<Longrightarrow> announces c (h\<lparr>h_providers := prov_Add c' (Some (SelfEndpoint h)) (h_providers h)\<rparr>)"
  by (cases "h_SelfID h = ''''")
     (simp add: announces_def SelfEndpoint_def prov_Add_eq, simp add: announces_def SelfEndpoint_def prov_abs_Add)

lemma StoreBlock_grows:
  assumes "storage_ok S" "svc_StoreBlock S (Some q) (h, d, e) = (r, (h', d', e'))"
  shows "cl_nodes e' = cl_nodes e \<and> grows S (h, d) (h', d')"
proof -
  have "e' = e" using assms(2) by (auto simp: svc_StoreBlock_def split: if_splits option.splits prod.splits sum.splits)
  have "keeps S (h, d, e) (h', d', e')"
    using keeps_serve [OF assms(1), of "(h, d, e)" rt "CallStoreBlock (Some q)" for rt] assms(2) by simp
  then have "keeps S (h, d, ()) (h', d', ())" by (rule keeps_any_world)
  moreover have "h' = h \<or> h' = h\<lparr>h_providers := prov_Add (sb_Cid q) (Some (SelfEndpoint h)) (h_providers h)\<rparr>"
    using assms(2) by (auto simp: svc_StoreBlock_def split: if_splits option.splits prod.splits sum.splits)
  ultimately have "grows S (h, d) (h', d')"
    by (auto simp: grows_def announces_Add prov_wf_Add intro!: known_at_Add) (auto simp: SelfEndpoint_def)
  with \<open>e' = e\<close> show ?thesis by simp
qed

lemma deliver_grows:
  assumes "\<And>h d e r h' d' e'. handler (h, d, e) = (r, (h', d', e')) \<Longrightarrow> cl_nodes e' = cl_nodes e \<and> grows S (h, d) (h', d')"
    and "deliver C a handler e = (r, e')"
  shows "peer_grows S b e e'"
proof (cases "cl_nodes e a")
  case (Some x)
  obtain h d where x: "x = (h, d)" by (rule prod.exhaust)
  obtain y h' d' e1 where y: "handler (h, d, tick e) = (y, (h', d', e1))" by (rule prod_cases4)
  from assms(1) [OF y] have "cl_nodes e1 = cl_nodes e" "grows S (h, d) (h', d')" by simp_all
  with assms(2) Some x y show ?thesis
    by (auto simp: deliver_def peer_grows_def split: if_splits)
qed (use assms(2) in \<open>auto simp: deliver_def\<close>)

lemma deliver_reads:
  assumes "\<And>h d e r s. handler (h, d, e) = (r, s) \<Longrightarrow> \<exists>e'. s = (h, d, e') \<and> cl_nodes e' = cl_nodes e"
    and "deliver C a handler e = (r, e')"
  shows "cl_nodes e' = cl_nodes e"
proof (cases "cl_nodes e a")
  case (Some x)
  obtain h d where x: "x = (h, d)" by (rule prod.exhaust)
  obtain y s where y: "handler (h, d, tick e) = (y, s)" by (rule prod.exhaust)
  from assms(1) [OF y] obtain e1 where "s = (h, d, e1)" "cl_nodes e1 = cl_nodes e" by auto
  with assms(2) Some x y show ?thesis by (auto simp: deliver_def split: if_splits)
qed (use assms(2) in \<open>auto simp: deliver_def\<close>)

lemma GetBlock_reads: "svc_GetBlock S q (h, d, e) = (r, s) \<Longrightarrow> \<exists>e'. s = (h, d, e') \<and> cl_nodes e' = cl_nodes e"
  by (auto simp: svc_GetBlock_def split: option.splits if_splits sum.splits)

lemma FindProvider_reads:
  "svc_FindProvider (local_rt C) q (h, d, e) = (r, s) \<Longrightarrow> \<exists>e'. s = (h, d, e') \<and> cl_nodes e' = cl_nodes e"
  by (auto simp: svc_FindProvider_def split: option.splits if_splits)

text \<open>The two relations: pushes let the peer grow, lookups and fetches leave every node alone.\<close>

definition pushed :: "'s storage \<Rightarrow> string \<Rightarrow> (string, 's cluster) net \<Rightarrow> (string, 's cluster) net \<Rightarrow> bool" where
  "pushed S b n m \<longleftrightarrow> storage_ok S \<longrightarrow>
     (conns_ok (fst n) \<longrightarrow> conns_ok (fst m)) \<and> peer_grows S b (snd n) (snd m)"

definition only_read :: "(string, 's cluster) net \<Rightarrow> (string, 's cluster) net \<Rightarrow> bool" where
  "only_read n m \<longleftrightarrow> (conns_ok (fst n) \<longrightarrow> conns_ok (fst m)) \<and> cl_nodes (snd m) = cl_nodes (snd n)"

interpretation cluster_net: net_relation "cluster_rt S C" only_read
  for S :: "'s storage" and C :: choices
  by unfold_locales (auto simp: only_read_def)

interpretation cluster_push: push_relation "cluster_rt S C" "pushed S b"
  for S :: "'s storage" and C :: choices and b :: string
proof unfold_locales
  fix n m k :: "(string, 's cluster) net"
  assume "pushed S b n m" "pushed S b m k"
  then show "pushed S b n k" using peer_grows_trans unfolding pushed_def by blast
next
  fix ctx c q e r e' and conns :: "string \<rightharpoonup> string"
  assume "rt_StoreBlock (cluster_rt S C) ctx c q e = (r, e')"
  then have "deliver C c (svc_StoreBlock S (Some q)) e = (r, e')" by simp
  from deliver_grows [OF _ this] StoreBlock_grows have "storage_ok S \<Longrightarrow> peer_grows S b e e'" by metis
  then show "pushed S b (conns, e) (conns, e')" by (simp add: pushed_def)
qed (auto simp: pushed_def)

interpretation cluster_read: read_relation "cluster_rt S C" only_read
  for S :: "'s storage" and C :: choices
proof unfold_locales
  fix ctx c fq e and fr :: "error + FindProviderResponse" and e' and conns :: "string \<rightharpoonup> string"
  assume "rt_FindProvider (cluster_rt S C) ctx c fq e = (fr, e')"
  then show "only_read (conns, e) (conns, e')"
    using deliver_reads [OF FindProvider_reads] by (simp add: only_read_def)
next
  fix ctx c gq e and gr :: "error + GetBlockResponse" and e' and conns :: "string \<rightharpoonup> string"
  assume "rt_GetBlock (cluster_rt S C) ctx c gq e = (gr, e')"
  then show "only_read (conns, e) (conns, e')"
    using deliver_reads [OF GetBlock_reads] by (simp add: only_read_def)
qed

section \<open>A push arrives\<close>

definition never_full :: "'s storage \<Rightarrow> 's \<Rightarrow> bool" where
  "never_full S st \<longleftrightarrow> (\<forall>b d. \<exists>c d'. store_Put S st b d = (Inr c, d'))"

text \<open>A peer that runs at an address, answers every call and has room on its disk.\<close>

definition peer_up :: "'s storage \<Rightarrow> choices \<Rightarrow> string \<Rightarrow> string \<Rightarrow> 's cluster \<Rightarrow> bool" where
  "peer_up S C b i e \<longleftrightarrow> b \<noteq> '''' \<and> i \<noteq> '''' \<and> (\<forall>n. ch_fate C b n = Answered) \<and>
     (\<exists>h d. cl_nodes e b = Some (h, d) \<and> h_SelfID h = i \<and> h_GrpcAddr h = b \<and>
        view_sound S (view S (h_store h) d) \<and> prov_wf (h_providers h) \<and> never_full S (h_store h))"

definition holds_block :: "'s storage \<Rightarrow> string \<Rightarrow> bytes \<Rightarrow> 's cluster \<Rightarrow> bool" where
  "holds_block S b data e \<longleftrightarrow>
     (\<exists>h d. cl_nodes e b = Some (h, d) \<and> view S (h_store h) d (NewCID S data) = Some data \<and>
        announces (NewCID S data) h)"

lemma peer_up_grows: "peer_up S C b i e \<Longrightarrow> peer_grows S b e e' \<Longrightarrow> peer_up S C b i e'"
proof -
  assume up: "peer_up S C b i e" and g: "peer_grows S b e e'"
  from up obtain h d where h: "cl_nodes e b = Some (h, d)" "h_SelfID h = i" "h_GrpcAddr h = b"
    "view_sound S (view S (h_store h) d)" "prov_wf (h_providers h)" "never_full S (h_store h)"
    by (auto simp: peer_up_def)
  from g h(1) obtain h' d' where h': "cl_nodes e' b = Some (h', d')" "grows S (h, d) (h', d')"
    by (auto simp: peer_grows_def)
  then have "view_sound S (view S (h_store h') d')"
    using keeps_sound [of S "(h, d, ())" "(h', d', ())"] h(4) by (simp add: grows_def node_view_def)
  with up h h' show ?thesis by (simp add: peer_up_def grows_def SelfEndpoint_def)
qed

lemma holds_block_grows:
  assumes "holds_block S b data e" "peer_up S C b i e" "unforgeable S data" "peer_grows S b e e'"
  shows "holds_block S b data e'"
proof -
  from assms(1,2) obtain h d where h: "cl_nodes e b = Some (h, d)" "view_sound S (view S (h_store h) d)"
    "view S (h_store h) d (NewCID S data) = Some data" "announces (NewCID S data) h"
    by (auto simp: holds_block_def peer_up_def)
  from assms(4) h(1) obtain h' d' where h': "cl_nodes e' b = Some (h', d')" "grows S (h, d) (h', d')"
    by (auto simp: peer_grows_def)
  then have "view S (h_store h') d' (NewCID S data) = Some data"
    using keeps_block [of S "(h, d, ())" "(h', d', ())" data] h(2,3) assms(3)
    by (simp add: grows_def node_view_def)
  with h h' show ?thesis by (simp add: holds_block_def grows_def)
qed

lemma push_arrives:
  assumes "storage_ok S" "peer_up S C b i e" "conns_ok conns"
    and "StoreOnPeer (cluster_rt S C) ctx b (NewCID S data) data (conns, e) = (r, (conns', e'))"
  shows "holds_block S b data e'"
proof -
  from assms(2) obtain h d where h: "cl_nodes e b = Some (h, d)" "h_SelfID h = i" "i \<noteq> ''''"
    "never_full S (h_store h)" "\<And>n. ch_fate C b n = Answered" by (auto simp: peer_up_def)
  obtain c d1 where put: "store_Put S (h_store h) data d = (Inr c, d1)" using h(4) unfolding never_full_def by blast
  let ?c = "NewCID S data"
  let ?h = "h\<lparr>h_providers := prov_Add ?c (Some (SelfEndpoint h)) (h_providers h)\<rparr>"
  have ne: "?c \<noteq> []" using NewCID_key [OF assms(1), of data] by (auto simp: KeyFromHex_def keyBytes_def)
  have "svc_StoreBlock S (Some \<lparr>sb_Cid = ?c, sb_Data = data\<rparr>) (h, d, tick e) =
      (Inr \<lparr>sbr_Ok = True, sbr_ErrorMessage = []\<rparr>, (?h, d1, tick e))"
    using ne put Validate_NewCID [OF assms(1)] by (simp add: svc_StoreBlock_def)
  then have del: "deliver C b (svc_StoreBlock S (Some \<lparr>sb_Cid = ?c, sb_Data = data\<rparr>)) e =
      (Inr \<lparr>sbr_Ok = True, sbr_ErrorMessage = []\<rparr>, (tick e)\<lparr>cl_nodes := (cl_nodes e)(b \<mapsto> (?h, d1))\<rparr>)"
    using h(1,5) by (simp add: deliver_def)
  have "e' = (tick e)\<lparr>cl_nodes := (cl_nodes e)(b \<mapsto> (?h, d1))\<rparr>"
    using assms(4) unfolding StoreOnPeer_def by (rule cluster_callE [OF _ assms(3)]) (simp add: del)
  moreover have "view S (h_store h) d1 ?c = Some data" using Put_ok [OF assms(1) put] by simp
  moreover have "announces ?c ?h"
    using h(2,3) by (simp add: announces_def prov_abs_Add SelfEndpoint_def)
  ultimately show ?thesis by (simp add: holds_block_def)
qed

lemma pushed_after:
  assumes "storage_ok S" "pushed S b (conns, e) (conns', e')" "conns_ok conns" "peer_up S C b i e"
  shows "conns_ok conns'" "peer_up S C b i e'" "peer_grows S b e e'"
  using assms peer_up_grows by (auto simp: pushed_def)

lemma replica_arrives:
  assumes "storage_ok S" "unforgeable S data" "b \<in> set addrs"
    and "peer_up S C b i e" "conns_ok conns"
    and "ReplicateToAddrs_from err (cluster_rt S C) ctx addrs (NewCID S data) data (conns, e) = (r, (conns', e'))"
  shows "holds_block S b data e'"
  using assms(3-6)
proof (induction addrs arbitrary: err conns e)
  case (Cons a addrs)
  obtain x conns1 e1 where s: "StoreOnPeer (cluster_rt S C) ctx a (NewCID S data) data (conns, e) = (x, (conns1, e1))"
    by (rule prod_cases3)
  then obtain err' where rest:
    "ReplicateToAddrs_from err' (cluster_rt S C) ctx addrs (NewCID S data) data (conns1, e1) = (r, (conns', e'))"
    using Cons.prems(4) by (cases x) auto
  note k1 = pushed_after [OF assms(1) cluster_push.R_StoreOnPeer [OF s] Cons.prems(3,2)]
  note k2 = pushed_after [OF assms(1) cluster_push.R_ReplicateToAddrs [OF rest] k1(1,2)]
  show ?case
  proof (cases "a = b")
    case True
    with push_arrives [OF assms(1) Cons.prems(2,3)] s have "holds_block S b data e1" by blast
    from holds_block_grows [OF this k1(2) assms(2) k2(3)] show ?thesis .
  next
    case False
    with Cons.prems(1) have "b \<in> set addrs" by simp
    from Cons.IH [OF this k1(2,1) rest] show ?thesis .
  qed
qed simp

section \<open>An upload reaches every replica\<close>

abbreviation replica_candidates :: "('s, 'c) PeerHost \<Rightarrow> string set" where
  "replica_candidates h \<equiv> eligible (h_SelfID h) (Some [StateActive \<mapsto> True]) (h_reg h)"

text \<open>With no more candidates than replicas wanted, every candidate is chosen.\<close>

lemma all_selected:
  assumes "reg_wf r" "is_order ks (reg_peers r)" "KeyFromHex c = Inr key"
    and "card (eligible self (Some [StateActive \<mapsto> True]) r) \<le> nat k"
  obtains ids where "SelectReplicaPeerIDs ks c k self r = Some (Inr ids)"
    "set ids = eligible self (Some [StateActive \<mapsto> True]) r"
proof -
  let ?E = "eligible self (Some [StateActive \<mapsto> True]) r"
  from ClosestPeerIDs_found [OF assms(1,2) KeyFromHex_length [OF assms(3)], of k self "Some [StateActive \<mapsto> True]"]
  obtain ids where ids: "ClosestPeerIDs ks key k self (Some [StateActive \<mapsto> True]) r = Some ids"
    "distinct ids" "set ids \<subseteq> ?E" "length ids = min (nat k) (card ?E)" by blast
  have "?E \<subseteq> dom (reg_peers r)" by (auto simp: eligible_def Get_def)
  then have "finite ?E" using reg_wfD(1) [OF assms(1)] finite_subset by blast
  then have "set ids = ?E" using ids assms(4) by (intro card_subset_eq) (simp_all add: distinct_card)
  with ids(1) assms(3) show thesis by (intro that) (simp_all add: SelectReplicaPeerIDs_def)
qed

lemma replica_addr:
  "pid \<in> set ids \<Longrightarrow> Get pid r = Some rec \<Longrightarrow> rec_GrpcAddr rec \<noteq> [] \<Longrightarrow> rec_GrpcAddr rec \<in> set (replica_addrs r ids)"
  by (force simp: replica_addrs_def map_filter_def image_iff)

text \<open>The uploading node: the peer at the address is one of its candidates, and none is left out.\<close>

definition replicates_to :: "('s, 'c) PeerHost \<Rightarrow> string \<Rightarrow> bool" where
  "replicates_to h b \<longleftrightarrow> reg_wf (h_reg h) \<and> card (replica_candidates h) \<le> nat (h_ReplFactor h) \<and>
     (\<exists>pid\<in>replica_candidates h. \<exists>rec. Get pid (h_reg h) = Some rec \<and> rec_GrpcAddr rec = b)"

lemma replicates_to_conns [simp]:
  "replicates_to (h\<lparr>h_conns := cs\<rparr>) b \<longleftrightarrow> replicates_to h b"
  "replicates_to (h\<lparr>h_providers := p\<rparr>) b \<longleftrightarrow> replicates_to h b"
  by (simp_all add: replicates_to_def)

lemma replicate_all_arrives:
  assumes "storage_ok S" "choices_ok C" "\<forall>x\<in>set ds. unforgeable S x"
    and "replicates_to h b" "\<forall>x\<in>set ds. view S (h_store h) d (NewCID S x) = Some x"
    and "peer_up S C b i e" "conns_ok (h_conns h)"
    and "replicate_all S (cluster_rt S C) ctx (map (NewCID S) ds) (h, d, e) = (r, (h', d', e'))"
  shows "(\<forall>x\<in>set ds. holds_block S b x e') \<and> peer_up S C b i e' \<and> peer_grows S b e e'"
  using assms(3-8)
proof (induction ds arbitrary: h e)
  case (Cons x ds)
  have get: "store_Get S (h_store h) (NewCID S x) d = Inr x" using Cons.prems(3) by (simp add: store_Get_view)
  let ?ks = "ch_range C (dom (reg_peers (h_reg h))) (cl_draws e)"
  obtain pid rec where wf: "reg_wf (h_reg h)" "card (replica_candidates h) \<le> nat (h_ReplFactor h)"
    and rec: "pid \<in> replica_candidates h" "Get pid (h_reg h) = Some rec" "rec_GrpcAddr rec = b"
    using Cons.prems(2) by (auto simp: replicates_to_def)
  have "is_order ?ks (reg_peers (h_reg h))"
    by (rule runtime_order [OF cluster_rt_ok(1) [OF assms(2)] reg_wfD(1) [OF wf(1)], of S e _ "tick e"]) simp
  moreover obtain key where "KeyFromHex (NewCID S x) = Inr key" using NewCID_key [OF assms(1)] by blast
  ultimately obtain ids where ids: "SelectReplicaPeerIDs ?ks (NewCID S x) (h_ReplFactor h) (h_SelfID h) (h_reg h) = Some (Inr ids)"
    "set ids = replica_candidates h" using all_selected [OF wf(1) _ _ wf(2)] by metis
  let ?addrs = "replica_addrs (h_reg h) ids"
  have b: "b \<in> set ?addrs" using replica_addr [of pid ids "h_reg h" rec] rec ids(2) Cons.prems(4) by (auto simp: peer_up_def)
  obtain y conns e2 where rep: "ReplicateToAddrs (cluster_rt S C) ctx ?addrs (NewCID S x) x (h_conns h, tick e) =
      (y, (conns, e2))" by (rule prod_cases3)
  have rest: "replicate_all S (cluster_rt S C) ctx (map (NewCID S) ds) (h\<lparr>h_conns := conns\<rparr>, d, e2) = (r, (h', d', e'))"
  proof -
    have "?addrs \<noteq> []" using b by auto
    with Cons.prems(6) get ids(1) rep show ?thesis by (simp add: Let_def)
  qed
  have up: "peer_up S C b i (tick e)" using Cons.prems(4) by (simp add: peer_up_def)
  note k = pushed_after [OF assms(1) cluster_push.R_ReplicateToAddrs [OF rep [unfolded ReplicateToAddrs_def]] Cons.prems(5) up]
  have un: "unforgeable S x" using Cons.prems(1) by simp
  have "holds_block S b x e2"
    by (rule replica_arrives [OF assms(1) un b up Cons.prems(5) rep [unfolded ReplicateToAddrs_def]])
  moreover have "(\<forall>x\<in>set ds. holds_block S b x e') \<and> peer_up S C b i e' \<and> peer_grows S b e2 e'"
    by (rule Cons.IH [OF _ _ _ k(2) _ rest]) (use Cons.prems k(1) in simp_all)
  moreover have "peer_grows S b e e2"
    using peer_grows_trans [of S b e "tick e" e2] k(3) by simp
  ultimately show ?case
    using holds_block_grows [OF _ k(2) un] peer_grows_trans by auto
qed simp

text \<open>So after an upload every block of the file is at the peer.\<close>

lemma upload_arrives:
  assumes "storage_ok S" "choices_ok C" "peer_up S C b i e" "replicates_to h b" "conns_ok (h_conns h)"
    and "AddFile S os (cluster_rt S C) ctx path (h, d, e) = (Inr root, (h', d', e'))"
  obtains bs where "d path = Some (concat bs)" "root = NewCID S (file_node_block S bs)"
    "\<forall>x\<in>set (file_node_block S bs # bs). unforgeable S x \<Longrightarrow>
      (\<forall>x\<in>set (file_node_block S bs # bs). holds_block S b x e') \<and> peer_up S C b i e' \<and> peer_grows S b e e'"
proof (rule AddFile_steps [OF assms(1,6)])
  fix bs d1 c d2
  let ?X = "file_node_block S bs # bs"
  assume bs: "d path = Some (concat bs)" "root = NewCID S (file_node_block S bs)" "stored_file S h d d' bs"
    and ra: "replicate_all S (cluster_rt S C) ctx (map (NewCID S) ?X)
      (h\<lparr>h_providers := announce_all S h bs\<rparr>, d', e) = (Inr (), (h', d', e'))"
  have "(\<forall>x\<in>set ?X. holds_block S b x e') \<and> peer_up S C b i e' \<and> peer_grows S b e e'"
    if un: "\<forall>x\<in>set ?X. unforgeable S x"
  proof -
    have "inj_on (NewCID S) (set (bs @ [file_node_block S bs]))" using un by (auto simp: inj_on_def unforgeable_def)
    then have v: "\<forall>x\<in>set ?X. view S (h_store h) d' (NewCID S x) = Some x"
      using put_blocks_get bs(3) unfolding stored_file_def by fastforce
    show ?thesis
      by (rule replicate_all_arrives [OF assms(1,2) un _ _ assms(3) _ ra]) (use assms(4,5) v in simp_all)
  qed
  with bs(1,2) show thesis by (intro that) simp_all
qed

section \<open>The replica is found\<close>

definition all_known_at :: "string \<Rightarrow> string \<Rightarrow> 's cluster \<Rightarrow> bool" where
  "all_known_at i b e \<longleftrightarrow> (\<forall>a h d. cl_nodes e a = Some (h, d) \<longrightarrow> known_at i b (h_providers h))"

lemma known_at_id: "known_at i b p \<Longrightarrow> (c, j, ep) \<in> prov_abs p \<Longrightarrow> ep_PeerId ep = i \<Longrightarrow> ep_GrpcAddr ep = b"
  using prov_wf_id unfolding known_at_def by metis

lemma all_known_atD: "all_known_at i b e \<Longrightarrow> cl_nodes e a = Some (h, d) \<Longrightarrow> known_at i b (h_providers h)"
  unfolding all_known_at_def by blast

lemma deliverE:
  assumes "deliver C a handler e = (Inr r, e')"
  obtains h d s where "cl_nodes e a = Some (h, d)" "handler (h, d, tick e) = (Inr r, s)"
  using assms by (cases "cl_nodes e a") (auto simp: deliver_def split: if_splits prod.splits)

lemma deliver_answered:
  assumes "cl_nodes e a = Some (h, d)" "\<And>n. ch_fate C a n = Answered" "handler (h, d, tick e) = (r, s)"
  shows "fst (deliver C a handler e) = r"
  using assms by (auto simp: deliver_def split: prod.split)

lemma FindProvider_answer:
  assumes "choices_ok C" "prov_wf (h_providers h)" "c \<noteq> []"
    and "svc_FindProvider (local_rt C) (Some \<lparr>fp_Cid = c\<rparr>) (h, d, e) = (r, s)"
  obtains resp where "r = Inr resp" "set (fpr_Providers resp) = Some ` {ep. \<exists>i. (c, i, ep) \<in> prov_abs (h_providers h)}"
proof -
  let ?K = "case h_providers h c of None \<Rightarrow> {} | Some mp \<Rightarrow> dom mp"
  let ?ks = "ch_range C ?K (cl_draws e)"
  have "is_order ?ks mp" if "h_providers h c = Some mp" for mp
    using runtime_order [OF cluster_rt_ok(2) [OF assms(1)], of mp e ?ks "tick e"] assms(2) that
    by (simp add: prov_wf_def)
  then have "set (prov_Get ?ks c (h_providers h)) = {ep. \<exists>i. (c, i, ep) \<in> prov_abs (h_providers h)}"
    by (rule prov_Get_set [OF assms(2)])
  with assms(3,4) show thesis by (intro that [of "\<lparr>fpr_Providers = map Some (prov_Get ?ks c (h_providers h))\<rparr>"])
    (auto simp: svc_FindProvider_def)
qed

lemma ask_answer:
  assumes "choices_ok C" "all_known_at i b e" "c \<noteq> []" "conns_ok conns"
    and "ask_provider (cluster_rt S C) ctx c a (conns, e) = (Inr resp, (conns', e'))"
  obtains h d where "cl_nodes e a = Some (h, d)"
    "set (fpr_Providers resp) = Some ` {ep. \<exists>j. (c, j, ep) \<in> prov_abs (h_providers h)}"
proof -
  obtain ctx' where del: "deliver C a (svc_FindProvider (local_rt C) (Some \<lparr>fp_Cid = c\<rparr>)) e = (Inr resp, e')"
    using assms(5) unfolding ask_provider_def by (rule cluster_callE [OF _ assms(4)]) simp
  then obtain h d s where h: "cl_nodes e a = Some (h, d)"
    and f: "svc_FindProvider (local_rt C) (Some \<lparr>fp_Cid = c\<rparr>) (h, d, tick e) = (Inr resp, s)" by (rule deliverE)
  have "prov_wf (h_providers h)" using all_known_atD [OF assms(2) h] by (simp add: known_at_def)
  then show thesis
    by (rule FindProvider_answer [OF assms(1) _ assms(3) f]) (use that [OF h] in simp)
qed

lemma ask_replica:
  assumes "choices_ok C" "peer_up S C b i e" "c \<noteq> []" "conns_ok conns"
    and "cl_nodes e b = Some (h, d)" "announces c h"
    and "ask_provider (cluster_rt S C) ctx c b (conns, e) = (r, (conns', e'))"
  obtains resp where "r = Inr resp" "Some (SelfEndpoint h) \<in> set (fpr_Providers resp)"
proof -
  obtain ctx' where del: "deliver C b (svc_FindProvider (local_rt C) (Some \<lparr>fp_Cid = c\<rparr>)) e = (r, e')"
    using assms(7) unfolding ask_provider_def by (rule cluster_callE [OF _ assms(4)]) simp
  obtain x s where f: "svc_FindProvider (local_rt C) (Some \<lparr>fp_Cid = c\<rparr>) (h, d, tick e) = (x, s)" by (rule prod.exhaust)
  have up: "prov_wf (h_providers h)" "ch_fate C b n = Answered" for n
    using assms(2,5) by (auto simp: peer_up_def)
  obtain resp where "x = Inr resp" "set (fpr_Providers resp) = Some ` {ep. \<exists>j. (c, j, ep) \<in> prov_abs (h_providers h)}"
    by (rule FindProvider_answer [OF assms(1) up(1) assms(3) f])
  moreover have "x = r" using deliver_answered [where handler = "svc_FindProvider (local_rt C) (Some \<lparr>fp_Cid = c\<rparr>)", OF assms(5) up(2) f] del by simp
  ultimately show thesis using assms(6) by (intro that [of resp]) (auto simp: announces_def)
qed

lemma only_readD:
  "only_read (conns, e) (conns', e') \<Longrightarrow> conns_ok conns \<Longrightarrow> conns_ok conns' \<and> cl_nodes e' = cl_nodes e"
  by (simp add: only_read_def)

lemma peer_up_same: "cl_nodes e' = cl_nodes e \<Longrightarrow> peer_up S C b i e' = peer_up S C b i e"
  "cl_nodes e' = cl_nodes e \<Longrightarrow> holds_block S b x e' = holds_block S b x e"
  "cl_nodes e' = cl_nodes e \<Longrightarrow> all_known_at i b e' = all_known_at i b e"
  by (simp_all add: peer_up_def holds_block_def all_known_at_def)

text \<open>The answers to a lookup give no other address for the peer, and include its own.\<close>

lemma replies_known:
  assumes "choices_ok C" "all_known_at i b e" "c \<noteq> []" "conns_ok conns"
    and "replies (cluster_rt S C) ctx c addrs (conns, e) = (eps, n')"
  shows "Some ep \<in> set eps \<Longrightarrow> ep_PeerId ep = i \<Longrightarrow> ep_GrpcAddr ep = b"
    and "peer_up S C b i e \<Longrightarrow> cl_nodes e b = Some (h, d) \<Longrightarrow> announces c h \<Longrightarrow> b \<in> set addrs \<Longrightarrow>
      Some (SelfEndpoint h) \<in> set eps"
proof -
  have "(\<forall>ep. Some ep \<in> set eps \<longrightarrow> ep_PeerId ep = i \<longrightarrow> ep_GrpcAddr ep = b) \<and>
    (peer_up S C b i e \<and> cl_nodes e b = Some (h, d) \<and> announces c h \<and> b \<in> set addrs \<longrightarrow> Some (SelfEndpoint h) \<in> set eps)"
    using assms(2,4,5)
  proof (induction addrs arbitrary: conns e eps)
    case (Cons a addrs)
    obtain r conns1 e1 where ask: "ask_provider (cluster_rt S C) ctx c a (conns, e) = (r, (conns1, e1))" by (rule prod_cases3)
    note k = only_readD [OF cluster_read.R_ask_provider [OF ask] Cons.prems(2)]
    obtain eps' where rest: "replies (cluster_rt S C) ctx c addrs (conns1, e1) = (eps', n')"
      and eps: "eps = (case r of Inl _ \<Rightarrow> [] | Inr resp \<Rightarrow> fpr_Providers resp) @ eps'"
      using Cons.prems(3) ask by (auto split: prod.splits)
    have IH: "(\<forall>ep. Some ep \<in> set eps' \<longrightarrow> ep_PeerId ep = i \<longrightarrow> ep_GrpcAddr ep = b) \<and>
      (peer_up S C b i e \<and> cl_nodes e b = Some (h, d) \<and> announces c h \<and> b \<in> set addrs \<longrightarrow> Some (SelfEndpoint h) \<in> set eps')"
      using Cons.IH [OF _ _ rest] k Cons.prems(1) peer_up_same [of e1 e] by simp
    have first: "ep_GrpcAddr ep = b" if r: "r = Inr resp" and ep: "Some ep \<in> set (fpr_Providers resp)" "ep_PeerId ep = i" for resp ep
    proof -
      obtain h d where h: "cl_nodes e a = Some (h, d)"
        "set (fpr_Providers resp) = Some ` {ep. \<exists>j. (c, j, ep) \<in> prov_abs (h_providers h)}"
        by (rule ask_answer [OF assms(1) Cons.prems(1) assms(3) Cons.prems(2) ask [unfolded r]])
      obtain j where "(c, j, ep) \<in> prov_abs (h_providers h)" using ep(1) h(2) by auto
      from known_at_id [OF all_known_atD [OF Cons.prems(1) h(1)] this ep(2)] show ?thesis .
    qed
    have "Some (SelfEndpoint h) \<in> set eps"
      if up: "peer_up S C b i e" and h: "cl_nodes e b = Some (h, d)" "announces c h" and ab: "a = b"
    proof -
      obtain resp where "r = Inr resp" "Some (SelfEndpoint h) \<in> set (fpr_Providers resp)"
        by (rule ask_replica [OF assms(1) up assms(3) Cons.prems(2) h ask [unfolded ab]])
      then show ?thesis by (simp add: eps)
    qed
    with IH first show ?case by (auto simp: eps split: sum.splits)
  qed simp
  then show "Some ep \<in> set eps \<Longrightarrow> ep_PeerId ep = i \<Longrightarrow> ep_GrpcAddr ep = b"
    "peer_up S C b i e \<Longrightarrow> cl_nodes e b = Some (h, d) \<Longrightarrow> announces c h \<Longrightarrow> b \<in> set addrs \<Longrightarrow>
      Some (SelfEndpoint h) \<in> set eps" by blast+
qed

lemma set_offered: "ep \<in> set (offered eps) \<longleftrightarrow> Some ep \<in> set eps"
proof (induction eps)
  case (Cons x eps)
  then show ?case by (cases x) auto
qed simp

lemma lookup_finds:
  assumes "choices_ok C" "peer_up S C b i e" "cl_nodes e b = Some (hb, db)" "announces c hb" "c \<noteq> []"
    and "all_known_at i b e" "known_at i b local" "conns_ok conns" "b \<in> set (lookup_targets self peers)"
    and "LookupProviders (cluster_rt S C) ctx local self peers c (conns, e) = (out, n')"
  shows "\<exists>ep\<in>set out. ep_GrpcAddr ep = b"
proof -
  have wf: "prov_wf local" using assms(7) by (simp add: known_at_def)
  obtain ks e1 perm addrs e2 eps m where
    ks: "rt_range (cluster_rt S C) (case local c of None \<Rightarrow> {} | Some mp \<Rightarrow> dom mp) (snd (conns, e)) = (ks, e1)"
    and perm: "rt_sched (cluster_rt S C) (length (lookup_targets self peers)) e1 = (perm, e2)"
    and o: "\<And>mp. local c = Some mp \<Longrightarrow> is_order ks mp"
    and addrs: "mset addrs = mset (lookup_targets self peers)"
    and r: "replies (cluster_rt S C) ctx c addrs (fst (conns, e), e2) = (eps, m)"
    and out: "LookupProviders (cluster_rt S C) ctx local self peers c (conns, e) =
       (first_by_id {} (prov_Get ks c local @ offered eps), m)"
    by (rule LookupProviders_eq [OF cluster_rt_ok(1) [OF assms(1), of S] wf, where cid = c and self = self and
          n = "(conns, e)" and ctx = ctx and peers = peers]) (rule that)
  have e2: "cl_nodes e2 = cl_nodes e" using ks perm by auto
  have b: "b \<in> set addrs" using addrs assms(9) by (metis set_mset_mset)
  note known = replies_known [where S = S, OF assms(1) _ assms(5,8) r [unfolded fst_conv], of i b]
  have all: "all_known_at i b e2" using assms(6) e2 peer_up_same(3) by metis
  have "Some (SelfEndpoint hb) \<in> set eps"
    using known(2) [OF all _ _ assms(4) b] assms(2,3) peer_up_same(1) [OF e2] e2 by simp
  then have "SelfEndpoint hb \<in> set (offered eps)" by (simp add: set_offered)
  moreover have "ep_PeerId (SelfEndpoint hb) = i" "i \<noteq> ''''"
    using assms(2,3) by (auto simp: peer_up_def SelfEndpoint_def)
  ultimately have "i \<in> ep_PeerId ` set (prov_Get ks c local @ offered eps) - insert '''' {}" by force
  then have "i \<in> ep_PeerId ` set out"
    using out assms(10) unfolding first_by_id_facts(3) [symmetric] by simp
  then obtain ep where ep: "ep \<in> set out" "ep_PeerId ep = i" by blast
  then have "ep \<in> set (prov_Get ks c local) \<or> Some ep \<in> set eps"
    using first_by_id_facts(2) [of "{}" "prov_Get ks c local @ offered eps"] out assms(10) by (auto simp: set_offered)
  then have "ep_GrpcAddr ep = b"
    using known(1) [OF all] prov_Get_set [OF wf o] known_at_id [OF assms(7)] ep(2) by auto
  with ep(1) show ?thesis by blast
qed

lemma attempt_replica:
  assumes "storage_ok S" "peer_up S C b i e" "holds_block S b x e" "x \<noteq> []" "conns_ok conns"
    and "attempt (VerifyCID S) (cluster_rt S C) ctx (NewCID S x) b (conns, e) = (r, n')"
  shows "r = Inr x"
proof -
  let ?c = "NewCID S x"
  obtain h d where h: "cl_nodes e b = Some (h, d)" "view S (h_store h) d ?c = Some x"
    using assms(3) by (auto simp: holds_block_def)
  have up: "ch_fate C b n = Answered" for n using assms(2) by (simp add: peer_up_def)
  have ne: "?c \<noteq> []" using NewCID_key [OF assms(1), of x] by (auto simp: KeyFromHex_def keyBytes_def)
  obtain y conns1 e1 where f: "fetch_from (cluster_rt S C) ctx ?c b (conns, e) = (y, (conns1, e1))" by (rule prod_cases3)
  obtain z e2 where z: "deliver C b (svc_GetBlock S (Some \<lparr>gb_Cid = ?c\<rparr>)) e = (z, e2)" by (rule prod.exhaust)
  have "svc_GetBlock S (Some \<lparr>gb_Cid = ?c\<rparr>) (h, d, tick e) =
      (Inr \<lparr>gbr_Data = x, gbr_ErrorMessage = []\<rparr>, (h, d, tick e))"
    using ne h(2) by (simp add: svc_GetBlock_def store_Get_view [symmetric])
  from deliver_answered [where handler = "svc_GetBlock S (Some \<lparr>gb_Cid = ?c\<rparr>)", OF h(1) up this] z
  have "z = Inr \<lparr>gbr_Data = x, gbr_ErrorMessage = []\<rparr>" by simp
  with z have "y = Inr x"
    using f assms(4) unfolding fetch_from_def by (elim cluster_callE [OF _ assms(5)]) simp
  moreover have "VerifyCID S ?c x = None" using VerifyCID_iff [OF assms(1)] by simp
  ultimately show ?thesis using f assms(6) by (simp add: attempt_def)
qed

lemma fetch_finds:
  assumes "storage_ok S" "peer_up S C b i e" "holds_block S b x e" "x \<noteq> []" "conns_ok conns"
    and "\<exists>ep\<in>set eps. ep_GrpcAddr ep = b"
    and "FetchBlock_from err (VerifyCID S) (cluster_rt S C) ctx (NewCID S x) (map Some eps) (conns, e) = (r, n')"
  shows "\<exists>y. r = Inr y \<and> NewCID S y = NewCID S x"
  using assms(2,3,5-7)
proof (induction eps arbitrary: err conns e)
  case (Cons ep eps)
  show ?case
  proof (cases "ep_GrpcAddr ep = ''''")
    case True
    moreover have "b \<noteq> ''''" using Cons.prems(1) by (simp add: peer_up_def)
    ultimately show ?thesis using Cons.IH [OF Cons.prems(1-3)] Cons.prems(4,5) by auto
  next
    case False
    obtain y conns1 e1 where a: "attempt (VerifyCID S) (cluster_rt S C) ctx (NewCID S x) (ep_GrpcAddr ep) (conns, e) = (y, (conns1, e1))"
      by (rule prod_cases3)
    note k = only_readD [OF cluster_read.R_attempt [OF a] Cons.prems(3)]
    note step = FetchBlock_from_attempt [OF False, of err "VerifyCID S" "cluster_rt S C" ctx "NewCID S x" "map Some eps" "(conns, e)", unfolded a prod.case]
    show ?thesis
    proof (cases y)
      case (Inr data)
      with Cons.prems(5) step have "r = Inr data" by simp
      moreover have "NewCID S data = NewCID S x"
        using attempt_ok [OF a [unfolded Inr]] assms(1) by (simp add: VerifyCID_iff)
      ultimately show ?thesis by blast
    next
      case (Inl err')
      then have "ep_GrpcAddr ep \<noteq> b"
        using attempt_replica [OF assms(1) Cons.prems(1,2) assms(4) Cons.prems(3)] a by fastforce
      with Cons.prems(4) have "\<exists>ep\<in>set eps. ep_GrpcAddr ep = b" by simp
      moreover have "FetchBlock_from (Some err') (VerifyCID S) (cluster_rt S C) ctx (NewCID S x) (map Some eps) (conns1, e1) = (r, n')"
        using Inl Cons.prems(5) step by simp
      ultimately show ?thesis
        using Cons.IH [of e1 conns1 "Some err'"] Cons.prems(1,2) k peer_up_same(1,2) [of e1 e] by simp
    qed
  qed
qed simp

section \<open>A download from the replica\<close>

text \<open>A node that knows the peer as active, at an address that is not its own.\<close>

definition can_read :: "string \<Rightarrow> string \<Rightarrow> ('s, string) PeerHost \<Rightarrow> bool" where
  "can_read i b h \<longleftrightarrow> reg_wf (h_reg h) \<and> known_at i b (h_providers h) \<and> h_GrpcAddr h \<noteq> b \<and>
     (\<exists>rec\<in>ran (reg_peers (h_reg h)). rec_State rec = StateActive \<and> rec_GrpcAddr rec = b)"

text \<open>What a read needs of the cluster: the replica, and no other address on record for it.\<close>

definition replica_of :: "'s storage \<Rightarrow> choices \<Rightarrow> string \<Rightarrow> string \<Rightarrow> bytes set \<Rightarrow> 's cluster \<Rightarrow> bool" where
  "replica_of S C b i X e \<longleftrightarrow> peer_up S C b i e \<and> all_known_at i b e \<and> (\<forall>x\<in>X. holds_block S b x e)"

lemma replica_of_same: "cl_nodes e' = cl_nodes e \<Longrightarrow> replica_of S C b i X e' = replica_of S C b i X e"
  using peer_up_same [of e' e] by (simp add: replica_of_def)

lemma can_read_same: "same_host h h' \<Longrightarrow> can_read i b h' = can_read i b h"
  by (simp add: can_read_def same_host_fields)

lemma fetch_remote_finds:
  assumes "storage_ok S" "choices_ok C" "replica_of S C b i {x} e" "can_read i b h" "x \<noteq> []" "conns_ok (h_conns h)"
    and "fetch_remote S (cluster_rt S C) ctx (NewCID S x) (h, d, e) = (r, s')"
  shows "\<exists>y. r = Inr y \<and> NewCID S y = NewCID S x"
proof -
  let ?rt = "cluster_rt S C" and ?c = "NewCID S x"
  have up: "peer_up S C b i e" "all_known_at i b e" "holds_block S b x e"
    using assms(3) by (simp_all add: replica_of_def)
  obtain hb db where hb: "cl_nodes e b = Some (hb, db)" "announces ?c hb" using up(3) by (auto simp: holds_block_def)
  obtain ps e1 where ps: "draw_Snapshot ?rt (h_reg h) e = (ps, e1)" by (rule prod.exhaust)
  then have e1: "cl_nodes e1 = cl_nodes e" by (auto simp: draw_Snapshot_def)
  have reader: "reg_wf (h_reg h)" "known_at i b (h_providers h)" "h_GrpcAddr h \<noteq> b" "b \<noteq> ''''"
    using assms(4) up(1) by (simp_all add: can_read_def peer_up_def)
  have "set ps = ran (reg_peers (h_reg h))"
    by (rule draw_Snapshot_set(1) [OF cluster_rt_ok(1) [OF assms(2)] reader(1) ps])
  then have b: "b \<in> set (lookup_targets (h_GrpcAddr h) ps)"
    using assms(4) reader(3,4) by (auto simp: can_read_def lookup_targets_def)
  have ne: "?c \<noteq> []" using NewCID_key [OF assms(1), of x] by (auto simp: KeyFromHex_def keyBytes_def)
  obtain out conns2 e2 where lk: "LookupProviders ?rt ctx (h_providers h) (h_GrpcAddr h) ps ?c (h_conns h, e1) = (out, (conns2, e2))"
    by (rule prod_cases3)
  note same = peer_up_same [OF e1]
  have "\<exists>ep\<in>set out. ep_GrpcAddr ep = b"
    by (rule lookup_finds [OF assms(2) _ _ hb(2) ne _ reader(2) assms(6) b lk]) (use up hb same e1 in simp_all)
  moreover note k = only_readD [OF cluster_read.R_LookupProviders [OF lk] assms(6)]
  moreover obtain z conns3 e3 where
    f: "FetchBlock_from None (VerifyCID S) ?rt ctx ?c (map Some out) (conns2, e2) = (z, (conns3, e3))" by (rule prod_cases3)
  ultimately have "\<exists>y. z = Inr y \<and> NewCID S y = ?c"
    using fetch_finds [OF assms(1) _ _ assms(5) _ _ f] up(1,3) same peer_up_same [of e2 e1] by simp
  with assms(7) ps lk f show ?thesis by (simp add: fetch_remote_def FetchBlock_def)
qed

lemma load_block_finds:
  assumes "storage_ok S" "choices_ok C" "replica_of S C b i {x} e" "can_read i b h" "x \<noteq> []" "unforgeable S x"
    and "conns_ok (h_conns h)" "view_sound S (view S (h_store h) d)"
    and "load_block S (cluster_rt S C) ctx wrap (NewCID S x) (h, d, e) = (r, (h', d', e'))"
  shows "r = Inr x \<and> same_host h h' \<and> conns_ok (h_conns h') \<and> view_sound S (view S (h_store h') d') \<and>
    cl_nodes e' = cl_nodes e"
proof -
  have l: "loaded S (NewCID S x) (h, d, e) r (h', d', e')"
    using load_block_loaded [OF assms(1) _ assms(9)] assms(8) by simp
  have "\<exists>y. r = Inr y \<and> conns_ok (h_conns h') \<and> cl_nodes e' = cl_nodes e"
  proof (cases "store_Get S (h_store h) (NewCID S x) d")
    case (Inr y)
    then have "r = Inr y" "h' = h" "e' = e" using assms(9) by (simp_all add: load_block_def)
    with assms(7) show ?thesis by simp
  next
    case (Inl err)
    obtain z h1 d1 e1 where f: "fetch_remote S (cluster_rt S C) ctx (NewCID S x) (h, d, e) = (z, (h1, d1, e1))"
      by (rule prod_cases4)
    obtain y where y: "z = Inr y" "NewCID S y = NewCID S x"
      using fetch_remote_finds [OF assms(1-5,7) f] by blast
    have v: "VerifyCID S (NewCID S x) y = None" using y(2) by (simp add: VerifyCID_iff [OF assms(1)])
    note k = only_readD [OF cluster_read.R_fetch_remote [OF f] assms(7)]
    from assms(9) Inl f y(1) v have "r = Inr y \<and> h' = h1 \<and> e' = e1" by (simp add: load_block_def keep_block_def)
    with k show ?thesis by blast
  qed
  with l loaded_view_sound [OF l] assms(6,8) show ?thesis by (auto simp: loaded_def unforgeable_def)
qed

lemma stream_finds:
  assumes "storage_ok S" "choices_ok C" "\<forall>x\<in>set bs. unforgeable S x \<and> x \<noteq> []"
    and "replica_of S C b i (set bs) e" "can_read i b h" "conns_ok (h_conns h)" "view_sound S (view S (h_store h) d)"
  shows "\<exists>s'. stream_chunks S (cluster_rt S C) ctx (\<lambda>_ _. None) (map (NewCID S) bs) out (h, d, e) = ((None, out @ concat bs), s')"
  using assms(3-7)
proof (induction bs arbitrary: out h d e)
  case (Cons x bs)
  obtain r h1 d1 e1 where l: "load_chunk S (cluster_rt S C) ctx (NewCID S x) (h, d, e) = (r, (h1, d1, e1))" by (rule prod_cases4)
  have "replica_of S C b i {x} e" "x \<noteq> []" "unforgeable S x" using Cons.prems(1,2) by (simp_all add: replica_of_def)
  from load_block_finds [OF assms(1,2) this(1) Cons.prems(3) this(2,3) Cons.prems(4,5) l [unfolded load_chunk_def]]
  have 1: "r = Inr x" "same_host h h1" "conns_ok (h_conns h1)" "view_sound S (view S (h_store h1) d1)" "cl_nodes e1 = cl_nodes e"
    by simp_all
  have "replica_of S C b i (set bs) e1" using Cons.prems(2) replica_of_same [OF 1(5)] by (simp add: replica_of_def)
  with Cons.IH [of e1 h1 d1 "out @ x"] 1 Cons.prems(1,3) can_read_same [OF 1(2)] l show ?case by simp
qed simp

lemma GetFile_finds:
  assumes "storage_ok S" "choices_ok C" "\<forall>x\<in>set (file_node_block S bs # bs). unforgeable S x \<and> x \<noteq> []"
    and "replica_of S C b i (set (file_node_block S bs # bs)) e" "can_read i b h" "conns_ok (h_conns h)"
    and "view_sound S (view S (h_store h) d)"
  shows "\<exists>s'. GetFile S (cluster_rt S C) ctx (NewCID S (file_node_block S bs)) (\<lambda>_ _. None) (h, d, e) = ((None, concat bs), s')"
proof -
  let ?nb = "file_node_block S bs"
  obtain r h1 d1 e1 where l: "load_root S (cluster_rt S C) ctx (NewCID S ?nb) (h, d, e) = (r, (h1, d1, e1))" by (rule prod_cases4)
  have "replica_of S C b i {?nb} e" "?nb \<noteq> []" "unforgeable S ?nb" using assms(3,4) by (simp_all add: replica_of_def)
  from load_block_finds [OF assms(1,2) this(1) assms(5) this(2,3) assms(6,7) l [unfolded load_root_def]]
  have 1: "r = Inr ?nb" "same_host h h1" "conns_ok (h_conns h1)" "view_sound S (view S (h_store h1) d1)" "cl_nodes e1 = cl_nodes e"
    by simp_all
  have 2: "replica_of S C b i (set bs) e1" using assms(4) replica_of_same [OF 1(5)] by (simp add: replica_of_def)
  from stream_finds [OF assms(1,2) _ 2 _ 1(3,4), of ctx "[]"] assms(3,5) can_read_same [OF 1(2)]
  obtain s' where "stream_chunks S (cluster_rt S C) ctx (\<lambda>_ _. None) (map (NewCID S) bs) [] (h1, d1, e1) = ((None, concat bs), s')"
    by auto
  with l 1(1) have "GetFile S (cluster_rt S C) ctx (NewCID S ?nb) (\<lambda>_ _. None) (h, d, e) = ((None, concat bs), s')"
    by (simp add: GetFile_def file_node_encoded(2) [OF assms(1)])
  then show ?thesis ..
qed

text \<open>
  C5. A replica survives the node that took the upload. Let a node upload a file while a peer
  that answers and has room is among its candidates for replicas, of which there are no more
  than replicas wanted. If no other block shares an id with one of the blocks of the file and
  none is empty, then afterwards, whatever became of the uploader and of every other node, and
  whatever else the peer went on to store, any node that knows the peer as active at its
  address can download the file: \<open>GetFile\<close> succeeds with exactly the bytes uploaded, whatever
  calls to other peers fail and whatever they answer, as long as no node has another address
  on record for the peer.
\<close>

theorem replica_survives:
  assumes "storage_ok S" "choices_ok C" "peer_up S C b i e" "replicates_to h b" "conns_ok (h_conns h)"
    and "AddFile S os (cluster_rt S C) ctx path (h, d, e) = (Inr root, (h', d', e'))"
    and "choices_ok C2" "\<forall>n. ch_fate C2 b n = Answered" "peer_grows S b e' e2" "all_known_at i b e2"
    and "can_read i b reader" "conns_ok (h_conns reader)" "view_sound S (view S (h_store reader) d2)"
  shows "\<exists>bs. d path = Some (concat bs) \<and> root = NewCID S (file_node_block S bs) \<and>
    ((\<forall>x\<in>set (file_node_block S bs # bs). unforgeable S x \<and> x \<noteq> []) \<longrightarrow>
     (\<exists>s'. GetFile S (cluster_rt S C2) ctx2 root (\<lambda>_ _. None) (reader, d2, e2) = ((None, concat bs), s')))"
proof (rule upload_arrives [OF assms(1-6)])
  fix bs
  let ?X = "file_node_block S bs # bs"
  assume bs: "d path = Some (concat bs)" "root = NewCID S (file_node_block S bs)"
    and arrived: "\<forall>x\<in>set ?X. unforgeable S x \<Longrightarrow>
      (\<forall>x\<in>set ?X. holds_block S b x e') \<and> peer_up S C b i e' \<and> peer_grows S b e e'"
  have "\<exists>s'. GetFile S (cluster_rt S C2) ctx2 root (\<lambda>_ _. None) (reader, d2, e2) = ((None, concat bs), s')"
    if un: "\<forall>x\<in>set ?X. unforgeable S x \<and> x \<noteq> []"
  proof -
    have "\<forall>x\<in>set ?X. unforgeable S x" using un by blast
    then have "\<forall>x\<in>set ?X. holds_block S b x e2" "peer_up S C b i e2"
      using arrived holds_block_grows [OF _ _ _ assms(9)] peer_up_grows [OF _ assms(9)] by blast+
    then have "replica_of S C2 b i (set ?X) e2" using assms(8,10) by (simp add: replica_of_def peer_up_def)
    from GetFile_finds [OF assms(1,7) un this assms(11-13)] bs(2) show ?thesis by simp
  qed
  with bs show ?thesis by (intro exI [of _ bs] conjI impI)
qed

section \<open>Example\<close>

text \<open>
  A network of three: the node of the other examples uploads, a second one is its replica, and
  afterwards a third one, which has nothing, reads while the first is gone.
\<close>

definition ex_choices :: choices where
  "ex_choices = \<lparr>ch_now = int, ch_range = (\<lambda>K _. sorted_list_of_set K), ch_sched = (\<lambda>n _. [0..<n]),
                 ch_fate = (\<lambda>_ _. Answered)\<rparr>"

definition ex_replica :: "(string, string) PeerHost" where
  "ex_replica = ex_host\<lparr>h_SelfID := ex_idB, h_GrpcAddr := ''i:1''\<rparr>"

definition ex_cluster :: "string cluster" where
  "ex_cluster = \<lparr>cl_draws = 0, cl_nodes = [''i:1'' \<mapsto> (ex_replica, Map.empty)], cl_service = NewBootstrap False\<rparr>"

lemma ex_choices_ok: "choices_ok ex_choices" "ch_fate ex_choices b n = Answered"
  by (auto simp: choices_ok_def ex_choices_def)

lemma ex_peer_up: "peer_up ex_storage ex_choices ''i:1'' ex_idB ex_cluster"
proof -
  have "length ex_idB \<noteq> 0" by simp
  then have "ex_idB \<noteq> ''''" by blast
  then show ?thesis
    by (simp add: peer_up_def ex_cluster_def ex_replica_def ex_choices_ok never_full_def)
       (simp add: view_sound_def ex_view_eq split: sum.split)
qed

lemma ex_candidates: "eligible ex_idA (Some [StateActive \<mapsto> True]) ex_near = {ex_idB}"
  by (auto simp: eligible_def ex_near_def Get_def candidate_def split: if_splits)

lemma ex_records:
  "Get ex_idB ex_near = Some (ex_peer\<lparr>rec_ID := ex_idB\<rparr>)" "rec_GrpcAddr (ex_peer\<lparr>rec_ID := ex_idB\<rparr>) = ''i:1''"
  "ex_peer\<lparr>rec_ID := ex_idB\<rparr> \<in> ran (reg_peers ex_near)" "rec_State ex_peer = StateActive"
  by (auto simp: Get_def ex_near_def ex_peer_def ran_def) (rule exI [of _ ex_idB], simp)

lemma ex_replicates: "replicates_to ex_host ''i:1''"
  using ex_records by (simp add: replicates_to_def ex_candidates)

lemma ex_known: "known_at i b NewProviderRecords"
  using ex_node_ok(2) by (auto simp: known_at_def prov_abs_def) (simp add: NewProviderRecords_def)

lemma ex_can_read: "can_read ex_idB ''i:1'' ex_host"
  unfolding can_read_def using ex_records(2-4) ex_known by (auto intro!: bexI [OF _ ex_records(3)])

theorem replica_survives_witness:
  "\<exists>root e2 s'. cl_nodes e2 ''u:1'' = None \<and>
     GetFile ex_storage (cluster_rt ex_storage ex_choices) None root (\<lambda>_ _. None) (ex_host, Map.empty, e2) =
       ((None, ex_chunk), s')"
proof -
  let ?rt = "cluster_rt ex_storage ex_choices"
  have conns: "conns_ok (h_conns ex_host)" by (simp add: conns_ok_def NewPool_def)
  obtain h' d' e' where a: "AddFile ex_storage ex_os ?rt None ''f'' (ex_host, ex_disk, ex_cluster) =
      (Inr (ex_cid ex_root), (h', d', e'))"
    by (rule ex_AddFile_at [where d = ex_disk and path = "''f''" and rt = ?rt and ctx = None and e = ex_cluster, OF ex_disk_file])
  have un: "\<forall>x\<in>set (file_node_block ex_storage [ex_chunk] # [ex_chunk]). unforgeable ex_storage x \<and> x \<noteq> []"
  proof -
    have "length ex_chunk = 3" "31 \<le> length ex_root" using length_ex_root by (simp_all add: ex_chunk_def)
    then show ?thesis using ex_unforgeable [of ex_chunk] ex_unforgeable [of ex_root] by (auto simp: ex_root_block)
  qed
  obtain bs where bs: "ex_cid ex_root = ex_cid (file_node_block ex_storage bs)"
    "\<forall>x\<in>set (file_node_block ex_storage bs # bs). unforgeable ex_storage x \<Longrightarrow>
      (\<forall>x\<in>set (file_node_block ex_storage bs # bs). holds_block ex_storage ''i:1'' x e') \<and>
      peer_up ex_storage ex_choices ''i:1'' ex_idB e' \<and> peer_grows ex_storage ''i:1'' ex_cluster e'"
    by (rule upload_arrives [OF ex_storage_ok ex_choices_ok(1) ex_peer_up ex_replicates conns a]) simp
  with ex_blocks un have g: "peer_grows ex_storage ''i:1'' ex_cluster e'" by blast
  then obtain y where y: "cl_nodes e' ''i:1'' = Some y" "grows ex_storage (ex_replica, Map.empty) y"
    by (auto simp: peer_grows_def ex_cluster_def)
  let ?e2 = "e'\<lparr>cl_nodes := [''i:1'' \<mapsto> y]\<rparr>"
  have grow: "peer_grows ex_storage ''i:1'' e' ?e2" using y(1) by (simp add: peer_grows_def)
  have known: "all_known_at ex_idB ''i:1'' ?e2"
    using y(2) ex_known by (auto simp: all_known_at_def grows_def ex_replica_def split: if_splits)
  have "view_sound ex_storage (view ex_storage (h_store ex_host) Map.empty)"
    by (simp add: view_sound_def ex_view_eq split: sum.split)
  from replica_survives [where ?ctx2.0 = None, OF ex_storage_ok ex_choices_ok(1) ex_peer_up ex_replicates conns a ex_choices_ok(1) _ grow known
      ex_can_read conns this] ex_choices_ok(2)
  obtain cs where cs: "ex_disk ''f'' = Some (concat cs)" "ex_cid ex_root = NewCID ex_storage (file_node_block ex_storage cs)"
    "(\<forall>x\<in>set (file_node_block ex_storage cs # cs). unforgeable ex_storage x \<and> x \<noteq> []) \<longrightarrow>
     (\<exists>s'. GetFile ex_storage ?rt None (ex_cid ex_root) (\<lambda>_ _. None) (ex_host, Map.empty, ?e2) = ((None, concat cs), s'))"
    by blast
  have "cs = [ex_chunk]" by (rule ex_blocks) (use cs(2) in simp)
  with cs(3) un obtain s' where
    "GetFile ex_storage ?rt None (ex_cid ex_root) (\<lambda>_ _. None) (ex_host, Map.empty, ?e2) = ((None, ex_chunk), s')" by auto
  moreover have "cl_nodes ?e2 ''u:1'' = None" by simp
  ultimately show ?thesis by blast
qed

end
