(* ===== verification/Flags.thy ===== *)
theory Flags
  imports PeerHost
begin

text \<open>
  The part of Go's package \<open>flag\<close> the two commands use: string and integer flags of a flag set
  that goes on after errors, parsed into a record of the values. The usage text a failed parse
  prints is not modelled, and an error is its first line.
\<close>

section \<open>One argument\<close>

definition HasPrefix :: "string \<Rightarrow> string \<Rightarrow> bool" where
  "HasPrefix s p \<longleftrightarrow> take (length p) s = p"

text \<open>
  What an argument is to \<open>parseOne\<close>: not a flag, the end of the flags, badly formed, or a flag
  with its value, if it has one after an equals sign.
\<close>

datatype token = NoFlag | EndFlags | BadFlag | Flag string "string option"

definition split_eq :: "string \<Rightarrow> string \<times> string option" where
  "split_eq name =
     (if CHR ''='' \<in> set (tl name)
      then (hd name # takeWhile (\<lambda>c. c \<noteq> CHR ''='') (tl name),
            Some (tl (dropWhile (\<lambda>c. c \<noteq> CHR ''='') (tl name))))
      else (name, None))"

definition token_of :: "string \<Rightarrow> token" where
  "token_of s =
     (if length s < 2 \<or> hd s \<noteq> CHR ''-'' then NoFlag
      else if s = ''--'' then EndFlags
      else
        let name = (if s ! 1 = CHR ''-'' then drop 2 s else drop 1 s)
        in if name = [] \<or> hd name = CHR ''-'' \<or> hd name = CHR ''='' then BadFlag
           else case split_eq name of (n, v) \<Rightarrow> Flag n v)"

section \<open>Parsing\<close>

text \<open>A flag set: the setter of each flag there is. Setting a value may fail.\<close>

type_synonym 'r flag_set = "string \<rightharpoonup> (string \<Rightarrow> 'r \<Rightarrow> error + 'r)"

definition ErrHelp :: error where
  "ErrHelp = ''flag: help requested''"

definition undefined_flag :: "string \<Rightarrow> error" where
  "undefined_flag name =
     (if name = ''help'' \<or> name = ''h'' then ErrHelp
      else ''flag provided but not defined: -'' @ name)"

function (sequential) Parse :: "'r flag_set \<Rightarrow> string list \<Rightarrow> 'r \<Rightarrow> error + ('r \<times> string list)" where
  "Parse fs [] r = Inr (r, [])"
| "Parse fs (s # args) r =
     (case token_of s of
        NoFlag \<Rightarrow> Inr (r, s # args)
      | EndFlags \<Rightarrow> Inr (r, args)
      | BadFlag \<Rightarrow> Inl (''bad flag syntax: '' @ s)
      | Flag name v \<Rightarrow>
          (case fs name of
             None \<Rightarrow> Inl (undefined_flag name)
           | Some set_flag \<Rightarrow>
               (case v of
                  Some x \<Rightarrow> (case set_flag x r of Inl err \<Rightarrow> Inl err | Inr r' \<Rightarrow> Parse fs args r')
                | None \<Rightarrow>
                    (case args of
                       [] \<Rightarrow> Inl (''flag needs an argument: -'' @ name)
                     | x # args' \<Rightarrow>
                         (case set_flag x r of Inl err \<Rightarrow> Inl err | Inr r' \<Rightarrow> Parse fs args' r')))))"
  by pat_completeness auto
termination by (relation "measure (\<lambda>(_, args, _). length args)") auto

text \<open>A flag followed by its value.\<close>

lemma Parse_option:
  assumes "token_of s = Flag name None" "fs name = Some set_flag" "set_flag x r = Inr r'"
  shows "Parse fs (s # x # args) r = Parse fs args r'"
  using assms by simp

text \<open>A name that can be written after one or two dashes and is read back as it is.\<close>

definition flag_name :: "string \<Rightarrow> bool" where
  "flag_name n \<longleftrightarrow> n \<noteq> [] \<and> hd n \<noteq> CHR ''-'' \<and> hd n \<noteq> CHR ''='' \<and> CHR ''='' \<notin> set n"

lemma flag_name_tl: "flag_name n \<Longrightarrow> CHR ''='' \<notin> set (tl n)"
  by (cases n) (auto simp: flag_name_def)

lemma token_of_flag:
  assumes "flag_name n"
  shows "token_of (CHR ''-'' # CHR ''-'' # n) = Flag n None" "token_of (CHR ''-'' # n) = Flag n None"
  using assms flag_name_tl [OF assms]
  by (auto simp: token_of_def flag_name_def split_eq_def Let_def neq_Nil_conv)

section \<open>Integers\<close>

text \<open>
  \<open>strconv.ParseInt(s, 0, 64)\<close>: a sign, a prefix for the base, digits, and underscores between
  digits; \<open>None\<close> is a syntax or a range error.
\<close>

definition lower :: "char \<Rightarrow> char" where
  "lower c = (if 65 \<le> (of_char c :: nat) \<and> (of_char c :: nat) \<le> 90 then char_of ((of_char c :: nat) + 32) else c)"

definition digit_value :: "char \<Rightarrow> nat option" where
  "digit_value c =
     (let n = (of_char c :: nat); l = (of_char (lower c) :: nat)
      in if 48 \<le> n \<and> n \<le> 57 then Some (n - 48)
         else if 97 \<le> l \<and> l \<le> 122 then Some (l - 87) else None)"

fun parse_digits :: "nat \<Rightarrow> nat \<Rightarrow> string \<Rightarrow> nat option" where
  "parse_digits base n [] = Some n"
| "parse_digits base n (c # s) =
     (if c = CHR ''_'' then parse_digits base n s
      else case digit_value c of
             None \<Rightarrow> None
           | Some d \<Rightarrow> if base \<le> d then None else parse_digits base (n * base + d) s)"

definition split_base :: "string \<Rightarrow> nat \<times> string" where
  "split_base s =
     (if s = [] \<or> hd s \<noteq> CHR ''0'' then (10, s)
      else if 3 \<le> length s \<and> lower (s ! 1) = CHR ''b'' then (2, drop 2 s)
      else if 3 \<le> length s \<and> lower (s ! 1) = CHR ''o'' then (8, drop 2 s)
      else if 3 \<le> length s \<and> lower (s ! 1) = CHR ''x'' then (16, drop 2 s)
      else (8, drop 1 s))"

text \<open>\<open>underscoreOK\<close>: the last character seen is a digit, an underscore, or something else.\<close>

fun underscores_ok :: "bool \<Rightarrow> char \<Rightarrow> string \<Rightarrow> bool" where
  "underscores_ok hex i [] \<longleftrightarrow> i \<noteq> CHR ''_''"
| "underscores_ok hex i (c # s) \<longleftrightarrow>
     (if is_digit_char c \<or> hex \<and> CHR ''a'' \<le> lower c \<and> lower c \<le> CHR ''f'' then underscores_ok hex CHR ''0'' s
      else if c = CHR ''_'' then i = CHR ''0'' \<and> underscores_ok hex CHR ''_'' s
      else i \<noteq> CHR ''_'' \<and> underscores_ok hex CHR ''!'' s)"

definition underscoreOK :: "string \<Rightarrow> bool" where
  "underscoreOK s =
     (if 2 \<le> length s \<and> hd s = CHR ''0'' \<and> lower (s ! 1) \<in> {CHR ''b'', CHR ''o'', CHR ''x''}
      then underscores_ok (lower (s ! 1) = CHR ''x'') CHR ''0'' (drop 2 s)
      else underscores_ok False CHR ''^'' s)"

definition ParseUint :: "string \<Rightarrow> nat option" where
  "ParseUint s =
     (if s = [] then None
      else case split_base s of
             (base, ds) \<Rightarrow>
               (if CHR ''_'' \<in> set ds \<and> \<not> underscoreOK s then None else parse_digits base 0 ds))"

definition ParseInt :: "string \<Rightarrow> int option" where
  "ParseInt s =
     (if s = [] then None
      else
        let neg = (hd s = CHR ''-'');
            t = (if hd s = CHR ''+'' \<or> hd s = CHR ''-'' then tl s else s)
        in case ParseUint t of
             None \<Rightarrow> None
           | Some n \<Rightarrow>
               (if \<not> neg \<and> int n < 2 ^ 63 then Some (int n)
                else if neg \<and> int n \<le> 2 ^ 63 then Some (- int n) else None))"

definition set_int_flag :: "string \<Rightarrow> (int \<Rightarrow> 'r \<Rightarrow> 'r) \<Rightarrow> string \<Rightarrow> 'r \<Rightarrow> error + 'r" where
  "set_int_flag name upd s r =
     (case ParseInt s of
        None \<Rightarrow> Inl (''invalid value for flag -'' @ name)
      | Some n \<Rightarrow> Inr (upd n r))"

section \<open>A decimal number is read back\<close>

lemma parse_digits_append:
  "parse_digits base n (s @ t) = (case parse_digits base n s of None \<Rightarrow> None | Some m \<Rightarrow> parse_digits base m t)"
  by (induction s arbitrary: n) (auto split: option.split)

lemma char_of_zero: "(char_of (48 :: nat) :: char) = CHR ''0''"
  by code_simp

lemma digit_char: 
  assumes "d < 10"
  shows "digit_value (char_of (48 + d)) = Some d" "(char_of (48 + d) :: char) \<noteq> CHR ''_''"
    "(char_of (48 + d) :: char) = CHR ''0'' \<longleftrightarrow> d = 0" "(char_of (48 + d) :: char) \<notin> {CHR ''+'', CHR ''-''}"
proof -
  have m: "(48 + d) mod 256 = 48 + d" using assms by simp
  then have o: "(of_char (char_of (48 + d) :: char) :: nat) = 48 + d" by simp
  show "digit_value (char_of (48 + d)) = Some d" using assms o by (simp add: digit_value_def Let_def)
  have ne: "(char_of (48 + d) :: char) \<noteq> c" if "(of_char c :: nat) \<noteq> 48 + d" for c using o that by auto
  show "(char_of (48 + d) :: char) \<noteq> CHR ''_''" using assms by (intro ne) simp
  show "(char_of (48 + d) :: char) \<notin> {CHR ''+'', CHR ''-''}" using assms ne [of "CHR ''+''"] ne [of "CHR ''-''"] by simp
  show "(char_of (48 + d) :: char) = CHR ''0'' \<longleftrightarrow> d = 0"
  proof
    assume "(char_of (48 + d) :: char) = CHR ''0''"
    with o have "48 + d = of_char CHR ''0''" by simp
    then show "d = 0" by simp
  qed (simp add: char_of_zero)
qed

lemma decimal_parse: "parse_digits 10 0 (decimal n) = Some n"
proof (induction n rule: less_induct)
  case (less n)
  show ?case
  proof (cases "n < 10")
    case True
    then show ?thesis by (subst decimal.simps) (simp add: digit_char)
  next
    case False
    then have "n div 10 < n" by simp
    from less [OF this] False show ?thesis
      by (subst decimal.simps) (simp add: parse_digits_append digit_char)
  qed
qed

lemma decimal_head:
  "\<exists>c s. decimal n = c # s \<and> (c = CHR ''0'' \<longrightarrow> n = 0) \<and> c \<notin> {CHR ''+'', CHR ''-''} \<and> CHR ''_'' \<notin> set (c # s)"
proof (induction n rule: less_induct)
  case (less n)
  show ?case
  proof (cases "n < 10")
    case True
    then show ?thesis using digit_char [OF True] by (subst decimal.simps) auto
  next
    case False
    then have "n div 10 < n" "n div 10 \<noteq> 0" by simp_all
    with less [of "n div 10"] obtain c s where "decimal (n div 10) = c # s" "c \<noteq> CHR ''0''"
      "c \<notin> {CHR ''+'', CHR ''-''}" "CHR ''_'' \<notin> set (c # s)" by auto
    with False digit_char [of "n mod 10"] show ?thesis by (subst decimal.simps) auto
  qed
qed

lemma ParseUint_decimal: "ParseUint (decimal n) = Some n"
proof (cases "n = 0")
  case True
  have "decimal 0 = ''0''" by (simp add: decimal.simps char_of_zero)
  with True show ?thesis by (simp add: ParseUint_def split_base_def)
next
  case False
  with decimal_head [of n] obtain c s where "decimal n = c # s" "c \<noteq> CHR ''0''" "CHR ''_'' \<notin> set (c # s)" by auto
  with decimal_parse [of n] show ?thesis by (simp add: ParseUint_def split_base_def)
qed

lemma ParseInt_decimal: "int n < 2 ^ 63 \<Longrightarrow> ParseInt (decimal n) = Some (int n)"
  using decimal_head [of n] ParseUint_decimal [of n] by (auto simp: ParseInt_def Let_def)

lemma ParseInt_minus: "int n \<le> 2 ^ 63 \<Longrightarrow> ParseInt (CHR ''-'' # decimal n) = Some (- int n)"
  using ParseUint_decimal [of n] by (simp add: ParseInt_def)

end
