(* ===== verification/Cli.thy ===== *)
theory Cli
  imports Flags FileTransfer
begin

text \<open>
  The local commands: \<open>internal/cli/cli.go\<close>. A command gives its error, if any, and what it
  wrote to standard output, and changes the disk; what goes to standard error is left out. The
  commands work on the same stores as a node.
\<close>

section \<open>Arguments\<close>

fun split_args :: "string list \<Rightarrow> string list \<times> string list" where
  "split_args [] = ([], [])"
| "split_args [a] = (if HasPrefix a ''-'' then ([a], []) else ([], [a]))"
| "split_args (a # b # rest) =
     (if HasPrefix a ''-''
      then (if CHR ''='' \<in> set a \<or> HasPrefix b ''-''
            then (case split_args (b # rest) of (flags, positionals) \<Rightarrow> (a # flags, positionals))
            else (case split_args rest of (flags, positionals) \<Rightarrow> (a # b # flags, positionals)))
      else (case split_args (b # rest) of (flags, positionals) \<Rightarrow> (flags, a # positionals)))"

definition normalizeInterspersedFlags :: "string list \<Rightarrow> string list" where
  "normalizeInterspersedFlags args = (case split_args args of (flags, positionals) \<Rightarrow> flags @ positionals)"

definition defaultStorageDir :: string where
  "defaultStorageDir = Join [''storage'']"

text \<open>The flags of the three commands: one record with the values of all of them.\<close>

record cli_flags =
  cf_in :: string
  cf_out :: string
  cf_storage :: string

definition default_flags :: cli_flags where
  "default_flags = \<lparr>cf_in = [], cf_out = [], cf_storage = defaultStorageDir\<rparr>"

definition storage_flag :: "cli_flags flag_set" where
  "storage_flag = [''storage'' \<mapsto> (\<lambda>v r. Inr (r\<lparr>cf_storage := v\<rparr>))]"

definition add_flags :: "cli_flags flag_set" where
  "add_flags = storage_flag(''in'' \<mapsto> (\<lambda>v r. Inr (r\<lparr>cf_in := v\<rparr>)))"

definition get_flags :: "cli_flags flag_set" where
  "get_flags = storage_flag(''out'' \<mapsto> (\<lambda>v r. Inr (r\<lparr>cf_out := v\<rparr>)))"

section \<open>Commands\<close>

type_synonym result = "(error option \<times> string) \<times> disk"

text \<open>The copy of \<open>writeFileBundle\<close> of this package.\<close>

fun cli_write_chunks :: "'s storage \<Rightarrow> os \<Rightarrow> 's \<Rightarrow> string \<Rightarrow> string list \<Rightarrow> disk \<Rightarrow> error option \<times> disk" where
  "cli_write_chunks S os bs dir [] d = (None, d)"
| "cli_write_chunks S os bs dir (ch # chs) d =
     (case store_Get S bs ch d of
        Inl err \<Rightarrow> (Some err, d)
      | Inr b \<Rightarrow>
          (case os_WriteFile os (Join [dir, ch @ ''.block'']) b d of
             (Some err, d') \<Rightarrow> (Some err, d')
           | (None, d') \<Rightarrow> cli_write_chunks S os bs dir chs d'))"

definition cli_writeFileBundle ::
  "'s storage \<Rightarrow> os \<Rightarrow> 's \<Rightarrow> string \<Rightarrow> string list \<Rightarrow> bytes \<Rightarrow> disk \<Rightarrow> error option \<times> disk" where
  "cli_writeFileBundle S os bs root chunks nodeBytes d =
     (let dir = Join [RootDir S bs, ''files'', root]
      in case os_MkdirAll os dir of
           Some err \<Rightarrow> (Some err, d)
         | None \<Rightarrow>
             (case os_WriteFile os (Join [dir, root @ ''.block'']) nodeBytes d of
                (Some err, d') \<Rightarrow> (Some err, d')
              | (None, d') \<Rightarrow> cli_write_chunks S os bs dir chunks d'))"

definition add_file :: "'s storage \<Rightarrow> os \<Rightarrow> string \<Rightarrow> string \<Rightarrow> disk \<Rightarrow> result" where
  "add_file S os dir path d =
     (case NewStore S dir d of
        (Inl err, d1) \<Rightarrow> ((Some err, []), d1)
      | (Inr bs, d1) \<Rightarrow>
          (case PutFile S (DefaultChunkSize S) bs path d1 of
             (Inl err, d2) \<Rightarrow> ((Some err, []), d2)
           | (Inr chunks, d2) \<Rightarrow>
               (case EncodeCanonicalJSON (FileNode_json (NewFileNode chunks)) of
                  Inl err \<Rightarrow> ((Some err, []), d2)
                | Inr nodeBytes \<Rightarrow>
                    let root = NewCID S nodeBytes
                    in case store_Put S bs nodeBytes d2 of
                         (Inl err, d3) \<Rightarrow> ((Some err, []), d3)
                       | (Inr _, d3) \<Rightarrow>
                           ((None, ''Root CID: '' @ root @ newline),
                            snd (cli_writeFileBundle S os bs root chunks nodeBytes d3)))))"

definition runAdd :: "'s storage \<Rightarrow> os \<Rightarrow> string list \<Rightarrow> disk \<Rightarrow> result" where
  "runAdd S os args d =
     (case Parse add_flags (normalizeInterspersedFlags args) default_flags of
        Inl err \<Rightarrow> ((Some err, []), d)
      | Inr (r, rest) \<Rightarrow>
          if cf_in r = []
          then (case rest of
                  [path] \<Rightarrow> add_file S os (cf_storage r) path d
                | _ \<Rightarrow> ((Some ''usage: node add <file> [--storage storage]'', []), d))
          else add_file S os (cf_storage r) (cf_in r) d)"

text \<open>
  \<open>ReconstructFile\<close> gives what it wrote and its error. To a file, what was written before an
  error stays there; writing to the created file does not fail.
\<close>

definition runGet :: "'s storage \<Rightarrow> os \<Rightarrow> string list \<Rightarrow> disk \<Rightarrow> result" where
  "runGet S os args d =
     (case Parse get_flags (normalizeInterspersedFlags args) default_flags of
        Inl err \<Rightarrow> ((Some err, []), d)
      | Inr (r, rest) \<Rightarrow>
          (case rest of
             [root] \<Rightarrow>
               (case NewStore S (cf_storage r) d of
                  (Inl err, d1) \<Rightarrow> ((Some err, []), d1)
                | (Inr bs, d1) \<Rightarrow>
                    if cf_out r \<noteq> []
                    then (case os_Create os (cf_out r) d1 of
                            (Some err, d2) \<Rightarrow> ((Some err, []), d2)
                          | (None, d2) \<Rightarrow>
                              (case ReconstructFile S bs root d2 of
                                 (b, Some err) \<Rightarrow> ((Some err, []), d2(cf_out r \<mapsto> b))
                               | (b, None) \<Rightarrow>
                                   ((None, ''Wrote file to '' @ cf_out r @ newline), d2(cf_out r \<mapsto> b))))
                    else (case ReconstructFile S bs root d1 of (b, err) \<Rightarrow> ((err, string_of_bytes b), d1)))
           | _ \<Rightarrow> ((Some ''usage: node get <rootCID> [--out file] [--storage storage]'', []), d)))"

definition runInspect :: "'s storage \<Rightarrow> string list \<Rightarrow> disk \<Rightarrow> result" where
  "runInspect S args d =
     (case Parse storage_flag (normalizeInterspersedFlags args) default_flags of
        Inl err \<Rightarrow> ((Some err, []), d)
      | Inr (r, rest) \<Rightarrow>
          (case rest of
             [c] \<Rightarrow>
               (case NewStore S (cf_storage r) d of
                  (Inl err, d1) \<Rightarrow> ((Some err, []), d1)
                | (Inr bs, d1) \<Rightarrow>
                    (case store_Get S bs c d1 of
                       Inl err \<Rightarrow> ((Some err, []), d1)
                     | Inr b \<Rightarrow> ((None, inspect_message c b), d1)))
           | _ \<Rightarrow> ((Some ''usage: node inspect <cid> [--storage storage]'', []), d)))"

text \<open>The dash of the first line is U+2014 in UTF-8.\<close>

definition help_text :: string where
  "help_text =
     ''node '' @ [CHR 0xE2, CHR 0x80, CHR 0x94] @ '' content-addressed storage (local CLI + networked serve)'' @ newline @
     newline @
     ''Local (no network):'' @ newline @
     ''  node add <file> [--storage storage]'' @ newline @
     ''  node get <rootCID> [--out file] [--storage storage]'' @ newline @
     ''  node inspect <cid> [--storage storage]'' @ newline @
     newline @
     ''Networked node + HTTP API + gRPC:'' @ newline @
     ''  node serve --data storage/node1 --grpc 127.0.0.1:50051 --http 127.0.0.1:8080 [--bootstrap http://127.0.0.1:9099] [--replication 3]'' @ newline @
     newline"

text \<open>The quoting of an unknown command in the error text, by \<open>%q\<close>, is left out.\<close>

definition Run :: "'s storage \<Rightarrow> os \<Rightarrow> string list \<Rightarrow> disk \<Rightarrow> result" where
  "Run S os args d =
     (case args of
        [] \<Rightarrow> ((Some ''missing command'', []), d)
      | cmd # rest \<Rightarrow>
          if cmd = ''add'' then runAdd S os rest d
          else if cmd = ''get'' then runGet S os rest d
          else if cmd = ''inspect'' then runInspect S rest d
          else if cmd = ''help'' \<or> cmd = ''-h'' \<or> cmd = ''--help'' then ((None, help_text), d)
          else ((Some (''unknown command '' @ cmd), []), d))"

section \<open>Flags anywhere on the line\<close>

text \<open>
  A line as a user means it: positional arguments that do not start with a dash, and options
  with a value that does not start with one.
\<close>

datatype item = Positional string | Option string string

fun render :: "item \<Rightarrow> string list" where
  "render (Positional p) = [p]"
| "render (Option n v) = [''--'' @ n, v]"

fun item_ok :: "item \<Rightarrow> bool" where
  "item_ok (Positional p) \<longleftrightarrow> \<not> HasPrefix p ''-''"
| "item_ok (Option n v) \<longleftrightarrow> flag_name n \<and> \<not> HasPrefix v ''-''"

fun positionals :: "item list \<Rightarrow> string list" where
  "positionals [] = []"
| "positionals (Positional p # is) = p # positionals is"
| "positionals (Option n v # is) = positionals is"

fun option_args :: "item list \<Rightarrow> string list" where
  "option_args [] = []"
| "option_args (Positional p # is) = option_args is"
| "option_args (Option n v # is) = (''--'' @ n) # v # option_args is"

lemma HasPrefix_dashes [simp]: "HasPrefix (CHR ''-'' # s) ''-''"
  by (simp add: HasPrefix_def)

lemma split_args_pos: "\<not> HasPrefix p ''-'' \<Longrightarrow>
    split_args (p # rest) = (case split_args rest of (flags, ps) \<Rightarrow> (flags, p # ps))"
  by (cases rest) auto

lemma split_args_option: 
  assumes "\<not> HasPrefix v ''-''" "CHR ''='' \<notin> set n"
  shows "split_args ((CHR ''-'' # CHR ''-'' # n) # v # rest) =
    (case split_args rest of (flags, ps) \<Rightarrow> ((CHR ''-'' # CHR ''-'' # n) # v # flags, ps))"
  using assms by (auto split: prod.split)

lemma split_args_items:
  "\<forall>i\<in>set is. item_ok i \<Longrightarrow> split_args (concat (map render is)) = (option_args is, positionals is)"
proof (induction "is" rule: positionals.induct)
  case (2 p "is")
  then show ?case by (simp add: split_args_pos)
next
  case (3 n v "is")
  then show ?case by (simp add: split_args_option flag_name_def del: split_args.simps)
qed simp

text \<open>Setting the options of a line in turn, the first error ending it.\<close>

fun set_options :: "'r flag_set \<Rightarrow> item list \<Rightarrow> 'r \<Rightarrow> error + 'r" where
  "set_options fs [] r = Inr r"
| "set_options fs (Positional p # is) r = set_options fs is r"
| "set_options fs (Option n v # is) r =
     (case fs n of
        None \<Rightarrow> Inl (undefined_flag n)
      | Some set_flag \<Rightarrow> (case set_flag v r of Inl err \<Rightarrow> Inl err | Inr r' \<Rightarrow> set_options fs is r'))"

lemma token_of_positional: "\<not> HasPrefix p ''-'' \<Longrightarrow> token_of p = NoFlag"
  by (cases p) (auto simp: HasPrefix_def token_of_def)

lemma Parse_positionals: "\<forall>p\<in>set ps. \<not> HasPrefix p ''-'' \<Longrightarrow> Parse fs ps r = Inr (r, ps)"
  by (cases ps) (simp_all add: token_of_positional)

lemma Parse_items:
  "\<forall>i\<in>set is. item_ok i \<Longrightarrow> \<forall>p\<in>set ps. \<not> HasPrefix p ''-'' \<Longrightarrow>
   Parse fs (option_args is @ ps) r = (case set_options fs is r of Inl err \<Rightarrow> Inl err | Inr r' \<Rightarrow> Inr (r', ps))"
proof (induction "is" arbitrary: r rule: positionals.induct)
  case (3 n v "is")
  then have "token_of (CHR ''-'' # CHR ''-'' # n) = Flag n None" by (simp add: token_of_flag)
  with 3 show ?case by (auto split: option.split sum.split)
qed (simp_all add: Parse_positionals)

lemma Parse_interspersed:
  assumes "\<forall>i\<in>set is. item_ok i"
  shows "Parse fs (normalizeInterspersedFlags (concat (map render is))) r =
    (case set_options fs is r of Inl err \<Rightarrow> Inl err | Inr r' \<Rightarrow> Inr (r', positionals is))"
proof -
  have "\<forall>p\<in>set (positionals is). \<not> HasPrefix p ''-''"
    using assms by (induction "is" rule: positionals.induct) auto
  from Parse_items [OF assms this] show ?thesis
    by (simp add: normalizeInterspersedFlags_def split_args_items [OF assms])
qed

text \<open>
  Options may stand anywhere on the line: for positional arguments and option values that do
  not start with a dash, parsing the normalised line sets the options in the order given and
  returns the positional arguments in theirs, as if all options had come first.
\<close>

theorem interspersed_flags:
  assumes "\<forall>i\<in>set is. item_ok i"
  shows "Parse fs (normalizeInterspersedFlags (concat (map render is))) r =
    (case set_options fs is r of Inl err \<Rightarrow> Inl err | Inr r' \<Rightarrow> Inr (r', positionals is))"
  using assms by (rule Parse_interspersed)

section \<open>The command line and the node agree\<close>

lemma cli_write_chunks_eq: "cli_write_chunks S os bs dir chs d = write_chunk_files S os bs dir chs d"
  by (induction chs arbitrary: d) (auto simp: block_file_def split: sum.split prod.split option.split)

lemma cli_writeFileBundle_eq: "cli_writeFileBundle S os bs root chunks b d = writeFileBundle S os bs root chunks b d"
  by (auto simp: cli_writeFileBundle_def writeFileBundle_def cli_write_chunks_eq block_file_def Let_def
      split: option.split prod.split)

text \<open>
  C27. \<open>node add\<close> and an upload through the node give the same result. On the same disk and store,
  when the node's upload of a file succeeds, the command with that file prints the very root id
  the upload returned and leaves the disk exactly as the upload does.
\<close>

theorem cli_add_equals_node:
  assumes "storage_ok S" "NewStore S dir d = (Inr (h_store h), d)" "h_chunker h = DefaultChunkSize S"
    and "AddFile S os rt ctx path (h, d, e) = (Inr root, (h', d', e'))"
    and "\<forall>i\<in>set is. item_ok i" "positionals is = [path]"
    and "set_options add_flags is default_flags = Inr \<lparr>cf_in = [], cf_out = out, cf_storage = dir\<rparr>"
  shows "Run S os (''add'' # concat (map render is)) d = ((None, ''Root CID: '' @ root @ newline), d')"
proof -
  have "Parse add_flags (normalizeInterspersedFlags (concat (map render is))) default_flags =
      Inr (\<lparr>cf_in = [], cf_out = out, cf_storage = dir\<rparr>, [path])"
    using Parse_interspersed [OF assms(5), of add_flags default_flags] assms(6,7) by simp
  then have "Run S os (''add'' # concat (map render is)) d = add_file S os dir path d"
    by (simp add: Run_def runAdd_def)
  moreover have "add_file S os dir path d = ((None, ''Root CID: '' @ root @ newline), d')"
  proof (rule AddFile_steps [OF assms(1,4)])
    fix bs d1 c d2
    assume "PutFile S (h_chunker h) (h_store h) path d = (Inr (map (NewCID S) bs), d1)"
      "store_Put S (h_store h) (file_node_block S bs) d1 = (Inr c, d2)" "root = NewCID S (file_node_block S bs)"
      "d' = snd (writeFileBundle S os (h_store h) root (map (NewCID S) bs) (file_node_block S bs) d2)"
    with assms(2,3) show ?thesis
      by (simp add: add_file_def file_node_encoded(1) [OF assms(1)] Let_def cli_writeFileBundle_eq)
  qed
  ultimately show ?thesis by simp
qed

theorem interspersed_flags_witness:
  "Parse get_flags (normalizeInterspersedFlags [''c'', ''--out'', ''f'', ''--storage'', ''s'']) default_flags =
     Inr (\<lparr>cf_in = [], cf_out = ''f'', cf_storage = ''s''\<rparr>, [''c''])"
proof -
  have "\<forall>i\<in>set [Positional ''c'', Option ''out'' ''f'', Option ''storage'' ''s'']. item_ok i"
    by (simp add: HasPrefix_def flag_name_def)
  from interspersed_flags [OF this, of get_flags default_flags] show ?thesis
    by (simp add: get_flags_def storage_flag_def default_flags_def)
qed

theorem cli_add_equals_node_witness:
  "\<exists>h' d' e'. AddFile ex_storage ex_os (ex_rt [] []) None ''f'' (ex_host, ex_disk, 0) = (Inr (ex_cid ex_root), (h', d', e')) \<and>
     Run ex_storage ex_os [''add'', ''f'', ''--storage'', ''s''] ex_disk =
       ((None, ''Root CID: '' @ ex_cid ex_root @ newline), d')"
proof -
  let ?is = "[Positional ''f'', Option ''storage'' ''s'']"
  obtain h' d' e' where a: "AddFile ex_storage ex_os (ex_rt [] []) None ''f'' (ex_host, ex_disk, 0) =
      (Inr (ex_cid ex_root), (h', d', e'))" by (rule ex_AddFile)
  have n: "NewStore ex_storage ''s'' ex_disk = (Inr (h_store ex_host), ex_disk)"
    "h_chunker ex_host = DefaultChunkSize ex_storage" by (simp_all add: ex_storage_def)
  have i: "\<forall>i\<in>set ?is. item_ok i" "positionals ?is = [''f'']" by (simp_all add: HasPrefix_def flag_name_def)
  have o: "set_options add_flags ?is default_flags = Inr \<lparr>cf_in = [], cf_out = [], cf_storage = ''s''\<rparr>"
    by (simp add: add_flags_def storage_flag_def default_flags_def)
  from cli_add_equals_node [OF ex_storage_ok n a i o] a show ?thesis by simp
qed

end
