(* ===== verification/NodeMain.thy ===== *)
theory NodeMain
  imports Cli
begin

text \<open>
  The program \<open>cmd/node\<close>: the flags of \<open>node serve\<close>, how they become the configuration of the
  node, and the choice between serving and the local commands. What the program does while it
  serves, and how it stops, is in \<open>NodeLife\<close>.
\<close>

section \<open>The flags of serve\<close>

record ServeConfig =
  sc_DataDir :: string
  sc_GRPCAddr :: string
  sc_HTTPAddr :: string
  sc_AdvertiseGRPC :: string
  sc_AdvertiseHTTP :: string
  sc_BootstrapURL :: string
  sc_ReplicationFactor :: int

definition serve_defaults :: ServeConfig where
  "serve_defaults =
     \<lparr>sc_DataDir = ''storage/node1'', sc_GRPCAddr = ''127.0.0.1:50051'', sc_HTTPAddr = ''127.0.0.1:8080'',
      sc_AdvertiseGRPC = [], sc_AdvertiseHTTP = [], sc_BootstrapURL = [], sc_ReplicationFactor = 3\<rparr>"

definition serve_flags :: "ServeConfig flag_set" where
  "serve_flags =
     [''data'' \<mapsto> (\<lambda>v r. Inr (r\<lparr>sc_DataDir := v\<rparr>)),
      ''grpc'' \<mapsto> (\<lambda>v r. Inr (r\<lparr>sc_GRPCAddr := v\<rparr>)),
      ''http'' \<mapsto> (\<lambda>v r. Inr (r\<lparr>sc_HTTPAddr := v\<rparr>)),
      ''advertise-grpc'' \<mapsto> (\<lambda>v r. Inr (r\<lparr>sc_AdvertiseGRPC := v\<rparr>)),
      ''advertise-http'' \<mapsto> (\<lambda>v r. Inr (r\<lparr>sc_AdvertiseHTTP := v\<rparr>)),
      ''bootstrap'' \<mapsto> (\<lambda>v r. Inr (r\<lparr>sc_BootstrapURL := v\<rparr>)),
      ''replication'' \<mapsto> set_int_flag ''replication'' (\<lambda>n r. r\<lparr>sc_ReplicationFactor := n\<rparr>)]"

definition ParseServeFlags :: "string list \<Rightarrow> error + ServeConfig" where
  "ParseServeFlags args =
     (case Parse serve_flags args serve_defaults of Inl err \<Rightarrow> Inl err | Inr (cfg, _) \<Rightarrow> Inr cfg)"

section \<open>Serving\<close>

definition host_config :: "ServeConfig \<Rightarrow> Config" where
  "host_config cfg =
     \<lparr>cfg_DataDir = sc_DataDir cfg,
      cfg_GrpcListenAddr = (if sc_AdvertiseGRPC cfg \<noteq> [] then sc_AdvertiseGRPC cfg else sc_GRPCAddr cfg),
      cfg_HTTPListenAddr = (if sc_AdvertiseHTTP cfg \<noteq> [] then sc_AdvertiseHTTP cfg else sc_HTTPAddr cfg),
      cfg_BootstrapURL = sc_BootstrapURL cfg, cfg_ReplicationFactor = sc_ReplicationFactor cfg\<rparr>"

text \<open>
  \<open>runServe\<close> up to the running servers; \<open>listen\<close> is what \<open>net.Listen\<close> answers for an address.
  The loops run from the moment the node is built, also while the listener fails.
\<close>

definition runServe ::
  "'s storage \<Rightarrow> os \<Rightarrow> ('c, 'e) runtime \<Rightarrow> bool \<Rightarrow> error + bytes \<Rightarrow> (string \<Rightarrow> error option) \<Rightarrow>
   string list \<Rightarrow> disk \<Rightarrow> 'e \<Rightarrow> (error + ('s, 'c) PeerHost) \<times> disk \<times> 'e" where
  "runServe S os rt redis rand listen args d e =
     (case ParseServeFlags args of
        Inl err \<Rightarrow> (Inl err, d, e)
      | Inr cfg \<Rightarrow>
          if sc_DataDir cfg = [] then (Inl ''-data required'', d, e)
          else case NewPeerHost S os rt redis rand (host_config cfg) d e of
                 (Inl err, d', e') \<Rightarrow> (Inl err, d', e')
               | (Inr h, d', e') \<Rightarrow>
                   (case listen (sc_GRPCAddr cfg) of
                      Some err \<Rightarrow> (Inl (''grpc listen: '' @ err), d', e')
                    | None \<Rightarrow> (Inr h, d', e')))"

text \<open>\<open>main\<close>: a serving node, or a local command with its output and exit code.\<close>

datatype ('s, 'c) program = Serving "('s, 'c) PeerHost" | Exited nat string

definition node_main ::
  "'s storage \<Rightarrow> os \<Rightarrow> ('c, 'e) runtime \<Rightarrow> bool \<Rightarrow> error + bytes \<Rightarrow> (string \<Rightarrow> error option) \<Rightarrow>
   string list \<Rightarrow> disk \<Rightarrow> 'e \<Rightarrow> ('s, 'c) program \<times> disk \<times> 'e" where
  "node_main S os rt redis rand listen args d e =
     (if args \<noteq> [] \<and> hd args = ''serve''
      then (case runServe S os rt redis rand listen (tl args) d e of
              (Inl err, d', e') \<Rightarrow> (Exited 1 [], d', e')
            | (Inr h, d', e') \<Rightarrow> (Serving h, d', e'))
      else (case Run S os args d of
              ((Some err, out), d') \<Rightarrow> (Exited 1 out, d', e)
            | ((None, out), d') \<Rightarrow> (Exited 0 out, d', e)))"

section \<open>A configuration is read back\<close>

definition int_arg :: "int \<Rightarrow> string" where
  "int_arg n = (if n < 0 then CHR ''-'' # decimal (nat (- n)) else decimal (nat n))"

lemma ParseInt_arg: "- (2 ^ 63) \<le> n \<Longrightarrow> n < 2 ^ 63 \<Longrightarrow> ParseInt (int_arg n) = Some n"
  using ParseInt_decimal [of "nat n"] ParseInt_minus [of "nat (- n)"] by (auto simp: int_arg_def)

definition serve_args :: "ServeConfig \<Rightarrow> string list" where
  "serve_args c =
     [''--data'', sc_DataDir c, ''--grpc'', sc_GRPCAddr c, ''--http'', sc_HTTPAddr c,
      ''--advertise-grpc'', sc_AdvertiseGRPC c, ''--advertise-http'', sc_AdvertiseHTTP c,
      ''--bootstrap'', sc_BootstrapURL c, ''--replication'', int_arg (sc_ReplicationFactor c)]"

text \<open>
  C31. Every configuration can be given on the command line: the flags written out with their
  values, which may be any strings, even empty or starting with a dash, and any 64-bit integer
  for the replication factor, parse to the configuration again.
\<close>

theorem ParseServeFlags_roundtrip:
  assumes "- (2 ^ 63) \<le> sc_ReplicationFactor c" "sc_ReplicationFactor c < 2 ^ 63"
  shows "ParseServeFlags (serve_args c) = Inr c"
proof -
  have t: "token_of (CHR ''-'' # CHR ''-'' # n) = Flag n None"
    if "n \<in> {''data'', ''grpc'', ''http'', ''advertise-grpc'', ''advertise-http'', ''bootstrap'', ''replication''}" for n
    using that by (intro token_of_flag) (auto simp: flag_name_def)
  show ?thesis
    using t ParseInt_arg [OF assms]
    by (simp add: ParseServeFlags_def serve_args_def serve_flags_def set_int_flag_def)
qed

theorem ParseServeFlags_roundtrip_witness:
  "ParseServeFlags (serve_args (serve_defaults\<lparr>sc_DataDir := ''--x'', sc_ReplicationFactor := -1\<rparr>)) =
     Inr (serve_defaults\<lparr>sc_DataDir := ''--x'', sc_ReplicationFactor := -1\<rparr>)"
  by (rule ParseServeFlags_roundtrip) simp_all

end
