(* ===== verification/NodeRun.thy ===== *)
theory NodeRun
  imports NodeLocal BootstrapSync NodeMain
begin

text \<open>
  A node in operation: the machine whose steps are everything a serving node does, one call or
  round at a time: the RPCs of its service, the requests to its HTTP interface, the rounds of
  its three loops (\<open>RunLoops\<close>), and the polls of Redis. The world and the files that are not
  blocks may change between any two steps. It starts in what \<open>NewPeerHost\<close> builds.
\<close>

section \<open>The machine\<close>

text \<open>One round of the cleanup loop on the node, in orders the runtime may draw.\<close>

definition cleanup_round ::
  "string list \<Rightarrow> (string \<Rightarrow> ProviderRecords \<Rightarrow> string list) \<Rightarrow> ('c, 'e) runtime \<Rightarrow>
   ('s, 'c, 'e) node \<Rightarrow> ('s, 'c, 'e) node" where
  "cleanup_round ks ord rt s =
     (case s of (h, d, e) \<Rightarrow>
        case cleanup_tick ks ord (rt_now rt e) (h_reg h, h_providers h) of
          (reg, provs) \<Rightarrow> (h\<lparr>h_reg := reg, h_providers := provs\<rparr>, d, e))"

definition redis_round :: "Record option list \<Rightarrow> ('s, 'c, 'e) node \<Rightarrow> ('s, 'c, 'e) node" where
  "redis_round recs s = (case s of (h, d, e) \<Rightarrow> (h\<lparr>h_reg := sync_tick recs (h_reg h)\<rparr>, d, e))"

text \<open>
  The steps. An upload that waits for the catalog lock has already stored its file, which is a
  step of its own. A node that stops and starts again on its data directory loses all but its
  disk.
\<close>

inductive serving ::
  "'s storage \<Rightarrow> os \<Rightarrow> ('c, 'e) runtime \<Rightarrow> 'e redis \<Rightarrow> 'e http_client \<Rightarrow>
   ('s, 'c, 'e) node \<Rightarrow> ('s, 'c, 'e) node \<Rightarrow> bool"
  for S os rt R http where
  sv_rpc: "serving S os rt R http s (serve S rt c s)"
| sv_http: "api_serve S os rt R ctx conn form r s = Returned (w, s') \<Longrightarrow> serving S os rt R http s s'"
| sv_upload: "store_upload S os rt ctx content s = (tmp, x, s') \<Longrightarrow> serving S os rt R http s s'"
| sv_bootstrap: "serving S os rt R http s (bootstrap_tick http rt ctx s)"
| sv_heartbeat: "serving S os rt R http s (heartbeat_tick rt ctx s)"
| sv_cleanup: "is_order ks (reg_peers (h_reg (fst s))) \<Longrightarrow> (\<And>i p. prov_wf p \<Longrightarrow> is_order (ord i p) p) \<Longrightarrow>
    serving S os rt R http s (cleanup_round ks ord rt s)"
| sv_redis: "serving S os rt R http s (redis_round recs s)"
| sv_world: "\<not> block_path path \<Longrightarrow> serving S os rt R http (h, d, e) (h, d(path := x), e')"
| sv_restart: "NewPeerHost S os rt redis rand cfg d e = (Inr h', d', e') \<Longrightarrow> cfg_DataDir cfg = h_DataDir h \<Longrightarrow>
    serving S os rt R http (h, d, e) (h', d', e')"

text \<open>
  What the store promises of opening: it finds the blocks it finds, and one directory is
  always the same store.
\<close>

definition reopens :: "'s storage \<Rightarrow> bool" where
  "reopens S \<longleftrightarrow>
     (\<forall>dir d st d'. NewStore S dir d = (Inr st, d') \<longrightarrow> view S st d' = view S st d) \<and>
     (\<forall>dir d st d' d1 st1 d1'. NewStore S dir d = (Inr st, d') \<longrightarrow> NewStore S dir d1 = (Inr st1, d1') \<longrightarrow> st1 = st)"

definition env_ok :: "'s storage \<Rightarrow> os \<Rightarrow> ('c, 'e) runtime \<Rightarrow> bool" where
  "env_ok S os rt \<longleftrightarrow> storage_ok S \<and> temp_files_ok os \<and> runtime_ok rt \<and> reopens S"

definition started :: "'s storage \<Rightarrow> os \<Rightarrow> ('c, 'e) runtime \<Rightarrow> ('s, 'c, 'e) node \<Rightarrow> bool" where
  "started S os rt s \<longleftrightarrow>
     (\<exists>redis rand cfg d e. NewPeerHost S os rt redis rand cfg d e = (Inr (fst s), snd s)) \<and>
     view_sound S (node_view S s)"

definition node_ok :: "'s storage \<Rightarrow> ('s, 'c, 'e) node \<Rightarrow> bool" where
  "node_ok S s \<longleftrightarrow>
     reg_wf (h_reg (fst s)) \<and> reg_max (h_reg (fst s)) = MaxNetworkPeers \<and>
     prov_wf (h_providers (fst s)) \<and> view_sound S (node_view S s) \<and>
     (\<exists>d d'. NewStore S (h_DataDir (fst s)) d = (Inr (h_store (fst s)), d'))"

lemma node_okI:
  assumes "node_ok S s" "keeps S s s'" "h_DataDir (fst s') = h_DataDir (fst s)"
    and "reg_wf (h_reg (fst s'))" "reg_max (h_reg (fst s')) = reg_max (h_reg (fst s))" "prov_wf (h_providers (fst s'))"
  shows "node_ok S s' \<and> keeps S s s'"
proof -
  have "h_store (fst s') = h_store (fst s)" using assms(1,2) by (auto simp: node_ok_def keeps_def)
  with assms keeps_sound [OF assms(2)] show ?thesis by (simp add: node_ok_def)
qed

lemma node_ok_local:
  assumes "node_ok S s" "local_step S s s'"
  shows "node_ok S s' \<and> keeps S s s'"
proof -
  have l: "local_change (fst s) (fst s')" "keeps S s s'" using assms(2) by (simp_all add: local_step_def)
  then show ?thesis
    using assms(1) local_change_fields [OF l(1)] local_change_wf [OF l(1)]
    by (intro node_okI [OF assms(1) l(2)]) (simp_all add: node_ok_def)
qed

text \<open>A change of the registry alone.\<close>

lemma node_ok_reg:
  assumes "node_ok S s" "same_but_reg (fst s) (fst s')" "fst (snd s') = fst (snd s)"
    and "reg_wf (h_reg (fst s'))" "reg_max (h_reg (fst s')) = reg_max (h_reg (fst s))"
  shows "node_ok S s' \<and> keeps S s s'"
proof -
  have f: "h_store (fst s') = h_store (fst s)" "h_providers (fst s') = h_providers (fst s)" "h_DataDir (fst s') = h_DataDir (fst s)"
    using assms(2) by (cases "fst s"; cases "fst s'"; auto simp: same_but_reg_def)+
  then have "keeps S s s'" using assms(3) by (intro keeps_same) (simp_all add: node_view_def)
  with f show ?thesis using assms(1,4,5) by (intro node_okI [OF assms(1)]) (simp_all add: node_ok_def)
qed

lemma node_step_max: "node_step ev s t \<Longrightarrow> reg_max (fst t) = reg_max (fst s)"
  by (erule node_stepE) (auto simp: cleanup_tick_split Sweep_mark_where)

lemma trace_max: "trace node_step s evs t \<Longrightarrow> reg_max (fst t) = reg_max (fst s)"
  by (induction rule: trace.induct) (auto dest: node_step_max)

lemma node_ok_rpc:
  assumes "env_ok S os rt" "node_ok S s"
  shows "node_ok S (serve S rt c s) \<and> keeps S s (serve S rt c s)"
proof -
  let ?s = "serve S rt c s"
  have ok: "storage_ok S" "runtime_ok rt" using assms(1) by (simp_all add: env_ok_def)
  have wf: "reg_wf (h_reg (fst s))" "prov_wf (h_providers (fst s))" using assms(2) by (simp_all add: node_ok_def)
  have "node_of ?s = node_of s \<or> (\<exists>ev. node_step ev (node_of s) (node_of ?s))"
    using serve_step [OF ok(2) wf(1), of c S] by (auto simp: at_most_one_def)
  then have "reg_wf (fst (node_of ?s)) \<and> prov_wf (snd (node_of ?s)) \<and> reg_max (fst (node_of ?s)) = reg_max (fst (node_of s))"
  proof (elim disjE exE)
    fix ev assume step: "node_step ev (node_of s) (node_of ?s)"
    from node_step_wf [OF step] node_step_max [OF step] wf show ?thesis by (simp add: node_of_def)
  qed (use wf in \<open>simp add: node_of_def\<close>)
  moreover have "h_DataDir (fst ?s) = h_DataDir (fst s)"
    by (cases s; cases c) (auto simp: svc_Ping_def svc_StoreBlock_def svc_GetBlock_def svc_FindProvider_def
        svc_JoinNetwork_def svc_LeaveNetwork_def svc_Heartbeat_def svc_AddProvider_def Let_def
        split: option.splits sum.splits prod.splits bool.splits)
  ultimately show ?thesis
    by (intro node_okI [OF assms(2) keeps_serve [OF ok(1)]]) (simp_all add: node_of_def)
qed

definition reg_only :: "('s, 'c, 'e) node \<Rightarrow> ('s, 'c, 'e) node \<Rightarrow> bool" where
  "reg_only s s' \<longleftrightarrow> same_but_reg (fst s) (fst s') \<and> fst (snd s') = fst (snd s) \<and>
     (reg_wf (h_reg (fst s)) \<longrightarrow> reg_wf (h_reg (fst s'))) \<and> reg_max (h_reg (fst s')) = reg_max (h_reg (fst s))"

lemma reg_only_refl [simp]: "reg_only s s"
  by (simp add: reg_only_def)

lemma reg_only_trans: "reg_only s t \<Longrightarrow> reg_only t u \<Longrightarrow> reg_only s u"
  using same_but_reg_trans [of "fst s" "fst t" "fst u"] by (simp add: reg_only_def)

lemma ping_peers_reg: "reg_only (h, d, e) (ping_peers rt ctx recs (h, d, e))"
proof (induction recs arbitrary: h e)
  case (Cons rec recs)
  obtain x conns e' where w: "with_client rt ctx (3 * second) (rec_GrpcAddr rec)
      (\<lambda>cctx cli e. rt_Ping rt cctx cli \<lparr>ping_PeerId = h_SelfID h\<rparr> e) (h_conns h, e) = (x, (conns, e'))" by (rule prod_cases3)
  show ?case
  proof (cases "rec_ID rec = h_SelfID h \<or> rec_State rec \<noteq> StateActive \<or> rec_GrpcAddr rec = []")
    case True
    with Cons.IH show ?thesis by auto
  next
    case go: False
    let ?h = "case x of Inl _ \<Rightarrow> h\<lparr>h_conns := conns\<rparr>
      | Inr _ \<Rightarrow> h\<lparr>h_conns := conns, h_reg := Touch (rt_now rt e') (rec_ID rec) (h_reg h)\<rparr>"
    have "ping_peers rt ctx (rec # recs) (h, d, e) = ping_peers rt ctx recs (?h, d, e')"
      using go w by (simp split: sum.split)
    moreover have "reg_only (h, d, e) (?h, d, e')"
      using reg_wf_Touch by (auto simp: reg_only_def split: sum.split)
    ultimately show ?thesis using reg_only_trans [OF _ Cons.IH] by simp
  qed
qed simp

lemma heartbeat_reg: "reg_only s (heartbeat_tick rt ctx s)"
proof -
  obtain h d e where s: "s = (h, d, e)" by (rule prod_cases3)
  let ?r1 = "Touch (rt_now rt e) (h_SelfID h) (h_reg h)"
  obtain ks e1 where ks: "rt_range rt (dom (reg_peers ?r1)) e = (ks, e1)" by (rule prod.exhaust)
  let ?r2 = "Sweep ks (rt_now rt e) (h_rtm h) ?r1"
  obtain recs e2 where recs: "draw_Snapshot rt ?r2 e1 = (recs, e2)" by (rule prod.exhaust)
  have "reg_only s (h\<lparr>h_reg := ?r2\<rparr>, d, e2)"
    using reg_wf_Sweep [OF reg_wf_Touch] by (auto simp: s reg_only_def Sweep_mark_where)
  from reg_only_trans [OF this ping_peers_reg] ks recs show ?thesis by (simp add: s heartbeat_tick_def Let_def)
qed

lemma node_ok_reg_only: "node_ok S s \<Longrightarrow> reg_only s s' \<Longrightarrow> node_ok S s' \<and> keeps S s s'"
  by (rule node_ok_reg) (simp_all add: reg_only_def node_ok_def)

lemma bootstrap_reg: "runtime_ok rt \<Longrightarrow> reg_wf (h_reg (fst s)) \<Longrightarrow> reg_only s (bootstrap_tick http rt ctx s)"
  using bootstrap_tick_upserts [of rt "fst s" "fst (snd s)" "snd (snd s)" http ctx]
  by (auto simp: upserts_def reg_only_def node_of_def dest: trace_max)

lemma redis_reg: "reg_only s (redis_round recs s)"
proof -
  have "(reg_wf r \<longrightarrow> reg_wf (foldl (\<lambda>r reply. case reply of None \<Rightarrow> r | Some rec \<Rightarrow> sync_record rec r) r recs)) \<and>
     reg_max (foldl (\<lambda>r reply. case reply of None \<Rightarrow> r | Some rec \<Rightarrow> sync_record rec r) r recs) = reg_max r" for r
    by (induction recs arbitrary: r) (auto simp: reg_wf_sync split: option.split)
  then show ?thesis by (cases s) (simp add: reg_only_def redis_round_def sync_tick_def)
qed

lemma node_ok_cleanup:
  assumes "node_ok S s"
  shows "node_ok S (cleanup_round ks ord rt s) \<and> keeps S s (cleanup_round ks ord rt s)"
proof -
  obtain h d e where s: "s = (h, d, e)" by (rule prod_cases3)
  obtain reg provs where c: "cleanup_tick ks ord (rt_now rt e) (h_reg h, h_providers h) = (reg, provs)" by (rule prod.exhaust)
  have "reg_wf (h_reg h)" "prov_wf (h_providers h)" using assms by (simp_all add: s node_ok_def)
  from reg_wf_cleanup [OF this, of ks ord "rt_now rt e"] c have wf: "reg_wf reg" "prov_wf provs" by simp_all
  have "reg_max reg = reg_max (h_reg h)" using c by (auto simp: cleanup_tick_split)
  moreover have "keeps S s (h\<lparr>h_reg := reg, h_providers := provs\<rparr>, d, e)"
    by (rule keeps_same) (simp_all add: s node_view_def)
  ultimately have "node_ok S (h\<lparr>h_reg := reg, h_providers := provs\<rparr>, d, e) \<and>
      keeps S s (h\<lparr>h_reg := reg, h_providers := provs\<rparr>, d, e)"
    using wf by (intro node_okI [OF assms]) (simp_all add: s)
  then show ?thesis using c by (simp add: s cleanup_round_def)
qed

section \<open>Starting and restarting\<close>

lemma peer_id_no_block: "\<not> block_path (Join [dir, ''peer.id''])"
  using base_name_Join [of "''peer.id''" dir] by (simp add: block_path_def KeyFromHex_def keyBytes_def)

lemma loadOrCreatePeerID_disk:
  assumes "storage_ok S" "loadOrCreatePeerID os rand (Join [dir, ''peer.id'']) d = (r, d')"
  shows "view S st d' = view S st d"
proof -
  let ?p = "Join [dir, ''peer.id'']"
  have "create_peer_id os rand ?p d = (r, d') \<or> d' = d"
    using assms(2) by (auto simp: loadOrCreatePeerID_def Let_def split: sum.splits if_splits)
  then show ?thesis
    using os_WriteFile_view [OF assms(1) peer_id_no_block]
    by (auto simp: create_peer_id_def Let_def split: sum.splits prod.splits option.splits) (metis snd_conv)+
qed

text \<open>What a start gives: the blocks the store had, an empty record and a registry with the node itself at most.\<close>

lemma NewPeerHost_start:
  assumes "storage_ok S" "NewPeerHost S os rt redis rand cfg d e = (Inr h', d', e')"
  obtains d1 where "NewStore S (cfg_DataDir cfg) d1 = (Inr (h_store h'), d')" "\<And>st. view S st d1 = view S st d"
    "h_DataDir h' = cfg_DataDir cfg" "h_providers h' = NewProviderRecords" "reg_wf (h_reg h')"
    "reg_max (h_reg h') = MaxNetworkPeers"
proof -
  obtain r d1 where l: "loadOrCreatePeerID os rand (Join [cfg_DataDir cfg, ''peer.id'']) d = (r, d1)" by (rule prod.exhaust)
  with assms(2) obtain pid where r: "r = Inr pid"
    by (cases r) (auto simp: NewPeerHost_def split: if_splits option.splits)
  obtain st d2 where n: "NewStore S (cfg_DataDir cfg) d1 = (st, d2)" by (rule prod.exhaust)
  let ?rec = "\<lparr>rec_ID = pid, rec_GrpcAddr = cfg_GrpcListenAddr cfg, rec_HttpAddr = cfg_HTTPListenAddr cfg,
      rec_State = StateActive, rec_LastSeen = rt_now rt e, rec_JoinedAt = 0\<rparr>"
  obtain ok reg e1 where u: "draw_Upsert rt ?rec (NewRegistry redis pid) e = (ok, reg, e1)" by (rule prod_cases3)
  have "reg_wf (NewRegistry redis pid)" by (simp add: reg_wf_def)
  from draw_Upsert_wf [OF this u] have reg: "reg_wf reg" "reg_max reg = MaxNetworkPeers" by simp_all
  show thesis
    using assms(2) l r n u reg loadOrCreatePeerID_disk [OF assms(1) l]
    by (intro that [of d1]) (auto simp: NewPeerHost_def split: if_splits option.splits sum.splits)
qed

lemma node_ok_restart:
  assumes "env_ok S os rt" "node_ok S (h, d, e)"
    and "NewPeerHost S os rt redis rand cfg d e = (Inr h', d', e')" "cfg_DataDir cfg = h_DataDir h"
  shows "node_ok S (h', d', e') \<and> keeps S (h, d, e) (h', d', e')"
proof (rule NewPeerHost_start [OF _ assms(3)])
  show ok: "storage_ok S" using assms(1) by (simp add: env_ok_def)
  have re: "reopens S" using assms(1) by (simp add: env_ok_def)
  fix d1
  assume n: "NewStore S (cfg_DataDir cfg) d1 = (Inr (h_store h'), d')" and v: "\<And>st. view S st d1 = view S st d"
    and f: "h_DataDir h' = cfg_DataDir cfg" "h_providers h' = NewProviderRecords" "reg_wf (h_reg h')"
    "reg_max (h_reg h') = MaxNetworkPeers"
  obtain d2 d3 where n2: "NewStore S (h_DataDir h) d2 = (Inr (h_store h), d3)" using assms(2) by (auto simp: node_ok_def)
  have st: "h_store h' = h_store h" using re n n2 assms(4) unfolding reopens_def by metis
  have "view S (h_store h) d' = view S (h_store h) d" using re n v st unfolding reopens_def by metis
  then have view: "node_view S (h', d', e') = node_view S (h, d, e)" using st by (simp add: node_view_def)
  have k: "keeps S (h, d, e) (h', d', e')" by (rule keeps_same) (simp_all add: st view)
  have "prov_wf NewProviderRecords" using ex_node_ok(2) by simp
  with f assms(2,4) show ?thesis
    by (intro node_okI [OF assms(2) k]) (simp_all add: node_ok_def)
qed

lemma serving_step:
  assumes "env_ok S os rt" "node_ok S s" "serving S os rt R http s s'"
  shows "node_ok S s' \<and> keeps S s s'"
  using assms(3)
proof cases
  case (sv_http ctx conn form r w)
  have "storage_ok S" "temp_files_ok os" using assms(1) by (simp_all add: env_ok_def)
  from node_ok_local [OF assms(2) api_serve_local [OF this sv_http]] show ?thesis .
next
  case (sv_upload ctx content tmp x)
  have "storage_ok S" "temp_files_ok os" using assms(1) by (simp_all add: env_ok_def)
  from node_ok_local [OF assms(2) store_upload_local [OF this sv_upload]] show ?thesis .
next
  case (sv_world path h d e x e')
  then have "keeps S (h, d, e) (h, d(path := x), e')"
    using assms(1) by (auto simp: env_ok_def intro: keeps_world(2) keeps_disk)
  with assms(2) sv_world(1,2) show ?thesis by (intro node_okI) (simp_all add: node_ok_def)
next
  case (sv_restart redis rand cfg d e h' d' e' h)
  with node_ok_restart [OF assms(1) assms(2) [unfolded sv_restart(1)]] show ?thesis by simp
next
  case sv_rpc
  with node_ok_rpc [OF assms(1,2)] show ?thesis by simp
next
  case sv_bootstrap
  with node_ok_reg_only [OF assms(2) bootstrap_reg] assms(1,2) show ?thesis by (simp add: env_ok_def node_ok_def)
next
  case sv_heartbeat
  with node_ok_reg_only [OF assms(2) heartbeat_reg] show ?thesis by simp
next
  case sv_redis
  with node_ok_reg_only [OF assms(2) redis_reg] show ?thesis by simp
next
  case sv_cleanup
  with node_ok_cleanup [OF assms(2)] show ?thesis by simp
qed

lemma started_ok:
  assumes "env_ok S os rt" "started S os rt s"
  shows "node_ok S s"
proof -
  have ok: "storage_ok S" using assms(1) by (simp add: env_ok_def)
  obtain h d e where s: "s = (h, d, e)" by (rule prod_cases3)
  from assms(2) s obtain redis rand cfg d0 e0 where "NewPeerHost S os rt redis rand cfg d0 e0 = (Inr h, d, e)"
    by (auto simp: started_def)
  then show ?thesis
    using assms(2) ex_node_ok(2) s by (elim NewPeerHost_start [OF ok]) (auto simp: node_ok_def started_def)
qed

interpretation node_machine: invariant_machine "started S os rt" "serving S os rt R http"
  "\<lambda>s :: ('s, 'c, 'e) node. env_ok S os rt \<longrightarrow> node_ok S s"
  for S :: "'s storage" and os :: os and rt :: "('c, 'e) runtime" and R :: "'e redis" and http :: "'e http_client"
  by unfold_locales (use started_ok serving_step in blast)+

lemma serving_run:
  assumes "env_ok S os rt" "(serving S os rt R http)\<^sup>*\<^sup>* s t" "node_ok S s"
  shows "node_ok S t \<and> keeps S s t"
  using assms(2)
proof induction
  case (step t u)
  then have "node_ok S u" "keeps S t u" using serving_step [OF assms(1) _ step.hyps(2)] by blast+
  with step.IH keeps_trans show ?case by blast
qed (simp add: assms(3))

text \<open>
  C13. The invariant of a running node. In every state a node reaches from its start by any
  sequence of RPCs, HTTP requests, rounds of its loops, polls of Redis and restarts, whatever
  peers, clients, the bootstrap service and Redis send, the registry holds at most twenty
  peers, each under its own id, the provider records are well formed, and every block in the
  store is the one its id names.
\<close>

theorem node_run_sound:
  assumes "env_ok S os rt" "reach (started S os rt) (serving S os rt R http) s"
  shows "card (dom (reg_peers (h_reg (fst s)))) \<le> 20 \<and>
    (\<forall>i p. reg_peers (h_reg (fst s)) i = Some p \<longrightarrow> rec_ID p = i) \<and> prov_wf (h_providers (fst s)) \<and>
    (\<forall>c b. store_Get S (h_store (fst s)) c (fst (snd s)) = Inr b \<longrightarrow> NewCID S b = c)"
proof -
  have "node_ok S s" using node_machine.reach_inv [OF assms(2)] assms(1) by blast
  then have ok: "reg_wf (h_reg (fst s))" "reg_max (h_reg (fst s)) = 20" "prov_wf (h_providers (fst s))"
    "view_sound S (view S (h_store (fst s)) (fst (snd s)))"
    by (simp_all add: node_ok_def MaxNetworkPeers_def node_view_def)
  have "card (dom (reg_peers (h_reg (fst s)))) \<le> 20" using ok(1,2) by (simp add: reg_wf_def)
  moreover have "\<forall>c b. store_Get S (h_store (fst s)) c (fst (snd s)) = Inr b \<longrightarrow> NewCID S b = c"
    using ok(4) by (simp add: view_sound_def store_Get_view)
  ultimately show ?thesis using ok(1,3) reg_wfD(2) by blast
qed

text \<open>
  C12. What a node holds it keeps. Once all blocks of a file are in the store of a running node,
  which is so after a successful upload and after a complete download, the file can be read
  from that node alone for ever: after any further RPCs, requests, rounds and restarts
  \<open>GetFile\<close> returns exactly the file without asking anyone, provided nobody can make other
  blocks with the ids of its blocks.
\<close>

theorem node_run_durable:
  assumes "env_ok S os rt" "reach (started S os rt) (serving S os rt R http) s"
    and "holds_file S (h_store (fst s)) (fst (snd s)) root bs" "\<forall>b\<in>set (file_node_block S bs # bs). unforgeable S b"
    and "(serving S os rt R http)\<^sup>*\<^sup>* s t"
  shows "GetFile S rt ctx root (\<lambda>_ _. None) t = ((None, concat bs), t)"
proof -
  have ok: "node_ok S s" using node_machine.reach_inv [OF assms(2)] assms(1) by blast
  then have "view_sound S (node_view S s)" by (simp add: node_ok_def)
  from keeps_file [OF conjunct2 [OF serving_run [OF assms(1,5) ok]] this assms(4,3)]
  have "holds_file S (h_store (fst t)) (fst (snd t)) root bs" .
  moreover obtain h d e where "t = (h, d, e)" by (rule prod_cases3)
  moreover have "storage_ok S" using assms(1) by (simp add: env_ok_def)
  ultimately show ?thesis using GetFile_local by simp
qed

section \<open>Example\<close>

definition ex_config :: Config where
  "ex_config = \<lparr>cfg_DataDir = ''s'', cfg_GrpcListenAddr = ''g:1'', cfg_HTTPListenAddr = ''h:1'',
                cfg_BootstrapURL = [], cfg_ReplicationFactor = 0\<rparr>"

text \<open>A data directory that holds the example file.\<close>

definition ex_stored :: disk where
  "ex_stored = ex_put ''s'' ex_root (ex_put ''s'' ex_chunk Map.empty)"

lemma ex_stored_view: "view ex_storage ''s'' ex_stored = [ex_cid ex_chunk \<mapsto> ex_chunk, ex_cid ex_root \<mapsto> ex_root]"
proof -
  have "view ex_storage ''s'' Map.empty = Map.empty" by (simp add: fun_eq_iff ex_view_eq split: sum.split)
  then show ?thesis by (simp add: ex_stored_def ex_view_put)
qed

lemma ex_stored_file:
  "holds_file ex_storage ''s'' ex_stored (ex_cid ex_root) [ex_chunk]"
  "\<forall>b\<in>set (file_node_block ex_storage [ex_chunk] # [ex_chunk]). unforgeable ex_storage b"
proof -
  have "length ex_chunk = 3" "31 \<le> length ex_root" using length_ex_root by (simp_all add: ex_chunk_def)
  then have ne: "ex_chunk \<noteq> ex_root" and un: "unforgeable ex_storage ex_chunk" "unforgeable ex_storage ex_root"
    using ex_unforgeable [of ex_chunk] ex_unforgeable [of ex_root] by auto
  then show "\<forall>b\<in>set (file_node_block ex_storage [ex_chunk] # [ex_chunk]). unforgeable ex_storage b" by (simp add: ex_root_block)
  have "ex_cid ex_chunk \<noteq> ex_cid ex_root" using ex_cid_unique [of ex_chunk ex_root] ne by blast
  then show "holds_file ex_storage ''s'' ex_stored (ex_cid ex_root) [ex_chunk]"
    by (simp add: holds_file_def ex_stored_view ex_root_block)
qed

lemma ex_env_ok: "env_ok ex_storage ex_os (ex_rt block eps)"
proof -
  have "temp_files_ok ex_os"
    by (auto simp: temp_files_ok_def ex_os_def block_path_def base_name_def KeyFromHex_def keyBytes_def)
  moreover have "reopens ex_storage" by (simp add: reopens_def ex_storage_def)
  ultimately show ?thesis using ex_storage_ok by (simp add: env_ok_def)
qed

lemma ex_started:
  obtains h d e where "started ex_storage ex_os (ex_rt [] []) (h, d, e)" "h_store h = ''s''"
    "view ex_storage ''s'' d = view ex_storage ''s'' ex_stored"
proof -
  have "\<exists>h d e. NewPeerHost ex_storage ex_os (ex_rt [] []) False (Inr (replicate 32 0)) ex_config ex_stored 0 = (Inr h, d, e) \<and>
      h_store h = ''s''"
    by (simp add: NewPeerHost_def ex_config_def os_MkdirAll_def loadOrCreatePeerID_def create_peer_id_def os_WriteFile_def
        ex_os_deny Let_def split: sum.split prod.split) (simp add: ex_storage_def)
  then obtain h d e where n: "NewPeerHost ex_storage ex_os (ex_rt [] []) False (Inr (replicate 32 0)) ex_config ex_stored 0 = (Inr h, d, e)"
    and st: "h_store h = ''s''" by blast
  have v: "view ex_storage ''s'' d = view ex_storage ''s'' ex_stored"
  proof (rule NewPeerHost_start [OF ex_storage_ok n])
    fix d1
    assume "NewStore ex_storage (cfg_DataDir ex_config) d1 = (Inr (h_store h), d)" "\<And>st. view ex_storage st d1 = view ex_storage st ex_stored"
    then show ?thesis by (simp add: ex_storage_def)
  qed
  have "view_sound ex_storage (view ex_storage ''s'' d)" unfolding v ex_stored_view by (auto simp: view_sound_def)
  then have "started ex_storage ex_os (ex_rt [] []) (h, d, e)"
    unfolding started_def node_view_def fst_conv snd_conv st
    by (intro conjI exI [of _ False] exI [of _ "Inr (replicate 32 0)"] exI [of _ ex_config] exI [of _ ex_stored] exI [of _ 0] n)
  from that [OF this st v] show thesis .
qed

theorem node_run_sound_witness:
  "\<exists>s. reach (started ex_storage ex_os (ex_rt [] [])) (serving ex_storage ex_os (ex_rt [] []) (ex_redis '''') (\<lambda>_ _ _ e. (Inl '''', e))) s \<and>
     card (dom (reg_peers (h_reg (fst s)))) \<le> 20"
proof -
  obtain h d e where "started ex_storage ex_os (ex_rt [] []) (h, d, e)" by (rule ex_started)
  then have "reach (started ex_storage ex_os (ex_rt [] [])) (serving ex_storage ex_os (ex_rt [] []) (ex_redis '''') (\<lambda>_ _ _ e. (Inl '''', e)))
      (heartbeat_tick (ex_rt [] []) None (h, d, e))"
    by (rule reach_step [OF reach_init]) (rule sv_heartbeat)
  with node_run_sound [OF ex_env_ok this] show ?thesis by blast
qed

theorem node_run_durable_witness:
  "\<exists>s t. t = serve ex_storage (ex_rt [] []) (CallStoreBlock (Some \<lparr>sb_Cid = ex_cid [9], sb_Data = [9]\<rparr>)) s \<and>
     GetFile ex_storage (ex_rt [] []) None (ex_cid ex_root) (\<lambda>_ _. None) t = ((None, ex_chunk), t)"
proof -
  let ?S = ex_storage and ?rt = "ex_rt [] []"
  let ?R = "ex_redis ''''" and ?http = "\<lambda>_ _ _ e. (Inl '''', e)"
  obtain h d e where s: "started ?S ex_os ?rt (h, d, e)" "h_store h = ''s''" "view ?S ''s'' d = view ?S ''s'' ex_stored"
    by (rule ex_started)
  let ?t = "serve ?S ?rt (CallStoreBlock (Some \<lparr>sb_Cid = ex_cid [9], sb_Data = [9]\<rparr>)) (h, d, e)"
  have r: "reach (started ?S ex_os ?rt) (serving ?S ex_os ?rt ?R ?http) (h, d, e)" using s(1) by (rule reach_init)
  have run: "(serving ?S ex_os ?rt ?R ?http)\<^sup>*\<^sup>* (h, d, e) ?t" by (rule r_into_rtranclp) (rule sv_rpc)
  have "holds_file ?S (h_store (fst (h, d, e))) (fst (snd (h, d, e))) (ex_cid ex_root) [ex_chunk]"
    using ex_stored_file(1) s(2,3) by (simp add: holds_file_def)
  from node_run_durable [OF ex_env_ok r this ex_stored_file(2) run, of None] show ?thesis
    by (intro exI [of _ "(h, d, e)"] exI [of _ ?t]) simp
qed

end
