(* ===== verification/Roster.thy ===== *)
theory Roster
  imports Scheduler
begin

text \<open>
  Registries in a closed network: there is a fixed roster of endpoints, no more than the
  registry holds, with ids and addresses of their own, and every record that reaches a
  registry is of the roster. Then \<open>Upsert\<close> takes everybody in and throws nobody out, and what
  the timeouts do only changes states. The roster is an assumption on a deployment, not part
  of the program.
\<close>

definition roster_ok :: "PeerEndpoint set \<Rightarrow> bool" where
  "roster_ok N \<longleftrightarrow> finite N \<and> card N \<le> MaxNetworkPeers \<and>
     inj_on ep_PeerId N \<and> inj_on ep_GrpcAddr N \<and> inj_on ep_HttpAddr N \<and>
     (\<forall>ep\<in>N. ep_PeerId ep \<noteq> '''' \<and> ep_GrpcAddr ep \<noteq> '''')"

definition rec_endpoint :: "Record \<Rightarrow> PeerEndpoint" where
  "rec_endpoint p = \<lparr>ep_PeerId = rec_ID p, ep_GrpcAddr = rec_GrpcAddr p, ep_HttpAddr = rec_HttpAddr p\<rparr>"

text \<open>The type of the field \<open>State\<close>: one of the three named values.\<close>

definition state_typed :: "State \<Rightarrow> bool" where
  "state_typed st \<longleftrightarrow> st = StateActive \<or> st = StateInactive \<or> st = StateLeft"

definition rec_true :: "PeerEndpoint set \<Rightarrow> Record \<Rightarrow> bool" where
  "rec_true N p \<longleftrightarrow> rec_endpoint p \<in> N \<and> state_typed (rec_State p)"

definition reg_true :: "PeerEndpoint set \<Rightarrow> Registry \<Rightarrow> bool" where
  "reg_true N r \<longleftrightarrow> reg_wf r \<and> reg_max r = MaxNetworkPeers \<and> (\<forall>i p. reg_peers r i = Some p \<longrightarrow> rec_true N p)"

text \<open>What the operations do to such a registry: it stays one, and nobody disappears.\<close>

definition reg_evolves :: "PeerEndpoint set \<Rightarrow> Registry \<Rightarrow> Registry \<Rightarrow> bool" where
  "reg_evolves N r r' \<longleftrightarrow>
     (reg_true N r \<longrightarrow> reg_true N r' \<and> dom (reg_peers r) \<subseteq> dom (reg_peers r')) \<and>
     reg_self r' = reg_self r \<and> (reg_rdb r = None \<longrightarrow> reg_rdb r' = None)"

named_theorems evolves \<open>operations that keep a registry within the roster\<close>

lemma reg_evolves_refl [simp]: "reg_evolves N r r"
  by (simp add: reg_evolves_def)

lemma reg_evolves_trans: "reg_evolves N r s \<Longrightarrow> reg_evolves N s t \<Longrightarrow> reg_evolves N r t"
  by (auto simp: reg_evolves_def)

lemma rec_endpoint_simps [simp]:
  "ep_PeerId (rec_endpoint p) = rec_ID p" "ep_GrpcAddr (rec_endpoint p) = rec_GrpcAddr p"
  "ep_HttpAddr (rec_endpoint p) = rec_HttpAddr p"
  by (simp_all add: rec_endpoint_def)

lemma rosterD:
  assumes "roster_ok N" "x \<in> N" "y \<in> N"
  shows "ep_PeerId x = ep_PeerId y \<Longrightarrow> x = y" "ep_GrpcAddr x = ep_GrpcAddr y \<Longrightarrow> x = y"
    "ep_HttpAddr x = ep_HttpAddr y \<Longrightarrow> x = y" "ep_PeerId x \<noteq> ''''" "ep_GrpcAddr x \<noteq> ''''"
  using assms by (auto simp: roster_ok_def inj_on_def)

lemma reg_trueD:
  assumes "reg_true N r" shows "reg_wf r" "reg_max r = MaxNetworkPeers"
    "reg_peers r i = Some p \<Longrightarrow> rec_true N p \<and> rec_ID p = i"
  using assms reg_wfD(2) by (auto simp: reg_true_def)

text \<open>The entry of a known peer is the one of the roster.\<close>

lemma reg_true_addr:
  assumes "roster_ok N" "reg_true N r" "reg_peers r i = Some p" "ep \<in> N" "ep_PeerId ep = i"
  shows "rec_endpoint p = ep"
  using rosterD(1) [OF assms(1) _ assms(4), of "rec_endpoint p"] reg_trueD(3) [OF assms(2,3)] assms(5)
  by (simp add: rec_true_def)

section \<open>Upsert\<close>

lemma prune_stale_nobody:
  assumes "roster_ok N" "reg_true N r" "rec_true N rec"
  shows "prune_stale ks rec r = r"
proof (rule prune_stale_cases [of ks rec r])
  fix pid e
  assume e: "reg_peers r pid = Some e" "pid \<noteq> rec_ID rec" "same_address e rec"
  have in_N: "rec_endpoint e \<in> N" "rec_endpoint rec \<in> N" and id: "rec_ID e = pid"
    using reg_trueD(3) [OF assms(2) e(1)] assms(3) by (simp_all add: rec_true_def)
  have "rec_endpoint e = rec_endpoint rec"
    using e(3) rosterD(2,3) [OF assms(1) in_N] by (auto simp: same_address_def)
  then have "rec_ID e = rec_ID rec" by (simp add: rec_endpoint_def)
  with e(2) id show ?thesis by simp
qed

text \<open>There is always room: were the registry full, it would hold the whole roster.\<close>

lemma room_for_new:
  assumes "roster_ok N" "reg_true N r" "rec_true N rec" "reg_peers r (rec_ID rec) = None"
  shows "card (dom (reg_peers r)) < reg_max r"
proof -
  have "dom (reg_peers r) \<subseteq> ep_PeerId ` N"
  proof
    fix i assume "i \<in> dom (reg_peers r)"
    then obtain p where "reg_peers r i = Some p" by blast
    from reg_trueD(3) [OF assms(2) this] have "rec_endpoint p \<in> N" "ep_PeerId (rec_endpoint p) = i"
      by (simp_all add: rec_true_def)
    then show "i \<in> ep_PeerId ` N" by blast
  qed
  moreover have "rec_ID rec \<in> ep_PeerId ` N"
    using assms(3) by (auto simp: rec_true_def intro: image_eqI [of _ _ "rec_endpoint rec"])
  moreover have "rec_ID rec \<notin> dom (reg_peers r)" using assms(4) by auto
  ultimately have "dom (reg_peers r) \<subset> ep_PeerId ` N" by blast
  moreover have fin: "finite N" "card N \<le> MaxNetworkPeers" using assms(1) by (simp_all add: roster_ok_def)
  ultimately have "card (dom (reg_peers r)) < card (ep_PeerId ` N)" by (intro psubset_card_mono) simp_all
  also have "\<dots> \<le> MaxNetworkPeers" using fin card_image_le le_trans by blast
  finally show ?thesis using reg_trueD(2) [OF assms(2)] by simp
qed

lemma Upsert_true:
  assumes "roster_ok N" "reg_true N r" "rec_true N rec"
  obtains q where "fst (Upsert ks ks' now (Some rec) r)" "rec_endpoint q = rec_endpoint rec" "rec_State q = rec_State rec"
    "reg_peers (snd (Upsert ks ks' now (Some rec) r)) = (reg_peers r)(rec_ID rec \<mapsto> q)"
proof -
  have "rec_endpoint rec \<in> N" using assms(3) by (simp add: rec_true_def)
  from rosterD(4) [OF assms(1) this this] have id: "rec_ID rec \<noteq> ''''" by simp
  have typed: "rec_State rec \<noteq> ''''" using assms(3) by (auto simp: rec_true_def state_typed_def)
  note p = prune_stale_nobody [OF assms, of ks] and room = room_for_new [OF assms]
  show thesis
  proof (rule Upsert_cases [OF id, of r ks ks' now])
    fix q
    assume q: "reg_peers r (rec_ID rec) = Some q" and u: "Upsert ks ks' now (Some rec) r =
        (True, publishRedis (refresh_record rec q)
           ((prune_stale ks rec r)\<lparr>reg_peers := (reg_peers (prune_stale ks rec r))(rec_ID rec \<mapsto> refresh_record rec q)\<rparr>))"
    have "rec_ID q = rec_ID rec" using reg_trueD(3) [OF assms(2) q] by simp
    then show thesis using u p typed by (intro that [of "refresh_record rec q"]) (simp_all add: rec_endpoint_def)
  next
    assume "Upsert ks ks' now (Some rec) r = (True, insert_new now rec (prune_stale ks rec r))"
    then show thesis using p by (intro that [of "rec\<lparr>rec_JoinedAt := now\<rparr>"]) (simp_all add: rec_endpoint_def)
  qed (use room p in simp_all)
qed

lemma Upsert_rdb: "reg_rdb (snd (Upsert ks ks' now (Some rec) r)) = None \<longleftrightarrow> reg_rdb r = None"
  by (cases "rec_ID rec = ''''", simp) (rule Upsert_cases [of rec r ks ks' now], auto)

lemma reg_evolves_Upsert [evolves]:
  assumes "roster_ok N" "rec_true N rec"
  shows "reg_evolves N r (snd (Upsert ks ks' now (Some rec) r))"
proof -
  let ?r = "snd (Upsert ks ks' now (Some rec) r)"
  have "reg_true N ?r \<and> dom (reg_peers r) \<subseteq> dom (reg_peers ?r)" if t: "reg_true N r"
  proof (rule Upsert_true [OF assms(1) t assms(2), of ks ks' now])
    fix q assume "rec_endpoint q = rec_endpoint rec" "rec_State q = rec_State rec"
      "reg_peers ?r = (reg_peers r)(rec_ID rec \<mapsto> q)"
    then show ?thesis using t assms(2) reg_wf_Upsert [OF reg_trueD(1) [OF t]] reg_trueD(2,3) [OF t]
      by (auto simp: reg_true_def rec_true_def)
  qed
  then show ?thesis by (simp add: reg_evolves_def Upsert_rdb)
qed

section \<open>Timeouts\<close>

lemma reg_evolves_map:
  assumes "reg_wf r \<longrightarrow> reg_wf r'" "reg_self r' = reg_self r" "reg_max r' = reg_max r"
    "reg_rdb r = None \<longrightarrow> reg_rdb r' = None"
    and "\<And>i. reg_peers r' i = map_option (f i) (reg_peers r i)" "\<And>i p. rec_true N p \<Longrightarrow> rec_true N (f i p)"
  shows "reg_evolves N r r'"
proof -
  have "rec_true N p" if t: "reg_true N r" and p: "reg_peers r' i = Some p" for i p
    using assms(5) [of i] assms(6) p reg_trueD(3) [OF t] by (cases "reg_peers r i") auto
  moreover have "dom (reg_peers r') = dom (reg_peers r)" using assms(5) by (auto simp: dom_def)
  ultimately show ?thesis using assms(1-4) by (auto simp: reg_evolves_def reg_true_def)
qed

lemma rec_true_simps [simp]:
  "rec_true N (touch_record now p) \<longleftrightarrow> rec_true N p"
  "rec_true N (p\<lparr>rec_State := s\<rparr>) \<longleftrightarrow> rec_endpoint p \<in> N \<and> state_typed s"
  by (auto simp: rec_true_def rec_endpoint_def state_typed_def)

lemma reg_evolves_Touch [evolves]: "reg_evolves N r (Touch now pid r)"
proof (rule reg_evolves_map [where f = "\<lambda>i. if i = pid then touch_record now else id"])
  show "reg_peers (Touch now pid r) i = map_option (if i = pid then touch_record now else id) (reg_peers r i)" for i
    by (simp add: reg option.map_id0)
  show "reg_rdb r = None \<longrightarrow> reg_rdb (Touch now pid r) = None" by (simp add: Touch_def Let_def split: option.split)
qed (auto simp: reg_wf_Touch)

lemma mark_where_rdb: "reg_rdb r = None \<longrightarrow> reg_rdb (mark_where c s ps r) = None"
proof (induction ps arbitrary: r)
  case (Cons q ps)
  have "reg_rdb r = None \<longrightarrow> reg_rdb (MarkState (rec_ID q) s r) = None"
    by (simp add: MarkState_def Let_def split: option.split)
  with Cons.IH [of r] Cons.IH [of "MarkState (rec_ID q) s r"] show ?case by (simp add: mark_where_def)
qed (simp add: mark_where_def)

lemma reg_evolves_mark:
  assumes "state_typed s" shows "reg_evolves N r (mark_where c s ps r)"
proof (rule reg_evolves_map [where f = "\<lambda>i. if \<exists>p\<in>set ps. rec_ID p = i \<and> c p then \<lambda>p. p\<lparr>rec_State := s\<rparr> else id"])
  show "reg_peers (mark_where c s ps r) i =
      map_option (if \<exists>p\<in>set ps. rec_ID p = i \<and> c p then \<lambda>p. p\<lparr>rec_State := s\<rparr> else id) (reg_peers r i)" for i
    by (cases "\<exists>p\<in>set ps. rec_ID p = i \<and> c p") (auto simp: mark_where_peers option.map_id0)
qed (use assms in \<open>auto simp: reg_wf_mark_where mark_where_rdb, auto simp: rec_true_def\<close>)

lemma reg_evolves_Sweep [evolves]: "reg_evolves N r (Sweep ks now m r)"
  unfolding Sweep_mark_where by (rule reg_evolves_mark) (simp add: state_typed_def)

lemma reg_evolves_cleanup [evolves]: "reg_evolves N r (fst (cleanup_tick ks ord now (r, provs)))"
  unfolding cleanup_tick_split fst_conv by (rule reg_evolves_mark) (simp add: state_typed_def)

end
