(* ===== verification/Network.thy ===== *)
theory Network
  imports Cluster NodeCalls NodeRun Roster
begin

text \<open>
  A closed network: the bootstrap service and nodes that start, stop, serve requests and run
  their loops, and that are called by nobody but each other. The nodes have no Redis. Every
  step is one step of one node, with whatever it calls; which messages are lost, which nodes
  are down and in which orders things happen is arbitrary. The endpoints nodes start with are
  those of a roster (\<open>Roster\<close>): an id is used at one address, and there are no more nodes than
  the registry holds.
\<close>

section \<open>What is true of a network\<close>

definition bp_endpoint :: "BootstrapPeer \<Rightarrow> PeerEndpoint" where
  "bp_endpoint p = \<lparr>ep_PeerId = bp_PeerID p, ep_GrpcAddr = bp_GrpcAddr p, ep_HttpAddr = bp_HttpAddr p\<rparr>"

definition wire_ok :: "PeerEndpoint set \<Rightarrow> bool" where
  "wire_ok N \<longleftrightarrow> (\<forall>ep\<in>N. ascii (ep_PeerId ep) \<and> ascii (ep_GrpcAddr ep) \<and> ascii (ep_HttpAddr ep))"

definition service_true :: "PeerEndpoint set \<Rightarrow> Bootstrap \<Rightarrow> bool" where
  "service_true N s \<longleftrightarrow> distinct (bs_peers s) \<and> (\<forall>p\<in>set (bs_peers s). bp_endpoint p \<in> N)"

text \<open>A node announces nobody but itself.\<close>

definition own_records :: "('s, 'c) PeerHost \<Rightarrow> bool" where
  "own_records h \<longleftrightarrow> (\<forall>c i ep. (c, i, ep) \<in> prov_abs (h_providers h) \<longrightarrow> i = h_SelfID h \<and> ep = SelfEndpoint h)"

definition node_true ::
  "'s storage \<Rightarrow> PeerEndpoint set \<Rightarrow> string \<Rightarrow> string \<Rightarrow> ('s, string) PeerHost \<Rightarrow> disk \<Rightarrow> bool" where
  "node_true S N base a h d \<longleftrightarrow>
     node_ok S (h, d, ()) \<and> SelfEndpoint h \<in> N \<and> h_GrpcAddr h = a \<and>
     (h_Bootstrap h = '''' \<or> TrimRight_slash (h_Bootstrap h) = base) \<and>
     reg_true N (h_reg h) \<and> reg_rdb (h_reg h) = None \<and> reg_self (h_reg h) = h_SelfID h \<and>
     own_records h \<and> conns_ok (h_conns h)"

definition net_true :: "'s storage \<Rightarrow> PeerEndpoint set \<Rightarrow> string \<Rightarrow> 's cluster \<Rightarrow> bool" where
  "net_true S N base e \<longleftrightarrow>
     (\<forall>a h d. cl_nodes e a = Some (h, d) \<longrightarrow> node_true S N base a h d) \<and> service_true N (cl_service e)"

text \<open>What lasts: blocks, announcements and known peers of the nodes that stay, and the listed peers.\<close>

definition node_evolves ::
  "'s storage \<Rightarrow> ('s, string) PeerHost \<times> disk \<Rightarrow> ('s, string) PeerHost \<times> disk \<Rightarrow> bool" where
  "node_evolves S x y \<longleftrightarrow>
     grows S x y \<and> dom (reg_peers (h_reg (fst x))) \<subseteq> dom (reg_peers (h_reg (fst y))) \<and>
     h_Bootstrap (fst y) = h_Bootstrap (fst x)"

definition net_evolves :: "'s storage \<Rightarrow> 's cluster \<Rightarrow> 's cluster \<Rightarrow> bool" where
  "net_evolves S e e' \<longleftrightarrow>
     (\<forall>a x. cl_nodes e a = Some x \<longrightarrow> (\<exists>y. cl_nodes e' a = Some y \<and> node_evolves S x y)) \<and>
     set (bs_peers (cl_service e)) \<subseteq> set (bs_peers (cl_service e'))"

lemma node_evolves_refl [simp]: "node_evolves S x x"
  by (simp add: node_evolves_def)

lemma node_evolves_trans: "node_evolves S x y \<Longrightarrow> node_evolves S y z \<Longrightarrow> node_evolves S x z"
  using grows_trans [of S x y z] by (auto simp: node_evolves_def)

lemma net_evolves_refl [simp]: "net_evolves S e e"
  by (simp add: net_evolves_def)

lemma net_evolves_trans:
  assumes "net_evolves S e f" "net_evolves S f g" shows "net_evolves S e g"
proof -
  have "\<exists>z. cl_nodes g a = Some z \<and> node_evolves S x z" if x: "cl_nodes e a = Some x" for a x
  proof -
    from assms(1) x obtain y where "cl_nodes f a = Some y" "node_evolves S x y" unfolding net_evolves_def by blast
    moreover from assms(2) this(1) obtain z where "cl_nodes g a = Some z" "node_evolves S y z"
      unfolding net_evolves_def by blast
    ultimately show ?thesis using node_evolves_trans by blast
  qed
  then show ?thesis using assms by (auto simp: net_evolves_def)
qed

lemma net_evolves_at:
  assumes "net_evolves S e e'" "cl_nodes e a = Some (h, d)"
  obtains h' d' where "cl_nodes e' a = Some (h', d')" "node_evolves S (h, d) (h', d')"
proof -
  from assms obtain y where "cl_nodes e' a = Some y" "node_evolves S (h, d) y" unfolding net_evolves_def by blast
  with that show thesis by (cases y) simp
qed

definition same_net :: "'s cluster \<Rightarrow> 's cluster \<Rightarrow> bool" where
  "same_net e e' \<longleftrightarrow> cl_nodes e' = cl_nodes e \<and> cl_service e' = cl_service e"

lemma cl_service_tick [simp]: "cl_service (tick e) = cl_service e"
  by (simp add: tick_def)

lemma same_net_simps [simp]: "same_net e e" "same_net e (tick e)" "same_net e (tick e') \<longleftrightarrow> same_net e e'"
  by (simp_all add: same_net_def)

lemma same_net_true: "same_net e e' \<Longrightarrow> net_true S N base e' = net_true S N base e"
  "same_net e e' \<Longrightarrow> net_evolves S e e'" "same_net e e' \<Longrightarrow> net_evolves S e' f = net_evolves S e f"
  by (simp_all add: same_net_def net_true_def net_evolves_def)

section \<open>Changes of one node\<close>

lemma grows_reg:
  assumes "same_but_reg h h'" shows "grows S (h, d) (h', d)"
proof -
  have f: "h_providers h' = h_providers h" "SelfEndpoint h' = SelfEndpoint h" "h_SelfID h' = h_SelfID h"
    "h_store h' = h_store h" "h_GrpcAddr h' = h_GrpcAddr h"
    using same_but_reg_fields [OF assms] by (simp_all add: SelfEndpoint_def)
  then have "keeps S (h, d, ()) (h', d, ())" by (intro keeps_same) (simp_all add: node_view_def)
  with f show ?thesis by (simp add: grows_def announces_def)
qed

text \<open>The registry moves within the roster.\<close>

lemma node_true_reg:
  assumes "node_true S N base a h d" "same_but_reg h h'" "conns_ok (h_conns h')" "reg_evolves N (h_reg h) (h_reg h')"
  shows "node_true S N base a h' d \<and> node_evolves S (h, d) (h', d)"
proof -
  note f = same_but_reg_fields [OF assms(2)]
  have t: "reg_true N (h_reg h)" using assms(1) by (simp add: node_true_def)
  then have r: "reg_true N (h_reg h')" "dom (reg_peers (h_reg h)) \<subseteq> dom (reg_peers (h_reg h'))"
    "reg_self (h_reg h') = reg_self (h_reg h)" "reg_rdb (h_reg h) = None \<longrightarrow> reg_rdb (h_reg h') = None"
    using assms(4) by (simp_all add: reg_evolves_def)
  have "node_ok S (h', d, ())"
    using node_ok_reg [of S "(h, d, ())" "(h', d, ())"] assms(1,2) reg_trueD(1,2) [OF t] reg_trueD(1,2) [OF r(1)]
    by (simp add: node_true_def)
  moreover have ep: "SelfEndpoint h' = SelfEndpoint h" using f by (simp add: SelfEndpoint_def)
  moreover from this have "own_records h'" using assms(1) f by (simp add: node_true_def own_records_def)
  ultimately show ?thesis
    using assms(1,3) f r grows_reg [OF assms(2)] by (simp add: node_true_def node_evolves_def)
qed

text \<open>A local change announces nobody else, and nothing is taken back.\<close>

lemma prov_abs_announce:
  "ep_PeerId ep \<noteq> '''' \<Longrightarrow>
   (c, i, x) \<in> prov_abs (foldl (\<lambda>p c. prov_Add c (Some ep) p) p cs) \<longleftrightarrow>
     (if i = ep_PeerId ep \<and> c \<in> set cs then x = ep else (c, i, x) \<in> prov_abs p)"
proof (induction cs arbitrary: p)
  case (Cons c' cs)
  show ?case by (simp add: Cons.IH [OF Cons.prems]) (auto simp: prov_abs_Add Cons.prems)
qed simp

lemma local_change_records:
  assumes "local_change h h'" "h_SelfID h \<noteq> ''''"
  shows "own_records h \<Longrightarrow> own_records h'" "announces c h \<Longrightarrow> announces c h'"
    and "known_at (h_SelfID h) (h_GrpcAddr h) (h_providers h) \<Longrightarrow> known_at (h_SelfID h) (h_GrpcAddr h) (h_providers h')"
proof -
  note f = local_change_fields [OF assms(1)]
  obtain cs where p: "h_providers h' = foldl (\<lambda>p c. prov_Add c (Some (SelfEndpoint h)) p) (h_providers h) cs"
    using assms(1) by (auto simp: local_change_def announce_self_def)
  have id: "ep_PeerId (SelfEndpoint h) = h_SelfID h" by (simp add: SelfEndpoint_def)
  have abs: "(c, i, x) \<in> prov_abs (h_providers h') \<longleftrightarrow>
      (if i = h_SelfID h \<and> c \<in> set cs then x = SelfEndpoint h else (c, i, x) \<in> prov_abs (h_providers h))" for c i x
    unfolding p using prov_abs_announce [of "SelfEndpoint h"] id assms(2) by simp
  show "own_records h \<Longrightarrow> own_records h'" "announces c h \<Longrightarrow> announces c h'"
    using f abs by (auto simp: own_records_def announces_def)
  assume k: "known_at (h_SelfID h) (h_GrpcAddr h) (h_providers h)"
  then have "prov_wf (h_providers h')" using local_change_wf [OF assms(1)] by (simp add: known_at_def)
  with k abs show "known_at (h_SelfID h) (h_GrpcAddr h) (h_providers h')"
    by (auto simp: known_at_def SelfEndpoint_def)
qed

lemma node_true_local:
  assumes "roster_ok N" "node_true S N base a h d" "local_change h h'" "keeps S (h, d, ()) (h', d', ())" "conns_ok (h_conns h')"
  shows "node_true S N base a h' d' \<and> node_evolves S (h, d) (h', d')"
proof -
  note f = local_change_fields [OF assms(3)]
  have ep: "SelfEndpoint h \<in> N" using assms(2) by (simp add: node_true_def)
  from rosterD(4) [OF assms(1) this this] have id: "h_SelfID h \<noteq> ''''" by (simp add: SelfEndpoint_def)
  note r = local_change_records [OF assms(3) id]
  have "node_ok S (h', d', ())"
    using node_ok_local [of S "(h, d, ())" "(h', d', ())"] assms(2-4) by (simp add: node_true_def local_step_def)
  moreover have "grows S (h, d) (h', d')"
    using f r(2,3) local_change_wf [OF assms(3)] assms(4) by (simp add: grows_def)
  ultimately show ?thesis using assms(2,5) f r(1) by (simp add: node_true_def node_evolves_def)
qed

section \<open>Calls between the nodes\<close>

text \<open>A handler that keeps its node true keeps the network true.\<close>

definition handler_true ::
  "'s storage \<Rightarrow> PeerEndpoint set \<Rightarrow> string \<Rightarrow>
   (('s, string, 's cluster) node \<Rightarrow> (error + 'r) \<times> ('s, string, 's cluster) node) \<Rightarrow> bool" where
  "handler_true S N base f \<longleftrightarrow>
     (\<forall>a h d e r h' d' e'. f (h, d, e) = (r, (h', d', e')) \<longrightarrow>
        same_net e e' \<and> (node_true S N base a h d \<longrightarrow> node_true S N base a h' d' \<and> node_evolves S (h, d) (h', d')))"

lemma handler_trueD:
  assumes "handler_true S N base f" "f (h, d, e) = (r, (h', d', e'))"
  shows "same_net e e'" "node_true S N base a h d \<Longrightarrow> node_true S N base a h' d' \<and> node_evolves S (h, d) (h', d')"
proof -
  have "same_net e e' \<and> (node_true S N base a h d \<longrightarrow> node_true S N base a h' d' \<and> node_evolves S (h, d) (h', d'))" for a
    using assms unfolding handler_true_def by blast
  then show "same_net e e'" "node_true S N base a h d \<Longrightarrow> node_true S N base a h' d' \<and> node_evolves S (h, d) (h', d')"
    by blast+
qed

lemma deliver_true:
  assumes "handler_true S N base f" "deliver C a f e = (r, e')" "net_true S N base e"
  shows "net_true S N base e' \<and> net_evolves S e e'"
proof (cases "cl_nodes e a")
  case None
  with assms(2) have "same_net e e'" by (auto simp: deliver_def)
  with assms(3) same_net_true(1,2) show ?thesis by blast
next
  case (Some x)
  obtain h d where x: "x = (h, d)" by (rule prod.exhaust)
  obtain y h' d' e1 where y: "f (h, d, tick e) = (y, (h', d', e1))" by (rule prod_cases4)
  have h: "node_true S N base a h d" using assms(3) Some x by (simp add: net_true_def)
  have same: "same_net e e1" using handler_trueD(1) [OF assms(1) y] by (simp add: same_net_def tick_def)
  note k = handler_trueD(2) [OF assms(1) y h]
  have "e' = tick e \<or> e' = e1\<lparr>cl_nodes := (cl_nodes e1)(a \<mapsto> (h', d'))\<rparr>"
    using assms(2) Some x y by (auto simp: deliver_def split: if_splits)
  then show ?thesis
  proof
    assume "e' = tick e"
    then show ?thesis using assms(3) same_net_true(1,2) [of e e'] by simp
  next
    assume e': "e' = e1\<lparr>cl_nodes := (cl_nodes e1)(a \<mapsto> (h', d'))\<rparr>"
    have "net_true S N base e'" using assms(3) k same by (simp add: e' net_true_def same_net_def)
    moreover have "net_evolves S e e'"
      using k same Some x by (simp add: e' net_evolves_def same_net_def)
    ultimately show ?thesis ..
  qed
qed

lemma draw_local:
  "draw_Upsert (local_rt C) rec r e = (ok, r', e') \<Longrightarrow> same_net e e'"
  "draw_Snapshot (local_rt C) r e = (ps, e') \<Longrightarrow> same_net e e' \<and> set ps \<subseteq> ran (reg_peers r)"
  by (auto simp: draw_Upsert_def draw_Snapshot_def Snapshot_def set_range_values ran_def split: prod.splits)

lemma draw_UpsertE:
  assumes "draw_Upsert rt rec r e = (ok, r', e')"
  obtains ks ks' now where "Upsert ks ks' now (Some rec) r = (ok, r')"
proof -
  obtain ks e1 where ks: "rt_range rt (dom (reg_peers r)) e = (ks, e1)" by (rule prod.exhaust)
  obtain ks' e2 where ks': "rt_range rt (dom (reg_peers r)) e1 = (ks', e2)" by (rule prod.exhaust)
  show thesis
    using assms ks ks' by (intro that [of ks ks' "rt_now rt e2"]) (auto simp: draw_Upsert_def split: prod.splits)
qed

lemma draw_Upsert_evolves:
  assumes "roster_ok N" "rec_true N rec" "draw_Upsert rt rec r e = (ok, r', e')"
  shows "reg_evolves N r r'"
proof -
  obtain ks ks' now where "Upsert ks ks' now (Some rec) r = (ok, r')" by (rule draw_UpsertE [OF assms(3)])
  then show ?thesis using reg_evolves_Upsert [OF assms(1,2), of r ks ks' now] by simp
qed

lemma draw_Upsert_true:
  assumes "roster_ok N" "rec_true N rec" "reg_true N r" "draw_Upsert rt rec r e = (ok, r', e')"
  obtains q where ok "rec_endpoint q = rec_endpoint rec" "rec_State q = rec_State rec"
    "reg_peers r' = (reg_peers r)(rec_ID rec \<mapsto> q)"
proof -
  obtain ks ks' now where u: "Upsert ks ks' now (Some rec) r = (ok, r')" by (rule draw_UpsertE [OF assms(4)])
  obtain q where "fst (Upsert ks ks' now (Some rec) r)" "rec_endpoint q = rec_endpoint rec" "rec_State q = rec_State rec"
    "reg_peers (snd (Upsert ks ks' now (Some rec) r)) = (reg_peers r)(rec_ID rec \<mapsto> q)"
    by (rule Upsert_true [OF assms(1,3,2), of ks ks' now])
  with u show thesis by (intro that [of q]) simp_all
qed

lemma handlers_true:
  "handler_true S N base (svc_GetBlock S gq)"
  "handler_true S N base (svc_FindProvider (local_rt C) fq)"
  "handler_true S N base (svc_Ping (local_rt C) pq)"
proof -
  show "handler_true S N base (svc_GetBlock S gq)"
    by (auto simp: handler_true_def svc_GetBlock_def split: option.splits if_splits sum.splits)
  show "handler_true S N base (svc_FindProvider (local_rt C) fq)"
    by (auto simp: handler_true_def svc_FindProvider_def split: option.splits if_splits)
  have "node_true S N base a (h\<lparr>h_reg := Touch now i (h_reg h)\<rparr>) d \<and>
      node_evolves S (h, d) (h\<lparr>h_reg := Touch now i (h_reg h)\<rparr>, d)" if "node_true S N base a h d" for a h d now i
    using node_true_reg [OF that, of "h\<lparr>h_reg := Touch now i (h_reg h)\<rparr>"] that
    by (simp add: node_true_def reg_evolves_Touch)
  then show "handler_true S N base (svc_Ping (local_rt C) pq)"
    by (auto simp: handler_true_def svc_Ping_def Let_def split: option.splits)
qed

lemma StoreBlock_true:
  fixes S :: "'s storage"
  assumes "storage_ok S" "roster_ok N" shows "handler_true S N base (svc_StoreBlock S (Some q))"
  unfolding handler_true_def
proof (intro allI impI conjI)
  fix a d r d' and h h' :: "('s, string) PeerHost" and e e' :: "'s cluster"
  assume b: "svc_StoreBlock S (Some q) (h, d, e) = (r, (h', d', e'))"
  show "same_net e e'"
    using b by (auto simp: svc_StoreBlock_def split: if_splits option.splits prod.splits sum.splits)
  have "keeps S (h, d, e) (h', d', e')"
    using keeps_serve [OF assms(1), of "(h, d, e)" rt "CallStoreBlock (Some q)" for rt] b by simp
  then have k: "keeps S (h, d, ()) (h', d', ())" by (rule keeps_any_world)
  have "h' = h \<or> h' = h\<lparr>h_providers := prov_Add (sb_Cid q) (Some (SelfEndpoint h)) (h_providers h)\<rparr>"
    using b by (auto simp: svc_StoreBlock_def split: if_splits option.splits prod.splits sum.splits)
  then have l: "local_change h h'" "h_conns h' = h_conns h"
    by (auto simp: local_change_def announce_self_def intro: exI [of _ "[]"] exI [of _ "[sb_Cid q]"])
  assume t: "node_true S N base a h d"
  then have "conns_ok (h_conns h')" using l(2) by (simp add: node_true_def)
  from node_true_local [OF assms(2) t l(1) k this]
  show "node_true S N base a h' d'" "node_evolves S (h, d) (h', d')" by blast+
qed

text \<open>A join: the caller is taken in, and the answer names peers of the roster only.\<close>

lemma JoinNetwork_true:
  assumes "roster_ok N" "self \<in> N"
  shows "handler_true S N base (svc_JoinNetwork (local_rt C) (Some \<lparr>jn_Self = Some self\<rparr>))"
    and "svc_JoinNetwork (local_rt C) (Some \<lparr>jn_Self = Some self\<rparr>) (h, d, e) = (Inr resp, s') \<Longrightarrow>
      node_true S N base a h d \<Longrightarrow> Some ep \<in> set (jnr_KnownPeers resp) \<Longrightarrow> ep \<in> N"
proof -
  let ?rec = "\<lambda>now. \<lparr>rec_ID = ep_PeerId self, rec_GrpcAddr = ep_GrpcAddr self, rec_HttpAddr = ep_HttpAddr self,
      rec_State = StateActive, rec_LastSeen = now, rec_JoinedAt = 0\<rparr>"
  have rec: "rec_true N (?rec now)" for now
    using assms(2) by (cases self) (simp add: rec_true_def rec_endpoint_def state_typed_def)
  have join: "same_net e e' \<and> d' = d \<and> (\<exists>reg. h' = h\<lparr>h_reg := reg\<rparr> \<and> reg_evolves N (h_reg h) reg \<and>
      (\<forall>resp. r = Inr resp \<longrightarrow> (\<forall>ep. Some ep \<in> set (jnr_KnownPeers resp) \<longrightarrow> (\<exists>p\<in>ran (reg_peers reg). ep = rec_endpoint p))))"
    if j: "svc_JoinNetwork (local_rt C) (Some \<lparr>jn_Self = Some self\<rparr>) (h, d, e) = (r, (h', d', e'))" for h d e r h' d' e'
  proof -
    obtain ok reg e1 where u: "draw_Upsert (local_rt C) (?rec (rt_now (local_rt C) e)) (h_reg h) e = (ok, reg, e1)"
      by (rule prod_cases3)
    obtain ps e2 where p: "draw_Snapshot (local_rt C) reg e1 = (ps, e2)" by (rule prod.exhaust)
    have "same_net e e1" using draw_local(1) [OF u] .
    moreover have 2: "same_net e1 e2" "set ps \<subseteq> ran (reg_peers reg)" using draw_local(2) [OF p] by blast+
    ultimately have "same_net e e2" by (simp add: same_net_def)
    with \<open>same_net e e1\<close> 2(2) show ?thesis
      using j u p draw_Upsert_evolves [OF assms(1) rec u]
      by (cases ok) (auto simp: svc_JoinNetwork_def Let_def rec_endpoint_def intro!: exI [of _ reg], blast)
  qed
  have keeps: "node_true S N base a h' d \<and> node_evolves S (h, d) (h', d)"
    if "h' = h\<lparr>h_reg := reg\<rparr>" "reg_evolves N (h_reg h) reg" "node_true S N base a h d" for a h h' d reg
    using node_true_reg [OF that(3), of h'] that by (simp add: node_true_def)
  show "handler_true S N base (svc_JoinNetwork (local_rt C) (Some \<lparr>jn_Self = Some self\<rparr>))"
    unfolding handler_true_def using join keeps by blast
  assume j: "svc_JoinNetwork (local_rt C) (Some \<lparr>jn_Self = Some self\<rparr>) (h, d, e) = (Inr resp, s')"
    and t: "node_true S N base a h d" and ep: "Some ep \<in> set (jnr_KnownPeers resp)"
  obtain h' d' e' where s': "s' = (h', d', e')" by (rule prod_cases3)
  obtain reg p where reg: "reg_evolves N (h_reg h) reg" "p \<in> ran (reg_peers reg)" "ep = rec_endpoint p"
    using join [OF j [unfolded s']] ep by blast
  have "reg_true N reg" using reg(1) t by (simp add: reg_evolves_def node_true_def)
  with reg(2,3) show "ep \<in> N" using reg_trueD(3) [of N reg] by (auto simp: ran_def rec_true_def)
qed

text \<open>The relation along the calls of a node.\<close>

definition net_rel ::
  "'s storage \<Rightarrow> PeerEndpoint set \<Rightarrow> string \<Rightarrow> (string, 's cluster) net \<Rightarrow> (string, 's cluster) net \<Rightarrow> bool" where
  "net_rel S N base n m \<longleftrightarrow> (conns_ok (fst n) \<longrightarrow> conns_ok (fst m)) \<and>
     (storage_ok S \<and> roster_ok N \<and> net_true S N base (snd n) \<longrightarrow>
        net_true S N base (snd m) \<and> net_evolves S (snd n) (snd m))"

lemma net_rel_same: "same_net e e' \<Longrightarrow> net_rel S N base (conns, e) (conns, e')"
  using same_net_true(1) [of e e' S N base] same_net_true(2) [of e e' S] by (simp add: net_rel_def)

lemma net_rel_deliver:
  assumes "storage_ok S \<Longrightarrow> roster_ok N \<Longrightarrow> handler_true S N base f" "deliver C a f e = (r, e')"
  shows "net_rel S N base (conns, e) (conns, e')"
  using deliver_true [of S N base f C a e r e'] assms by (simp add: net_rel_def)

interpretation net: peer_relation "cluster_rt st C" "net_rel st N base"
  for st :: "'x storage" and C :: choices and N :: "PeerEndpoint set" and base :: string
proof unfold_locales
  fix n m k :: "(string, 'x cluster) net"
  show "net_rel st N base n n" by (simp add: net_rel_def)
  show "net_rel st N base n m \<Longrightarrow> net_rel st N base m k \<Longrightarrow> net_rel st N base n k"
    unfolding net_rel_def using net_evolves_trans by blast
next
  fix ctx c sq e r e' and conns :: "string \<rightharpoonup> string"
  assume "rt_StoreBlock (cluster_rt st C) ctx c sq e = (r, e')"
  then have "deliver C c (svc_StoreBlock st (Some sq)) e = (r, e')" by simp
  then show "net_rel st N base (conns, e) (conns, e')" using net_rel_deliver [OF StoreBlock_true] by blast
next
  fix ctx c fq e and fr :: "error + FindProviderResponse" and e' and conns :: "string \<rightharpoonup> string"
  assume "rt_FindProvider (cluster_rt st C) ctx c fq e = (fr, e')"
  then have "deliver C c (svc_FindProvider (local_rt C) (Some fq)) e = (fr, e')" by simp
  then show "net_rel st N base (conns, e) (conns, e')" using net_rel_deliver [OF handlers_true(2)] by blast
next
  fix ctx c gq e and gr :: "error + GetBlockResponse" and e' and conns :: "string \<rightharpoonup> string"
  assume "rt_GetBlock (cluster_rt st C) ctx c gq e = (gr, e')"
  then have "deliver C c (svc_GetBlock st (Some gq)) e = (gr, e')" by simp
  then show "net_rel st N base (conns, e) (conns, e')" using net_rel_deliver [OF handlers_true(1)] by blast
next
  fix ctx c pq e and pr :: "error + PingResponse" and e' and conns :: "string \<rightharpoonup> string"
  assume "rt_Ping (cluster_rt st C) ctx c pq e = (pr, e')"
  then have "deliver C c (svc_Ping (local_rt C) (Some pq)) e = (pr, e')" by (simp add: cluster_rt_def)
  then show "net_rel st N base (conns, e) (conns, e')" using net_rel_deliver [OF handlers_true(3)] by blast
qed (auto simp: net_rel_same, auto simp: net_rel_def)

section \<open>The bootstrap service\<close>

text \<open>The HTTP client of the nodes: requests to the service, which may be lost in either direction.\<close>

definition cluster_http :: "choices \<Rightarrow> string \<Rightarrow> 's cluster http_client" where
  "cluster_http C base meth url body e =
     (if ch_fate C base (cl_draws e) = RequestLost then (Inl unavailable, tick e)
      else case service_client base cl_service (\<lambda>s e. e\<lparr>cl_service := s\<rparr>) meth url body (tick e) of
             (r, e') \<Rightarrow> (if ch_fate C base (cl_draws e) = ReplyLost then Inl unavailable else r, e'))"

lemma bp_endpoint_simps [simp]:
  "ep_PeerId (bp_endpoint p) = bp_PeerID p" "ep_GrpcAddr (bp_endpoint p) = bp_GrpcAddr p"
  "ep_HttpAddr (bp_endpoint p) = bp_HttpAddr p" "bp_endpoint p = bp_endpoint q \<longleftrightarrow> p = q"
  by (cases p; cases q; simp add: bp_endpoint_def)+

lemma bp_endpoint_self [simp]: "bp_endpoint (self_peer h) = SelfEndpoint h"
  by (simp add: bp_endpoint_def self_peer_def SelfEndpoint_def)

lemma ascii_roster: "wire_ok N \<Longrightarrow> bp_endpoint p \<in> N \<Longrightarrow> ascii_peer p"
  by (auto simp: wire_ok_def ascii_peer_def dest!: bspec)

text \<open>There is room for everyone of the roster, and nobody displaces another.\<close>

lemma register_true:
  assumes "roster_ok N" "wire_ok N" "service_true N s" "bp_endpoint p \<in> N"
    and "bootstrap_serve (register_request p) s = (w, s')"
  shows "status_of w = 200 \<and> service_true N s' \<and> set (bs_peers s') = insert p (set (bs_peers s))"
proof -
  have in_N: "bp_endpoint q \<in> N" if "q \<in> set (bs_peers s)" for q using assms(3) that by (simp add: service_true_def)
  have same: "q = p" if "q \<in> set (bs_peers s)" "same_peer p q" for q
    using that rosterD(1-3) [OF assms(1) in_N [OF that(1)] assms(4)] by (auto simp: same_peer_def)
  have id: "bp_PeerID p \<noteq> []" "bp_GrpcAddr p \<noteq> []" using rosterD(4,5) [OF assms(1,4,4)] by simp_all
  show ?thesis
  proof (rule register_cases [OF ascii_roster [OF assms(2,4)] id assms(5)])
    fix before q after
    assume q: "bs_peers s = before @ q # after" "same_peer p q" "status_of w = 200" "bs_peers s' = before @ p # after"
    then have "q = p" using same by simp
    with q assms(3) show ?thesis by (auto simp: service_true_def)
  next
    assume new: "\<forall>x\<in>set (bs_peers s). \<not> same_peer p x"
    then have p: "p \<notin> set (bs_peers s)" by auto
    {
      assume "status_of w = 200" "bs_peers s' = bs_peers s @ [p]"
      then show ?thesis using assms(3,4) p by (auto simp: service_true_def)
    }
    assume full: "MaxNetworkPeers \<le> length (bs_peers s)"
    have "inj_on bp_endpoint (set (bs_peers s))" by (simp add: inj_on_def)
    then have "card (bp_endpoint ` set (bs_peers s)) = length (bs_peers s)"
      using assms(3) by (simp add: card_image distinct_card service_true_def)
    moreover have "bp_endpoint ` set (bs_peers s) \<subset> N" using in_N p assms(4) by fastforce
    then have "card (bp_endpoint ` set (bs_peers s)) < card N" using assms(1) by (intro psubset_card_mono) (simp_all add: roster_ok_def)
    ultimately show ?thesis using full assms(1) by (simp add: roster_ok_def)
  qed
qed

lemma net_true_service:
  assumes "net_true S N base e" "service_true N s" "set (bs_peers (cl_service e)) \<subseteq> set (bs_peers s)"
  shows "net_true S N base (e\<lparr>cl_service := s\<rparr>) \<and> net_evolves S e (e\<lparr>cl_service := s\<rparr>)"
  using assms by (simp add: net_true_def net_evolves_def)

lemma http_register:
  assumes "roster_ok N" "wire_ok N" "net_true S N base e" "bp_endpoint p \<in> N"
    and "cluster_http C base ''POST'' (base @ ''/v1/register'') (print_json (BootstrapPeer_json p)) e = (r, e')"
  shows "net_true S N base e' \<and> net_evolves S e e'"
    and "ch_fate C base (cl_draws e) = Answered \<Longrightarrow> p \<in> set (bs_peers (cl_service e'))"
proof -
  obtain w s' where w: "bootstrap_serve (register_request p) (cl_service e) = (w, s')" by (rule prod.exhaust)
  have "service_true N (cl_service e)" using assms(3) by (simp add: net_true_def)
  note k = register_true [OF assms(1,2) this assms(4) w]
  have t: "net_true S N base (tick e)" "net_evolves S e (tick e)" "cl_service (tick e) = cl_service e"
    using same_net_true(1,2) [of e "tick e"] assms(3) by simp_all
  have cases: "e' = tick e \<and> ch_fate C base (cl_draws e) = RequestLost \<or> e' = (tick e)\<lparr>cl_service := s'\<rparr>"
    using assms(5) w t(3)
    by (auto simp: cluster_http_def service_register split: if_splits simp del: print_json.simps)
  moreover have s': "net_true S N base ((tick e)\<lparr>cl_service := s'\<rparr>) \<and> net_evolves S (tick e) ((tick e)\<lparr>cl_service := s'\<rparr>)"
    using net_true_service [OF t(1), of s'] k t(3) by auto
  ultimately show "net_true S N base e' \<and> net_evolves S e e'"
    using t(1,2) net_evolves_trans [OF t(2)] by auto
  show "ch_fate C base (cl_draws e) = Answered \<Longrightarrow> p \<in> set (bs_peers (cl_service e'))" using cases k by auto
qed

lemma http_list:
  assumes "wire_ok N" "net_true S N base e"
    and "cluster_http C base ''GET'' (base @ ''/v1/peers'') [] e = (r, e')"
  shows "same_net e e'" "r = Inr (code, b) \<Longrightarrow> code = 200 \<and> Decode_peers b = Inr (bs_peers (cl_service e))"
    and "ch_fate C base (cl_draws e) = Answered \<Longrightarrow> \<exists>code b. r = Inr (code, b)"
proof -
  obtain w s' where w: "bootstrap_serve list_request (cl_service e) = (w, s')" by (rule prod.exhaust)
  note l = serve_list [OF w]
  have t: "cl_service (tick e) = cl_service e" by (simp add: tick_def)
  have a: "\<forall>p\<in>set (bs_peers (cl_service e)). ascii_peer p"
    using assms(2) ascii_roster [OF assms(1)] by (auto simp: net_true_def service_true_def)
  show "same_net e e'"
    using assms(3) w l t by (auto simp: cluster_http_def service_list same_net_def tick_def split: if_splits)
  show "r = Inr (code, b) \<Longrightarrow> code = 200 \<and> Decode_peers b = Inr (bs_peers (cl_service e))"
    using assms(3) w l t Decode_peers_print [OF a, of newline]
    by (auto simp: cluster_http_def service_list split: if_splits simp del: print_json.simps)
  show "ch_fate C base (cl_draws e) = Answered \<Longrightarrow> \<exists>code b. r = Inr (code, b)"
    using assms(3) w t by (auto simp: cluster_http_def service_list split: if_splits)
qed

section \<open>A round of discovery\<close>

definition knows :: "string \<Rightarrow> ('s, 'c) PeerHost \<Rightarrow> bool" where
  "knows i h \<longleftrightarrow> (\<exists>p. reg_peers (h_reg h) i = Some p \<and> rec_State p = StateActive)"

text \<open>What a round needs, and what each of its parts does to the node and to the network.\<close>

definition disc_ok ::
  "'s storage \<Rightarrow> PeerEndpoint set \<Rightarrow> string \<Rightarrow> ('s, string, 's cluster) node \<Rightarrow> bool" where
  "disc_ok S N base s \<longleftrightarrow>
     storage_ok S \<and> roster_ok N \<and> SelfEndpoint (fst s) \<in> N \<and> reg_true N (h_reg (fst s)) \<and>
     conns_ok (h_conns (fst s)) \<and> net_true S N base (snd (snd s))"

definition disc ::
  "'s storage \<Rightarrow> PeerEndpoint set \<Rightarrow> string \<Rightarrow> ('s, string, 's cluster) node \<Rightarrow> ('s, string, 's cluster) node \<Rightarrow> bool" where
  "disc S N base s t \<longleftrightarrow>
     (disc_ok S N base s \<longrightarrow>
        disc_ok S N base t \<and> same_but_reg (fst s) (fst t) \<and> fst (snd t) = fst (snd s) \<and>
        reg_evolves N (h_reg (fst s)) (h_reg (fst t)) \<and> net_evolves S (snd (snd s)) (snd (snd t)) \<and>
        (\<forall>i. knows i (fst s) \<longrightarrow> knows i (fst t)))"

lemma disc_refl [simp]: "disc S N base s s"
  by (simp add: disc_def)

lemma disc_trans:
  assumes "disc S N base s t" "disc S N base t u" shows "disc S N base s u"
  using assms same_but_reg_trans [of "fst s" "fst t" "fst u"]
    reg_evolves_trans [of N "h_reg (fst s)" "h_reg (fst t)" "h_reg (fst u)"]
    net_evolves_trans [of S "snd (snd s)" "snd (snd t)" "snd (snd u)"]
  unfolding disc_def by (metis (no_types))

lemma discD:
  assumes "disc S N base s t" "disc_ok S N base s"
  shows "disc_ok S N base t" "knows i (fst s) \<Longrightarrow> knows i (fst t)" "same_but_reg (fst s) (fst t)"
  using assms by (simp_all add: disc_def)

lemma disc_calls:
  assumes "disc_ok S N base (h, d, e) \<Longrightarrow> conns_ok conns \<and> net_true S N base e' \<and> net_evolves S e e'"
  shows "disc S N base (h, d, e) (h\<lparr>h_conns := conns\<rparr>, d, e')"
  using assms by (simp add: disc_def disc_ok_def SelfEndpoint_def knows_def)

lemma disc_upsert:
  assumes "rec_true N rec" "rec_State rec = StateActive"
    and u: "draw_Upsert (cluster_rt S C) rec (h_reg h) e = (ok, reg, e')"
  shows "disc S N base (h, d, e) (h\<lparr>h_reg := reg\<rparr>, d, e')"
    and "disc_ok S N base (h, d, e) \<Longrightarrow> ok \<and> knows (rec_ID rec) (h\<lparr>h_reg := reg\<rparr>)"
proof -
  have e': "same_net e e'" using u by (auto simp: draw_Upsert_def split: prod.splits)
  have kn: "ok \<and> knows (rec_ID rec) (h\<lparr>h_reg := reg\<rparr>) \<and> (\<forall>i. knows i h \<longrightarrow> knows i (h\<lparr>h_reg := reg\<rparr>)) \<and> reg_evolves N (h_reg h) reg"
    if d: "disc_ok S N base (h, d, e)"
  proof -
    have ok: "roster_ok N" "reg_true N (h_reg h)" using d by (simp_all add: disc_ok_def)
    obtain q where q: ok "rec_State q = rec_State rec" "reg_peers reg = (reg_peers (h_reg h))(rec_ID rec \<mapsto> q)"
      by (rule draw_Upsert_true [OF ok(1) assms(1) ok(2) u])
    then show ?thesis using assms(2) draw_Upsert_evolves [OF ok(1) assms(1) u] by (auto simp: knows_def)
  qed
  then show "disc_ok S N base (h, d, e) \<Longrightarrow> ok \<and> knows (rec_ID rec) (h\<lparr>h_reg := reg\<rparr>)" by blast
  have "reg_true N reg" if "disc_ok S N base (h, d, e)"
    using kn [OF that] that by (simp add: disc_ok_def reg_evolves_def)
  then show "disc S N base (h, d, e) (h\<lparr>h_reg := reg\<rparr>, d, e')"
    using kn same_net_true(1,2) [OF e'] by (simp add: disc_def disc_ok_def SelfEndpoint_def)
qed

lemma active_record_true: "ep \<in> N \<Longrightarrow> rec_true N (active_record ep now)"
  by (cases ep) (simp add: rec_true_def rec_endpoint_def active_record_def state_typed_def)

lemma active_record_simps [simp]:
  "rec_State (active_record ep now) = StateActive" "rec_ID (active_record ep now) = ep_PeerId ep"
  by (simp_all add: active_record_def)

lemma disc_merge_known:
  "\<forall>ep. Some ep \<in> set eps \<longrightarrow> ep \<in> N \<Longrightarrow> disc S N base s (merge_known (cluster_rt S C) eps s)"
proof (induction "cluster_rt S C" eps s rule: merge_known.induct)
  case (3 ep eps h d e)
  obtain ok reg e' where u: "draw_Upsert (cluster_rt S C) (active_record ep (rt_now (cluster_rt S C) e)) (h_reg h) e = (ok, reg, e')"
    by (rule prod_cases3)
  have ep: "ep \<in> N" using 3(3) by simp
  have rest: "\<forall>ep. Some ep \<in> set eps \<longrightarrow> ep \<in> N" using 3(3) by simp
  show ?case
  proof (cases "ep_PeerId ep = []")
    case False
    have "disc S N base (h, d, e) (h\<lparr>h_reg := reg\<rparr>, d, e')"
      by (rule disc_upsert(1) [OF active_record_true [OF ep] _ u]) simp
    from disc_trans [OF this 3(2) [OF False u [symmetric] refl rest]] False u show ?thesis by simp
  qed (use 3(1) rest in simp)
qed simp_all

lemma disc_join_peer: "disc S N base s (join_peer (cluster_rt S C) ctx addr s)"
proof -
  obtain h d e where s: "s = (h, d, e)" by (rule prod_cases3)
  let ?q = "\<lparr>jn_Self = Some (SelfEndpoint h)\<rparr>"
  obtain r conns e' where w: "with_client (cluster_rt S C) ctx (8 * second) addr
      (\<lambda>cctx cli e. rt_JoinNetwork (cluster_rt S C) cctx cli ?q e) (h_conns h, e) = (r, (conns, e'))" by (rule prod_cases3)
  let ?t = "(h\<lparr>h_conns := conns\<rparr>, d, e')"
  have call: "conns_ok conns \<and> deliver C addr (svc_JoinNetwork (local_rt C) (Some ?q)) e = (r, e')"
    if "disc_ok S N base (h, d, e)"
    by (rule cluster_callE [OF w]) (use that in \<open>simp_all add: disc_ok_def cluster_rt_def\<close>)
  have net: "conns_ok conns \<and> net_true S N base e' \<and> net_evolves S e e'" if d: "disc_ok S N base (h, d, e)"
  proof -
    have ok: "roster_ok N" "SelfEndpoint h \<in> N" "net_true S N base e" using d by (simp_all add: disc_ok_def)
    from deliver_true [OF JoinNetwork_true(1) [OF ok(1,2)] _ ok(3)] call [OF d] show ?thesis by blast
  qed
  have 1: "disc S N base s ?t" unfolding s by (rule disc_calls [OF net])
  have known: "ep \<in> N" if d: "disc_ok S N base (h, d, e)" and r: "r = Inr resp" "Some ep \<in> set (jnr_KnownPeers resp)" for resp ep
  proof -
    have ok: "roster_ok N" "SelfEndpoint h \<in> N" "net_true S N base e" using d by (simp_all add: disc_ok_def)
    have del: "deliver C addr (svc_JoinNetwork (local_rt C) (Some ?q)) e = (Inr resp, e')" using call [OF d] r(1) by simp
    obtain g dg t where g: "cl_nodes e addr = Some (g, dg)"
      "svc_JoinNetwork (local_rt C) (Some ?q) (g, dg, tick e) = (Inr resp, t)" by (rule deliverE [OF del])
    have "node_true S N base addr g dg" using ok(3) g(1) by (simp add: net_true_def)
    from JoinNetwork_true(2) [OF ok(1,2) g(2) this r(2)] show ?thesis .
  qed
  have merge: "disc S N base s (merge_known (cluster_rt S C) (jnr_KnownPeers resp) ?t)" if "r = Inr resp" for resp
  proof (cases "disc_ok S N base s")
    case True
    then show ?thesis using disc_trans [OF 1 disc_merge_known] known that s by simp
  qed (simp add: disc_def)
  show ?thesis using w 1 merge by (auto simp: s join_peer_def split: sum.split)
qed

lemma disc_merge_listed:
  assumes "\<forall>bp\<in>set bps. bp_endpoint bp \<in> N"
  shows "disc S N base s (merge_listed (cluster_rt S C) ctx bps s) \<and>
    (disc_ok S N base s \<longrightarrow> (\<forall>bp\<in>set bps. bp_PeerID bp \<noteq> h_SelfID (fst s) \<longrightarrow>
       knows (bp_PeerID bp) (fst (merge_listed (cluster_rt S C) ctx bps s))))"
  using assms
proof (induction bps arbitrary: s)
  case (Cons bp bps)
  obtain h d e where s: "s = (h, d, e)" by (rule prod_cases3)
  have bps: "\<forall>bp\<in>set bps. bp_endpoint bp \<in> N" and bp: "bp_endpoint bp \<in> N" using Cons.prems by simp_all
  let ?m = "\<lambda>s. merge_listed (cluster_rt S C) ctx bps s"
  show ?case
  proof (cases "bp_PeerID bp = [] \<or> bp_PeerID bp = h_SelfID h")
    case True
    have "bp_PeerID bp \<noteq> []" if "disc_ok S N base s"
      using that rosterD(4) [OF _ bp bp] by (simp add: disc_ok_def)
    with True Cons.IH [OF bps, of s] show ?thesis by (auto simp: s)
  next
    case False
    let ?rec = "active_record (bp_endpoint bp) (rt_now (cluster_rt S C) e)"
    obtain ok reg e' where u: "draw_Upsert (cluster_rt S C) ?rec (h_reg h) e = (ok, reg, e')" by (rule prod_cases3)
    let ?s = "(h\<lparr>h_reg := reg\<rparr>, d, e')"
    have 1: "disc S N base s ?s" unfolding s
      by (rule disc_upsert(1) [OF active_record_true [OF bp] _ u]) simp
    have k1: "ok \<and> knows (bp_PeerID bp) (fst ?s)" if "disc_ok S N base s"
      using disc_upsert(2) [OF active_record_true [OF bp] _ u] that by (simp add: s)
    obtain t where t: "t = ?s \<or> t = join_peer (cluster_rt S C) ctx (bp_GrpcAddr bp) ?s"
      "merge_listed (cluster_rt S C) ctx (bp # bps) s = ?m t"
      using False u
      by (intro that [of "if \<not> ok \<or> bp_GrpcAddr bp = [] then ?s else join_peer (cluster_rt S C) ctx (bp_GrpcAddr bp) ?s"])
        (auto simp: s Let_def bp_endpoint_def)
    have 2: "disc S N base ?s t" using t(1) disc_join_peer by auto
    note st = disc_trans [OF 1 2] and IH = Cons.IH [OF bps, of t]
    have "knows (bp_PeerID x) (fst (?m t))"
      if d: "disc_ok S N base s" and x: "x \<in> set (bp # bps)" "bp_PeerID x \<noteq> h_SelfID (fst s)" for x
    proof (cases "x = bp")
      case True
      have "knows (bp_PeerID bp) (fst t)" using k1 [OF d] discD(2) [OF 2 discD(1) [OF 1 d]] by blast
      then show ?thesis using True IH discD(1) [OF st d] discD(2) by blast
    next
      case False
      have "h_SelfID (fst t) = h_SelfID (fst s)" using same_but_reg_fields [OF discD(3) [OF st d]] by simp
      with x False IH discD(1) [OF st d] show ?thesis by auto
    qed
    with disc_trans [OF st] IH t(2) show ?thesis by simp
  qed
qed simp

lemma disc_world:
  assumes "disc_ok S N base (h, d, e) \<Longrightarrow> net_true S N base e' \<and> net_evolves S e e'"
  shows "disc S N base (h, d, e) (h, d, e')"
  using assms by (simp add: disc_def disc_ok_def)

lemma disc_register:
  assumes "wire_ok N" "h_Bootstrap h \<noteq> ''''" "TrimRight_slash (h_Bootstrap h) = base"
  obtains e' where "snd (registerBootstrap (cluster_http C base) (h, d, e)) = (h, d, e')"
    "disc S N base (h, d, e) (h, d, e')"
    "disc_ok S N base (h, d, e) \<Longrightarrow> ch_fate C base (cl_draws e) = Answered \<Longrightarrow> self_peer h \<in> set (bs_peers (cl_service e'))"
proof -
  obtain r e' where h: "cluster_http C base ''POST'' (base @ ''/v1/register'') (print_json (BootstrapPeer_json (self_peer h))) e = (r, e')"
    by (rule prod.exhaust)
  have "snd (registerBootstrap (cluster_http C base) (h, d, e)) = (h, d, e')"
    using h assms(2,3) by (auto simp: registerBootstrap_def self_peer_def Let_def simp del: print_json.simps split: sum.split prod.split)
  moreover have reg: "(net_true S N base e' \<and> net_evolves S e e') \<and>
      (ch_fate C base (cl_draws e) = Answered \<longrightarrow> self_peer h \<in> set (bs_peers (cl_service e')))" if d: "disc_ok S N base (h, d, e)"
  proof -
    have ok: "roster_ok N" "net_true S N base e" "bp_endpoint (self_peer h) \<in> N" using d by (simp_all add: disc_ok_def)
    from http_register [OF ok(1) assms(1) ok(2,3) h] show ?thesis by blast
  qed
  moreover have "disc S N base (h, d, e) (h, d, e')" by (rule disc_world) (use reg in blast)
  ultimately show thesis using that by blast
qed

lemma disc_merge:
  assumes "wire_ok N" "h_Bootstrap h \<noteq> ''''" "TrimRight_slash (h_Bootstrap h) = base"
    and "mergeBootstrapPeers (cluster_http C base) (cluster_rt S C) ctx (h, d, e) = (r, t)"
  shows "disc S N base (h, d, e) t"
    and "disc_ok S N base (h, d, e) \<Longrightarrow> ch_fate C base (cl_draws e) = Answered \<Longrightarrow>
      p \<in> set (bs_peers (cl_service e)) \<Longrightarrow> bp_PeerID p \<noteq> h_SelfID h \<Longrightarrow> knows (bp_PeerID p) (fst t)"
proof -
  obtain x e' where x: "cluster_http C base ''GET'' (base @ ''/v1/peers'') [] e = (x, e')" by (rule prod.exhaust)
  have main: "disc S N base (h, d, e) t \<and> (ch_fate C base (cl_draws e) = Answered \<longrightarrow>
      p \<in> set (bs_peers (cl_service e)) \<longrightarrow> bp_PeerID p \<noteq> h_SelfID h \<longrightarrow> knows (bp_PeerID p) (fst t))"
    if d: "disc_ok S N base (h, d, e)"
  proof -
    have net: "net_true S N base e" using d by (simp add: disc_ok_def)
    note l = http_list [OF assms(1) net x]
    have 1: "disc S N base (h, d, e) (h, d, e')"
      by (rule disc_world) (use net same_net_true(1,2) [OF l(1)] in simp)
    show ?thesis
    proof (cases x)
      case (Inl err)
      then have "t = (h, d, e')" using assms(2-4) x by (simp add: mergeBootstrapPeers_def)
      with 1 l(3) Inl show ?thesis by auto
    next
      case (Inr cb)
      obtain code b where cb: "cb = (code, b)" by (rule prod.exhaust)
      note d200 = l(2) [OF Inr [unfolded cb]]
      let ?bps = "bs_peers (cl_service e)"
      have t: "t = merge_listed (cluster_rt S C) ctx ?bps (h, d, e')"
        using assms(2-4) x Inr cb d200 by (simp add: mergeBootstrapPeers_def)
      have in_N: "\<forall>bp\<in>set ?bps. bp_endpoint bp \<in> N" using net by (simp add: net_true_def service_true_def)
      note m = disc_merge_listed [OF in_N, of S base "(h, d, e')" C ctx]
      have "disc_ok S N base (h, d, e')" using discD(1) [OF 1 d] .
      then have "p \<in> set ?bps \<Longrightarrow> bp_PeerID p \<noteq> h_SelfID h \<Longrightarrow> knows (bp_PeerID p) (fst t)"
        using m unfolding t by simp
      with disc_trans [OF 1] m t show ?thesis by blast
    qed
  qed
  then show "disc S N base (h, d, e) t" by (auto simp: disc_def)
  show "disc_ok S N base (h, d, e) \<Longrightarrow> ch_fate C base (cl_draws e) = Answered \<Longrightarrow>
      p \<in> set (bs_peers (cl_service e)) \<Longrightarrow> bp_PeerID p \<noteq> h_SelfID h \<Longrightarrow> knows (bp_PeerID p) (fst t)"
    using main by blast
qed

lemma disc_bootstrap_tick:
  assumes "wire_ok N" "h_Bootstrap h = '''' \<or> TrimRight_slash (h_Bootstrap h) = base"
  shows "disc S N base (h, d, e) (bootstrap_tick (cluster_http C base) (cluster_rt S C) ctx (h, d, e))"
    and "disc_ok S N base (h, d, e) \<Longrightarrow> h_Bootstrap h \<noteq> '''' \<Longrightarrow> \<forall>n. ch_fate C base n = Answered \<Longrightarrow>
      bootstrap_tick (cluster_http C base) (cluster_rt S C) ctx (h, d, e) = (h', d', e') \<Longrightarrow>
      self_peer h \<in> set (bs_peers (cl_service e')) \<and>
      (\<forall>p\<in>set (bs_peers (cl_service e)). bp_PeerID p \<noteq> h_SelfID h \<longrightarrow> knows (bp_PeerID p) h')"
proof -
  let ?tick = "bootstrap_tick (cluster_http C base) (cluster_rt S C) ctx (h, d, e)"
  have main: "disc S N base (h, d, e) ?tick \<and> (disc_ok S N base (h, d, e) \<longrightarrow> (\<forall>n. ch_fate C base n = Answered) \<longrightarrow>
      self_peer h \<in> set (bs_peers (cl_service (snd (snd ?tick)))) \<and>
      (\<forall>p\<in>set (bs_peers (cl_service e)). bp_PeerID p \<noteq> h_SelfID h \<longrightarrow> knows (bp_PeerID p) (fst ?tick)))"
    if url: "h_Bootstrap h \<noteq> ''''" "TrimRight_slash (h_Bootstrap h) = base"
  proof -
    obtain e1 where e1: "snd (registerBootstrap (cluster_http C base) (h, d, e)) = (h, d, e1)"
      and 1: "disc S N base (h, d, e) (h, d, e1)"
      and listed: "disc_ok S N base (h, d, e) \<Longrightarrow> ch_fate C base (cl_draws e) = Answered \<Longrightarrow> self_peer h \<in> set (bs_peers (cl_service e1))"
      by (rule disc_register [OF assms(1) url, of C d e S]) (rule that)
    obtain r t where t: "mergeBootstrapPeers (cluster_http C base) (cluster_rt S C) ctx (h, d, e1) = (r, t)" by (rule prod.exhaust)
    have tick: "?tick = t" using e1 t url(1) by (simp add: bootstrap_tick_def)
    note m = disc_merge [OF assms(1) url t]
    have "self_peer h \<in> set (bs_peers (cl_service (snd (snd t)))) \<and>
        (\<forall>p\<in>set (bs_peers (cl_service e)). bp_PeerID p \<noteq> h_SelfID h \<longrightarrow> knows (bp_PeerID p) (fst t))"
      if d: "disc_ok S N base (h, d, e)" and up: "\<forall>n. ch_fate C base n = Answered"
    proof -
      have ok1: "disc_ok S N base (h, d, e1)" using discD(1) [OF 1 d] .
      have "net_evolves S e e1" "net_evolves S e1 (snd (snd t))" using 1 m(1) d ok1 by (simp_all add: disc_def)
      then have sub: "set (bs_peers (cl_service e)) \<subseteq> set (bs_peers (cl_service e1))"
        "set (bs_peers (cl_service e1)) \<subseteq> set (bs_peers (cl_service (snd (snd t))))" by (simp_all add: net_evolves_def)
      show ?thesis using listed [OF d] m(2) [OF ok1] sub up by blast
    qed
    with disc_trans [OF 1 m(1)] tick show ?thesis by simp
  qed
  show "disc S N base (h, d, e) ?tick"
  proof (cases "h_Bootstrap h = ''''")
    case True
    then show ?thesis by (simp add: bootstrap_tick_def)
  qed (use main assms(2) in blast)
  show "disc_ok S N base (h, d, e) \<Longrightarrow> h_Bootstrap h \<noteq> '''' \<Longrightarrow> \<forall>n. ch_fate C base n = Answered \<Longrightarrow>
      ?tick = (h', d', e') \<Longrightarrow> self_peer h \<in> set (bs_peers (cl_service e')) \<and>
      (\<forall>p\<in>set (bs_peers (cl_service e)). bp_PeerID p \<noteq> h_SelfID h \<longrightarrow> knows (bp_PeerID p) h')"
    using main assms(2) by simp
qed

section \<open>The loops announce nothing\<close>

text \<open>The same nodes are up, each with the same provider records.\<close>

definition same_records :: "(string, 's cluster) net \<Rightarrow> (string, 's cluster) net \<Rightarrow> bool" where
  "same_records n m \<longleftrightarrow>
     (\<forall>a. map_option (\<lambda>x. h_providers (fst x)) (cl_nodes (snd m) a) = map_option (\<lambda>x. h_providers (fst x)) (cl_nodes (snd n) a))"

lemma deliver_same_records:
  assumes "\<And>h d e r h' d' e'. f (h, d, e) = (r, (h', d', e')) \<Longrightarrow> h_providers h' = h_providers h \<and> cl_nodes e' = cl_nodes e"
    and "deliver C a f e = (r, e')"
  shows "same_records (conns, e) (conns, e')"
proof (cases "cl_nodes e a")
  case (Some x)
  obtain h d where x: "x = (h, d)" by (rule prod.exhaust)
  obtain y h' d' e1 where y: "f (h, d, tick e) = (y, (h', d', e1))" by (rule prod_cases4)
  from assms(1) [OF y] assms(2) Some x y show ?thesis by (auto simp: deliver_def same_records_def split: if_splits)
qed (use assms(2) in \<open>auto simp: deliver_def same_records_def\<close>)

lemma cluster_http_nodes: "cluster_http C base meth u body e = (x, e') \<Longrightarrow> cl_nodes e' = cl_nodes e"
  by (auto simp: cluster_http_def service_client_def split: if_splits prod.splits)

interpretation quiet: loop_relation "cluster_rt st C" same_records "cluster_http C base"
  for st :: "'x storage" and C :: choices and base :: string
proof unfold_locales
  fix ctx c pq e and pr :: "error + PingResponse" and e' and conns :: "string \<rightharpoonup> string"
  assume "rt_Ping (cluster_rt st C) ctx c pq e = (pr, e')"
  then have "deliver C c (svc_Ping (local_rt C) (Some pq)) e = (pr, e')" by (simp add: cluster_rt_def)
  then show "same_records (conns, e) (conns, e')"
    by (rule deliver_same_records [rotated]) (auto simp: svc_Ping_def split: if_splits prod.splits)
next
  fix ctx c jq e and jr :: "error + JoinNetworkResponse" and e' and conns :: "string \<rightharpoonup> string"
  assume "rt_JoinNetwork (cluster_rt st C) ctx c jq e = (jr, e')"
  then have "deliver C c (svc_JoinNetwork (local_rt C) (Some jq)) e = (jr, e')" by (simp add: cluster_rt_def)
  then show "same_records (conns, e) (conns, e')"
    by (rule deliver_same_records [rotated])
      (auto simp: svc_JoinNetwork_def draw_Upsert_def draw_Snapshot_def Let_def split: option.splits if_splits prod.splits bool.splits)
next
  fix meth u body e x e' and conns :: "string \<rightharpoonup> string"
  assume "cluster_http C base meth u body e = (x, e' :: 'x cluster)"
  then show "same_records (conns, e) (conns, e')" using cluster_http_nodes [of C base meth u body e x e'] by (simp add: same_records_def)
qed (auto simp: same_records_def)

lemma same_records_net_of: "same_records (net_of s) (net_of t) \<Longrightarrow> same_records (conns, snd (snd s)) (conns', snd (snd t))"
  by (simp add: same_records_def net_of_def)

lemma same_records_up: "same_records n m \<Longrightarrow> cl_nodes (snd m) a = None \<longleftrightarrow> cl_nodes (snd n) a = None"
  by (simp add: same_records_def) (metis option.map_disc_iff)

end
