(* ===== verification/NetworkRun.thy ===== *)
theory NetworkRun
  imports Network
begin

text \<open>
  The network of \<open>Network\<close> in operation: nodes start, stop, serve their users and run their
  loops, in any order and with any losses. What every node then knows is true, no peer is
  forgotten while a node stays up, and peers find each other through the bootstrap service.
\<close>

section \<open>The steps of a node\<close>

text \<open>
  What a node does of its own accord: the requests of its users, and the rounds of its loops.
  What its peers ask of it is part of their steps. Files that are not blocks may change.
\<close>

inductive own_step ::
  "'s storage \<Rightarrow> os \<Rightarrow> choices \<Rightarrow> string \<Rightarrow> ('s, string, 's cluster) node \<Rightarrow> ('s, string, 's cluster) node \<Rightarrow> bool"
  for S os C base where
  own_http: "api_serve S os (cluster_rt S C) R ctx conn form r s = Returned (w, s') \<Longrightarrow> own_step S os C base s s'"
| own_upload: "store_upload S os (cluster_rt S C) ctx content s = (tmp, x, s') \<Longrightarrow> own_step S os C base s s'"
| own_bootstrap: "own_step S os C base s (bootstrap_tick (cluster_http C base) (cluster_rt S C) ctx s)"
| own_heartbeat: "own_step S os C base s (heartbeat_tick (cluster_rt S C) ctx s)"
| own_cleanup: "is_order ks (reg_peers (h_reg (fst s))) \<Longrightarrow> (\<And>i p. prov_wf p \<Longrightarrow> is_order (ord i p) p) \<Longrightarrow>
    own_step S os C base s (cleanup_round ks ord (cluster_rt S C) s)"
| own_files: "\<not> block_path path \<Longrightarrow> own_step S os C base (h, d, e) (h, d(path := x), e)"

text \<open>
  The steps of a network whose nodes take the steps of \<open>P\<close>. A node in the middle of a step of
  its own answers nobody. The service may be started again; while it is down the requests to it
  are lost.
\<close>

definition without :: "string \<Rightarrow> 's cluster \<Rightarrow> 's cluster" where
  "without a e = e\<lparr>cl_nodes := (cl_nodes e)(a := None)\<rparr>"

definition with_node :: "string \<Rightarrow> ('s, string, 's cluster) node \<Rightarrow> 's cluster" where
  "with_node a s = (snd (snd s))\<lparr>cl_nodes := (cl_nodes (snd (snd s)))(a \<mapsto> (fst s, fst (snd s)))\<rparr>"

inductive net_move ::
  "'s storage \<Rightarrow> os \<Rightarrow> PeerEndpoint set \<Rightarrow> string \<Rightarrow>
   (choices \<Rightarrow> ('s, string, 's cluster) node \<Rightarrow> ('s, string, 's cluster) node \<Rightarrow> bool) \<Rightarrow> 's cluster \<Rightarrow> 's cluster \<Rightarrow> bool"
  for S os N base P where
  net_own: "choices_ok C \<Longrightarrow> cl_nodes e a = Some (h, d) \<Longrightarrow> P C (h, d, without a e) s \<Longrightarrow>
    net_move S os N base P e (with_node a s)"
| net_stop: "net_move S os N base P e (without a e)"
| net_start: "choices_ok C \<Longrightarrow> cl_nodes e a = None \<Longrightarrow>
    NewPeerHost S os (local_rt C) False rand cfg d e = (Inr h, d', e') \<Longrightarrow>
    SelfEndpoint h \<in> N \<Longrightarrow> h_GrpcAddr h = a \<Longrightarrow> h_Bootstrap h = '''' \<or> TrimRight_slash (h_Bootstrap h) = base \<Longrightarrow>
    view_sound S (view S (h_store h) d') \<Longrightarrow>
    net_move S os N base P e (with_node a (h, d', e'))"
| net_reboot: "bootstrap_main listen env redis = Inr b \<Longrightarrow> net_move S os N base P e (e\<lparr>cl_service := b\<rparr>)"

abbreviation net_step ::
  "'s storage \<Rightarrow> os \<Rightarrow> PeerEndpoint set \<Rightarrow> string \<Rightarrow> 's cluster \<Rightarrow> 's cluster \<Rightarrow> bool" where
  "net_step S os N base \<equiv> net_move S os N base (\<lambda>C. own_step S os C base)"

definition net_init :: "'s cluster \<Rightarrow> bool" where
  "net_init e \<longleftrightarrow> cl_nodes e = Map.empty \<and> bs_peers (cl_service e) = []"

lemma cl_nodes_simps [simp]:
  "cl_nodes (without a e) = (cl_nodes e)(a := None)" "cl_service (without a e) = cl_service e"
  "cl_nodes (with_node a (h, d, e)) = (cl_nodes e)(a \<mapsto> (h, d))" "cl_service (with_node a (h, d, e)) = cl_service e"
  by (simp_all add: without_def with_node_def)

section \<open>The invariant\<close>

definition net_env :: "'s storage \<Rightarrow> os \<Rightarrow> PeerEndpoint set \<Rightarrow> bool" where
  "net_env S os N \<longleftrightarrow> storage_ok S \<and> temp_files_ok os \<and> roster_ok N \<and> wire_ok N"

text \<open>A step of a node keeps the node and the rest of the network true.\<close>

definition step_true ::
  "'s storage \<Rightarrow> PeerEndpoint set \<Rightarrow> string \<Rightarrow> string \<Rightarrow> ('s, string, 's cluster) node \<Rightarrow> ('s, string, 's cluster) node \<Rightarrow> bool" where
  "step_true S N base a s t \<longleftrightarrow>
     node_true S N base a (fst t) (fst (snd t)) \<and> node_evolves S (fst s, fst (snd s)) (fst t, fst (snd t)) \<and>
     net_true S N base (snd (snd t)) \<and> net_evolves S (snd (snd s)) (snd (snd t))"

lemma step_true_request:
  assumes "net_env S os N" "node_true S N base a h d" "net_true S N base e"
    and "local_step S (h, d, e) t" "calls_net (net_rel S N base) (h, d, e) t"
  shows "step_true S N base a (h, d, e) t"
proof -
  obtain h' d' e' where t: "t = (h', d', e')" by (rule prod_cases3)
  have rdb: "reg_rdb (h_reg h) = None" "conns_ok (h_conns h)" using assms(2) by (simp_all add: node_true_def)
  then have n: "net_rel S N base (h_conns h, e) (h_conns h', e')" using assms(5) by (simp add: calls_net_def t)
  then have conns: "conns_ok (h_conns h')" using rdb(2) by (simp add: net_rel_def)
  have l: "local_change h h'" "keeps S (h, d, e) (h', d', e')" using assms(4) by (simp_all add: local_step_def t)
  have "roster_ok N" using assms(1) by (simp add: net_env_def)
  from node_true_local [OF this assms(2) l(1) keeps_any_world [OF l(2)] conns] n assms(1,3)
  show ?thesis by (simp add: step_true_def t net_rel_def net_env_def)
qed

lemma ping_peers_evolves: "reg_evolves N (h_reg h) (h_reg (fst (ping_peers rt ctx recs (h, d, e))))"
proof (induction recs arbitrary: h e)
  case (Cons rec recs)
  obtain x conns e' where w: "with_client rt ctx (3 * second) (rec_GrpcAddr rec)
      (\<lambda>cctx cli e. rt_Ping rt cctx cli \<lparr>ping_PeerId = h_SelfID h\<rparr> e) (h_conns h, e) = (x, (conns, e'))" by (rule prod_cases3)
  let ?reg = "Touch (rt_now rt e') (rec_ID rec) (h_reg h)"
  have "reg_evolves N (h_reg h) (h_reg (fst (ping_peers rt ctx recs (h\<lparr>h_conns := conns, h_reg := ?reg\<rparr>, d, e'))))"
    by (rule reg_evolves_trans [OF reg_evolves_Touch])
      (use Cons.IH [of "h\<lparr>h_conns := conns, h_reg := ?reg\<rparr>" e'] in simp)
  then show ?case using Cons.IH [of h e] Cons.IH [of "h\<lparr>h_conns := conns\<rparr>" e'] w by (simp split: sum.split)
qed simp

lemma heartbeat_evolves: "reg_evolves N (h_reg (fst s)) (h_reg (fst (heartbeat_tick rt ctx s)))"
proof -
  obtain h d e where s: "s = (h, d, e)" by (rule prod_cases3)
  let ?r1 = "Touch (rt_now rt e) (h_SelfID h) (h_reg h)"
  obtain ks e1 where ks: "rt_range rt (dom (reg_peers ?r1)) e = (ks, e1)" by (rule prod.exhaust)
  let ?r2 = "Sweep ks (rt_now rt e) (h_rtm h) ?r1"
  obtain recs e2 where recs: "draw_Snapshot rt ?r2 e1 = (recs, e2)" by (rule prod.exhaust)
  have "reg_evolves N (h_reg h) ?r2" by (rule reg_evolves_trans [OF reg_evolves_Touch reg_evolves_Sweep])
  from reg_evolves_trans [OF this] ping_peers_evolves [of N "h\<lparr>h_reg := ?r2\<rparr>" rt ctx recs d e2] ks recs
  show ?thesis by (simp add: s heartbeat_tick_def Let_def)
qed

text \<open>A step that changes the registry only.\<close>

lemma step_true_reg:
  assumes "node_true S N base a (fst s) (fst (snd s))" "same_but_reg (fst s) (fst t)" "fst (snd t) = fst (snd s)"
    and "conns_ok (h_conns (fst t))" "reg_evolves N (h_reg (fst s)) (h_reg (fst t))"
    and "net_true S N base (snd (snd t))" "net_evolves S (snd (snd s)) (snd (snd t))"
  shows "step_true S N base a s t"
  using node_true_reg [OF assms(1,2,4,5)] assms(3,6,7) by (simp add: step_true_def)

lemma step_true_heartbeat:
  assumes "net_env S os N" "node_true S N base a h d" "net_true S N base e"
  shows "step_true S N base a (h, d, e) (heartbeat_tick (cluster_rt S C) ctx (h, d, e))"
proof -
  obtain h' d' e' where t: "heartbeat_tick (cluster_rt S C) ctx (h, d, e) = (h', d', e')" by (rule prod_cases3)
  have "net_rel S N base (h_conns h, e) (h_conns h', e')"
    using net.R_heartbeat [of S N base "(h, d, e)" C ctx] t by simp
  moreover have "reg_only (h, d, e) (h', d', e')" using heartbeat_reg [of "(h, d, e)" "cluster_rt S C" ctx] t by simp
  moreover have "reg_evolves N (h_reg h) (h_reg h')" using heartbeat_evolves [of N "(h, d, e)" "cluster_rt S C" ctx] t by simp
  ultimately show ?thesis
    using assms t by (intro step_true_reg) (simp_all add: reg_only_def net_rel_def net_env_def node_true_def)
qed

lemma step_true_bootstrap:
  assumes "net_env S os N" "node_true S N base a h d" "net_true S N base e"
  shows "step_true S N base a (h, d, e) (bootstrap_tick (cluster_http C base) (cluster_rt S C) ctx (h, d, e))"
proof -
  have "disc_ok S N base (h, d, e)"
    using assms by (simp add: disc_ok_def net_env_def node_true_def)
  moreover have "disc S N base (h, d, e) (bootstrap_tick (cluster_http C base) (cluster_rt S C) ctx (h, d, e))"
    by (rule disc_bootstrap_tick(1)) (use assms(1,2) in \<open>simp_all add: net_env_def node_true_def\<close>)
  ultimately show ?thesis using assms(2) by (intro step_true_reg) (simp_all add: disc_def disc_ok_def)
qed

text \<open>A cleanup never drops what the node announces itself.\<close>

lemma step_true_cleanup:
  assumes "net_env S os N" "node_true S N base a h d" "net_true S N base e"
    and ord: "is_order ks (reg_peers (h_reg h))" "\<And>i p. prov_wf p \<Longrightarrow> is_order (ord i p) p"
  shows "step_true S N base a (h, d, e) (cleanup_round ks ord rt (h, d, e))"
proof -
  obtain reg provs where c: "cleanup_tick ks ord (rt_now rt e) (h_reg h, h_providers h) = (reg, provs)" by (rule prod.exhaust)
  let ?h = "h\<lparr>h_reg := reg, h_providers := provs\<rparr>"
  have wf: "prov_wf (h_providers h)" "reg_wf (h_reg h)" using assms(2) by (simp_all add: node_true_def node_ok_def)
  let ?ids = "map rec_ID (filter (expired (rt_now rt e) (reg_self (h_reg h))) (Snapshot ks (h_reg h)))"
  have "provs = purge ord ?ids (h_providers h)" using c by (simp add: cleanup_tick_split)
  then have abs: "prov_abs provs = {t \<in> prov_abs (h_providers h). fst (snd t) \<notin> set ?ids}"
    using prov_abs_purge [where ids = ?ids, OF ord(2) wf(1)] by simp
  have "reg_self (h_reg h) = h_SelfID h" "own_records h" using assms(2) by (simp_all add: node_true_def)
  then have same: "prov_abs provs = prov_abs (h_providers h)"
    unfolding abs by (auto simp: own_records_def expired_def)
  have "node_ok S (h, d, e)" using assms(2) by (simp add: node_true_def node_ok_def node_view_def)
  from node_ok_cleanup [OF this, of ks ord rt] c
  have ok: "node_ok S (?h, d, ())" and k: "keeps S (h, d, ()) (?h, d, ())"
    by (simp_all add: cleanup_round_def node_ok_def node_view_def keeps_def)
  have ev: "reg_evolves N (h_reg h) reg" using reg_evolves_cleanup [of N "h_reg h" ks ord "rt_now rt e" "h_providers h"] c by simp
  have ep: "SelfEndpoint ?h = SelfEndpoint h" by (simp add: SelfEndpoint_def)
  then have "own_records ?h" using \<open>own_records h\<close> same by (simp add: own_records_def)
  then have "node_true S N base a ?h d" using assms(2) ok ev ep by (simp add: node_true_def reg_evolves_def)
  moreover have "grows S (h, d) (?h, d)"
    using k ok same by (simp add: grows_def announces_def known_at_def SelfEndpoint_def node_ok_def)
  ultimately show ?thesis
    using assms(2,3) c ev
    by (simp add: step_true_def cleanup_round_def node_evolves_def node_true_def reg_evolves_def)
qed

lemma step_true_files:
  assumes "net_env S os N" "node_true S N base a h d" "net_true S N base e" "\<not> block_path path"
  shows "step_true S N base a (h, d, e) (h, d(path := x), e)"
proof -
  have ok: "storage_ok S" using assms(1) by (simp add: net_env_def)
  have k: "keeps S (h, d, e) (h, d(path := x), e)" by (rule keeps_disk [OF ok assms(4)])
  have "local_step S (h, d, e) (h, d(path := x), e)" using k by (simp add: local_step_def)
  moreover have "calls_net (net_rel S N base) (h, d, e) (h, d(path := x), e)" by (simp add: calls_net_def net.R_refl)
  ultimately show ?thesis by (rule step_true_request [OF assms(1-3)])
qed

lemma own_step_true:
  assumes "net_env S os N" "node_true S N base a h d" "net_true S N base e" "own_step S os C base (h, d, e) t"
  shows "step_true S N base a (h, d, e) t"
proof -
  have ok: "storage_ok S" "temp_files_ok os" using assms(1) by (simp_all add: net_env_def)
  from assms(4) show ?thesis
  proof cases
    case (own_http R ctx conn form r w)
    show ?thesis
      by (rule step_true_request [OF assms(1-3) api_serve_local [OF ok own_http] net.req.T_api_serve [OF own_http]])
  next
    case (own_upload ctx content tmp x)
    show ?thesis
      by (rule step_true_request [OF assms(1-3) store_upload_local [OF ok own_upload] net.req.T_store_upload(1) [OF own_upload]])
  next
    case (own_cleanup ks ord)
    then show ?thesis using step_true_cleanup [OF assms(1-3), of ks ord] by simp
  qed (use step_true_bootstrap [OF assms(1-3)] step_true_heartbeat [OF assms(1-3)] step_true_files [OF assms(1-3)] in auto)
qed

lemma net_true_without: "net_true S N base e \<Longrightarrow> net_true S N base (without a e)"
  by (simp add: net_true_def)

lemma net_true_with:
  "node_true S N base a (fst s) (fst (snd s)) \<Longrightarrow> net_true S N base (snd (snd s)) \<Longrightarrow> net_true S N base (with_node a s)"
  by (cases s) (simp add: net_true_def)

text \<open>A node that starts knows itself and announces nothing.\<close>

lemma start_true:
  assumes "net_env S os N" "NewPeerHost S os (local_rt C) False rand cfg d e = (Inr h, d', e')"
    and "SelfEndpoint h \<in> N" "h_Bootstrap h = '''' \<or> TrimRight_slash (h_Bootstrap h) = base" "view_sound S (view S (h_store h) d')"
  shows "node_true S N base (h_GrpcAddr h) h d'" "same_net e e'" "h_providers h = NewProviderRecords"
proof -
  obtain r d1 where l: "loadOrCreatePeerID os rand (Join [cfg_DataDir cfg, ''peer.id'']) d = (r, d1)" by (rule prod.exhaust)
  with assms(2) obtain pid where r: "r = Inr pid" by (cases r) (auto simp: NewPeerHost_def split: if_splits option.splits)
  let ?rec = "\<lparr>rec_ID = pid, rec_GrpcAddr = cfg_GrpcListenAddr cfg, rec_HttpAddr = cfg_HTTPListenAddr cfg,
      rec_State = StateActive, rec_LastSeen = rt_now (local_rt C) e, rec_JoinedAt = 0\<rparr>"
  obtain ok reg e1 where u: "draw_Upsert (local_rt C) ?rec (NewRegistry False pid) e = (ok, reg, e1)" by (rule prod_cases3)
  from assms(2) l r u have f: "e' = e1" "h_SelfID h = pid" "h_GrpcAddr h = cfg_GrpcListenAddr cfg"
    "h_HTTPAddr h = cfg_HTTPListenAddr cfg" "h_reg h = reg" "h_conns h = NewPool" "h_providers h = NewProviderRecords"
    by (auto simp: NewPeerHost_def split: if_splits option.splits sum.splits prod.splits)
  show "h_providers h = NewProviderRecords" using f by simp
  show "same_net e e'" using draw_local(1) [OF u] f by simp
  have ok: "storage_ok S" "roster_ok N" using assms(1) by (simp_all add: net_env_def)
  have rec: "rec_true N ?rec" using assms(3) f by (simp add: rec_true_def rec_endpoint_def SelfEndpoint_def state_typed_def)
  have "reg_true N (NewRegistry False pid)" by (simp add: reg_true_def reg_wf_def NewRegistry_def)
  with draw_Upsert_evolves [OF ok(2) rec u] have reg: "reg_true N reg" "reg_self reg = pid" "reg_rdb reg = None"
    by (simp_all add: reg_evolves_def NewRegistry_def)
  have "node_ok S (h, d', ())"
  proof (rule NewPeerHost_start [OF ok(1) assms(2)])
    fix d2 assume "NewStore S (cfg_DataDir cfg) d2 = (Inr (h_store h), d')" "h_DataDir h = cfg_DataDir cfg"
      "h_providers h = NewProviderRecords" "reg_wf (h_reg h)" "reg_max (h_reg h) = MaxNetworkPeers"
    then show ?thesis using assms(5) ex_node_ok(2) by (auto simp: node_ok_def node_view_def)
  qed
  moreover have "own_records h" using f(7) by (simp add: own_records_def prov_abs_def NewProviderRecords_def)
  ultimately show "node_true S N base (h_GrpcAddr h) h d'"
    using assms(3,4) f reg by (simp add: node_true_def conns_ok_def NewPool_def)
qed

definition keeps_true ::
  "'s storage \<Rightarrow> PeerEndpoint set \<Rightarrow> string \<Rightarrow>
   (choices \<Rightarrow> ('s, string, 's cluster) node \<Rightarrow> ('s, string, 's cluster) node \<Rightarrow> bool) \<Rightarrow> bool" where
  "keeps_true S N base P \<longleftrightarrow>
     (\<forall>C a h d e t. node_true S N base a h d \<longrightarrow> net_true S N base e \<longrightarrow> P C (h, d, e) t \<longrightarrow> step_true S N base a (h, d, e) t)"

lemma own_keeps_true: "net_env S os N \<Longrightarrow> keeps_true S N base (\<lambda>C. own_step S os C base)"
  unfolding keeps_true_def using own_step_true by blast

lemma keeps_trueD:
  assumes "keeps_true S N base P" "net_true S N base e" "cl_nodes e a = Some (h, d)" "P C (h, d, without a e) s"
  shows "step_true S N base a (h, d, without a e) s"
proof -
  have "node_true S N base a h d" using assms(2,3) by (simp add: net_true_def)
  with assms(1,4) net_true_without [OF assms(2)] show ?thesis unfolding keeps_true_def by blast
qed

lemma rebooted: "bootstrap_main listen env redis = Inr b \<Longrightarrow> b = NewBootstrap redis"
  by (simp add: bootstrap_main_def split: option.splits)

lemma net_move_true:
  assumes "net_env S os N" "keeps_true S N base P" "net_true S N base e" "net_move S os N base P e e'"
  shows "net_true S N base e'"
  using assms(4)
proof cases
  case (net_own C a h d s)
  from keeps_trueD [OF assms(2,3) net_own(3,4)] net_own(1) show ?thesis by (simp add: step_true_def net_true_with)
next
  case (net_start C a rand cfg d h d' e1)
  note t = start_true [OF assms(1) net_start(4,5,7,8)]
  have "net_true S N base e1" using same_net_true(1) [OF t(2)] assms(3) by simp
  with t(1) net_start(1,6) show ?thesis by (simp add: net_true_with)
next
  case (net_reboot listen env redis b)
  then show ?thesis using assms(3) rebooted [OF net_reboot(2)] by (simp add: net_true_def service_true_def NewBootstrap_def)
qed (use net_true_without [OF assms(3)] in simp)

lemma net_step_true:
  "net_env S os N \<Longrightarrow> net_true S N base e \<Longrightarrow> net_step S os N base e e' \<Longrightarrow> net_true S N base e'"
  by (rule net_move_true [OF _ own_keeps_true])

lemma net_init_true: "net_init e \<Longrightarrow> net_true S N base e"
  by (simp add: net_init_def net_true_def service_true_def)

interpretation network: invariant_machine net_init "net_step S os N base" "\<lambda>e. net_env S os N \<longrightarrow> net_true S N base e"
  for S :: "'x storage" and os :: os and N :: "PeerEndpoint set" and base :: string
  by unfold_locales (use net_init_true net_step_true in blast)+

lemma network_reach:
  "net_env S os N \<Longrightarrow> reach net_init (net_step S os N base) e \<Longrightarrow> net_true S N base e"
  using network.reach_inv by blast

text \<open>
  C7. Everything a node of a closed network believes is true. Whatever the nodes do, in any
  order, whatever messages are lost, and however often nodes and the service stop and start: every record in
  a registry is that of a member of the network, under its own id and with its true addresses,
  and its state is one of the three of the type; every provider record of a node names the
  node itself with its own addresses; the bootstrap service lists members only, each once; and
  every block in a store is the one its id names.
\<close>

theorem network_truthful:
  assumes "net_env S os N" "reach net_init (net_step S os N base) e" "cl_nodes e a = Some (h, d)"
  shows "(\<forall>i p. reg_peers (h_reg h) i = Some p \<longrightarrow>
      rec_ID p = i \<and> rec_endpoint p \<in> N \<and> rec_State p \<in> {StateActive, StateInactive, StateLeft}) \<and>
    (\<forall>c i ep. (c, i, ep) \<in> prov_abs (h_providers h) \<longrightarrow> ep = SelfEndpoint h) \<and>
    distinct (bs_peers (cl_service e)) \<and> bp_endpoint ` set (bs_peers (cl_service e)) \<subseteq> N \<and>
    (\<forall>c b. store_Get S (h_store h) c d = Inr b \<longrightarrow> NewCID S b = c)"
proof -
  have net: "net_true S N base e" by (rule network_reach [OF assms(1,2)])
  then have n: "node_true S N base a h d" using assms(3) by (simp add: net_true_def)
  then have t: "reg_true N (h_reg h)" "own_records h" "view_sound S (view S (h_store h) d)"
    by (simp_all add: node_true_def node_ok_def node_view_def)
  have "rec_ID p = i \<and> rec_endpoint p \<in> N \<and> rec_State p \<in> {StateActive, StateInactive, StateLeft}"
    if "reg_peers (h_reg h) i = Some p" for i p
    using reg_trueD(3) [OF t(1) that] by (auto simp: rec_true_def state_typed_def)
  moreover have "distinct (bs_peers (cl_service e)) \<and> bp_endpoint ` set (bs_peers (cl_service e)) \<subseteq> N"
    using net by (auto simp: net_true_def service_true_def)
  ultimately show ?thesis using t(2,3) by (auto simp: own_records_def view_sound_def store_Get_view)
qed

section \<open>What lasts\<close>

text \<open>A node only grows while it stays up, and so does the list of the service until it is restarted.\<close>

definition goes_on :: "'s storage \<Rightarrow> string \<Rightarrow> 's cluster \<Rightarrow> 's cluster \<Rightarrow> bool" where
  "goes_on S b e e' \<longleftrightarrow> (\<forall>x y. cl_nodes e b = Some x \<longrightarrow> cl_nodes e' b = Some y \<longrightarrow> node_evolves S x y)"

definition lists_on :: "'s cluster \<Rightarrow> 's cluster \<Rightarrow> bool" where
  "lists_on e e' \<longleftrightarrow> set (bs_peers (cl_service e)) \<subseteq> set (bs_peers (cl_service e'))"

lemma step_true_goes_on:
  assumes "cl_nodes e a = Some (h, d)" "step_true S N base a (h, d, without a e) s"
  shows "goes_on S b e (with_node a s)" "lists_on e (with_node a s)"
proof -
  obtain h' d' e' where s: "s = (h', d', e')" by (rule prod_cases3)
  have ev: "net_evolves S (without a e) e'" "node_evolves S (h, d) (h', d')" using assms(2) by (simp_all add: step_true_def s)
  have "node_evolves S x y" if "cl_nodes e b = Some x" "cl_nodes e' b = Some y" "a \<noteq> b" for x y
  proof -
    have "cl_nodes (without a e) b = Some x" using that by simp
    then obtain z where "cl_nodes e' b = Some z" "node_evolves S x z" using ev(1) unfolding net_evolves_def by blast
    with that show ?thesis by simp
  qed
  then show "goes_on S b e (with_node a s)" using assms(1) ev by (auto simp: goes_on_def s)
  show "lists_on e (with_node a s)" using ev(1) by (simp add: lists_on_def net_evolves_def s)
qed

lemma net_step_goes_on:
  assumes "net_env S os N" "net_true S N base e" "net_step S os N base e e'"
  shows "goes_on S b e e' \<and> (lists_on e e' \<or> (\<exists>redis. cl_service e' = NewBootstrap redis))"
  using assms(3)
proof cases
  case (net_own C a h d s)
  from step_true_goes_on [OF net_own(3) keeps_trueD [OF own_keeps_true [OF assms(1)] assms(2) net_own(3,4)]] net_own(1)
  show ?thesis by simp
next
  case (net_start C a rand cfg d h d' e1)
  from start_true(2) [OF assms(1) net_start(4,5,7,8)] net_start(1,3)
  show ?thesis by (simp add: goes_on_def lists_on_def same_net_def)
next
  case (net_reboot listen env redis b)
  then show ?thesis using rebooted [OF net_reboot(2)] by (auto simp: goes_on_def)
qed (simp add: goes_on_def lists_on_def)

text \<open>A run during which the node at an address stays up.\<close>

definition net_up :: "'s storage \<Rightarrow> os \<Rightarrow> PeerEndpoint set \<Rightarrow> string \<Rightarrow> string \<Rightarrow> 's cluster \<Rightarrow> 's cluster \<Rightarrow> bool" where
  "net_up S os N base b e e' \<longleftrightarrow> net_step S os N base e e' \<and> cl_nodes e' b \<noteq> None"

text \<open>A run during which the service loses nobody from its list: it is not restarted.\<close>

definition net_settled :: "'s storage \<Rightarrow> os \<Rightarrow> PeerEndpoint set \<Rightarrow> string \<Rightarrow> 's cluster \<Rightarrow> 's cluster \<Rightarrow> bool" where
  "net_settled S os N base e e' \<longleftrightarrow> net_step S os N base e e' \<and> lists_on e e'"

lemma network_run:
  assumes "net_env S os N" "(net_settled S os N base)\<^sup>*\<^sup>* e e'" "net_true S N base e"
  shows "net_true S N base e' \<and> set (bs_peers (cl_service e)) \<subseteq> set (bs_peers (cl_service e'))"
  using assms(2)
proof induction
  case (step f g)
  then have "net_true S N base g" "set (bs_peers (cl_service f)) \<subseteq> set (bs_peers (cl_service g))"
    using net_step_true [OF assms(1)] unfolding net_settled_def lists_on_def by blast+
  with step.IH show ?case by blast
qed (simp add: assms(3))

text \<open>Every step but a restart of the service is part of such a run.\<close>

lemma net_step_settled:
  assumes "net_env S os N" "net_true S N base e" "net_step S os N base e e'"
  shows "net_settled S os N base e e' \<or> (\<exists>redis. cl_service e' = NewBootstrap redis)"
  using net_step_goes_on [OF assms] assms(3) by (simp add: net_settled_def)

lemma network_run_up:
  assumes "net_env S os N" "(net_up S os N base b)\<^sup>*\<^sup>* e e'" "net_true S N base e" "cl_nodes e b = Some (h, d)"
  shows "net_true S N base e' \<and> (\<exists>h' d'. cl_nodes e' b = Some (h', d') \<and> node_evolves S (h, d) (h', d'))"
  using assms(2)
proof induction
  case base
  then show ?case using assms(3,4) by simp
next
  case (step f g)
  obtain h1 d1 where f: "net_true S N base f" "cl_nodes f b = Some (h1, d1)" "node_evolves S (h, d) (h1, d1)"
    using step.IH by blast
  have st: "net_step S os N base f g" and up: "cl_nodes g b \<noteq> None" using step.hyps(2) by (simp_all add: net_up_def)
  then obtain h2 d2 where g: "cl_nodes g b = Some (h2, d2)" by auto
  then have "node_evolves S (h1, d1) (h2, d2)" using net_step_goes_on [OF assms(1) f(1) st, of b] f(2) by (simp add: goes_on_def)
  with net_step_true [OF assms(1) f(1) st] g f(3) node_evolves_trans show ?case by blast
qed

text \<open>
  C14. No peer is forgotten. As long as a node of a closed network stays up, whatever else
  happens, every peer its registry holds remains there, and every block it announces remains
  announced.
\<close>

theorem network_remembers:
  assumes "net_env S os N" "reach net_init (net_step S os N base) e" "cl_nodes e b = Some (h, d)"
    and "(net_up S os N base b)\<^sup>*\<^sup>* e e'"
  shows "\<exists>h' d'. cl_nodes e' b = Some (h', d') \<and> SelfEndpoint h' = SelfEndpoint h \<and>
    dom (reg_peers (h_reg h)) \<subseteq> dom (reg_peers (h_reg h')) \<and> prov_abs (h_providers h) \<subseteq> prov_abs (h_providers h')"
proof -
  have net: "net_true S N base e" by (rule network_reach [OF assms(1,2)])
  obtain h' d' where h': "cl_nodes e' b = Some (h', d')" "node_evolves S (h, d) (h', d')"
    using network_run_up [OF assms(1,4) net assms(3)] by blast
  have own: "own_records h" using net assms(3) by (auto simp: net_true_def node_true_def)
  have ep: "SelfEndpoint h' = SelfEndpoint h" and kept: "announces c h \<Longrightarrow> announces c h'" for c
    using h'(2) by (simp_all add: node_evolves_def grows_def)
  from ep have id: "h_SelfID h' = h_SelfID h" by (simp add: SelfEndpoint_def)
  have "(c, i, x) \<in> prov_abs (h_providers h')" if "(c, i, x) \<in> prov_abs (h_providers h)" for c i x
  proof -
    have ix: "i = h_SelfID h" "x = SelfEndpoint h" using own that unfolding own_records_def by blast+
    with that have "announces c h" by (simp add: announces_def)
    with kept [of c] ix ep id show ?thesis by (simp add: announces_def)
  qed
  with h' ep show ?thesis by (auto simp: node_evolves_def)
qed

section \<open>Discovery\<close>


section \<open>Example\<close>

text \<open>A roster of three, all with the same service; the network starts with nobody up.\<close>

definition ex_member :: "8 word \<Rightarrow> string \<Rightarrow> PeerEndpoint" where
  "ex_member k a = \<lparr>ep_PeerId = hexEncode (replicate 32 k), ep_GrpcAddr = a @ '':1'', ep_HttpAddr = a @ '':2''\<rparr>"

definition ex_roster :: "PeerEndpoint set" where
  "ex_roster = {ex_member 1 ''a'', ex_member 2 ''b'', ex_member 3 ''c''}"

definition ex_member_config :: "string \<Rightarrow> Config" where
  "ex_member_config a = \<lparr>cfg_DataDir = ''s'', cfg_GrpcListenAddr = a @ '':1'', cfg_HTTPListenAddr = a @ '':2'',
     cfg_BootstrapURL = ''boot'', cfg_ReplicationFactor = 3\<rparr>"

abbreviation ex_net :: "string cluster \<Rightarrow> bool" where
  "ex_net \<equiv> reach net_init (net_step ex_storage ex_os ex_roster ''boot'')"

definition ex_empty :: "string cluster" where
  "ex_empty = \<lparr>cl_draws = 0, cl_nodes = Map.empty, cl_service = NewBootstrap False\<rparr>"

lemma ex_member_fields [simp]:
  "ep_PeerId (ex_member k a) = hexEncode (replicate 32 k)" "ep_GrpcAddr (ex_member k a) = a @ '':1''"
  "ep_HttpAddr (ex_member k a) = a @ '':2''"
  by (simp_all add: ex_member_def)

lemma replicate_eq: "replicate 32 k = replicate 32 j \<longleftrightarrow> k = j"
  by (auto simp: replicate_eq_replicate)

lemma ex_id_set: "hexEncode (replicate 32 k) \<noteq> []"
proof
  assume "hexEncode (replicate 32 k) = []"
  then have "length (hexEncode (replicate 32 k)) = 0" by (simp only: list.size)
  then show False by simp
qed

lemma ascii_hexEncode: "ascii (hexEncode bs)"
proof (induction bs)
  case (Cons b bs)
  have "(of_char (hex_char n) :: nat) < 128" if "n < 16" for n
    using that by (simp add: hex_char_def)
  moreover have "unat b div 16 < 16" "unat b mod 16 < 16" using unat_byte_less [of b] by linarith+
  ultimately show ?case using Cons by simp
qed simp

lemma ex_net_env: "net_env ex_storage ex_os ex_roster"
proof -
  have "card ex_roster \<le> 3" unfolding ex_roster_def by (rule card_insert_le_m1) (auto intro: card_insert_le_m1)
  then have "roster_ok ex_roster"
    by (auto simp: roster_ok_def ex_roster_def replicate_eq ex_id_set MaxNetworkPeers_def inj_on_def simp del: hexEncode_simps)
  moreover have "wire_ok ex_roster" by (simp add: wire_ok_def ex_roster_def ascii_hexEncode del: hexEncode_simps)
  moreover have "temp_files_ok ex_os" using ex_env_ok by (simp add: env_ok_def)
  ultimately show ?thesis using ex_storage_ok by (simp add: net_env_def)
qed

lemma ex_empty_net: "ex_net ex_empty"
  by (rule reach_init) (simp add: net_init_def ex_empty_def NewBootstrap_def)

text \<open>A member starts on a data directory without a peer id.\<close>

lemma ex_start:
  assumes "cl_nodes e (a @ '':1'') = None" "ex_member k a \<in> ex_roster"
    and "d (Join [''s'', ''peer.id'']) = None" "view_sound ex_storage (view ex_storage ''s'' d)"
  obtains h d' e' where
    "\<And>P. net_move ex_storage ex_os ex_roster ''boot'' P e (with_node (a @ '':1'') (h, d', e'))" "same_net e e'"
    "SelfEndpoint h = ex_member k a" "h_Bootstrap h = ''boot''" "h_store h = ''s''" "h_chunker h = 4" "h_ReplFactor h = 3"
    "h_providers h = NewProviderRecords" "view ex_storage ''s'' d' = view ex_storage ''s'' d"
proof -
  let ?cfg = "ex_member_config a" and ?rand = "Inr (replicate 32 k)"
  have "\<exists>h d' e'. NewPeerHost ex_storage ex_os (local_rt ex_choices) False ?rand ?cfg d e = (Inr h, d', e') \<and>
      SelfEndpoint h = ex_member k a \<and> h_Bootstrap h = ''boot'' \<and> h_store h = ''s'' \<and> h_chunker h = 4 \<and> h_ReplFactor h = 3"
    using assms(3)
    by (simp add: NewPeerHost_def ex_member_config_def os_MkdirAll_def loadOrCreatePeerID_def create_peer_id_def os_WriteFile_def
        os_ReadFile_def ex_os_deny Let_def SelfEndpoint_def ex_member_def split: sum.split prod.split)
       (simp add: ex_storage_def)
  then obtain h d' e' where n: "NewPeerHost ex_storage ex_os (local_rt ex_choices) False ?rand ?cfg d e = (Inr h, d', e')"
    and f: "SelfEndpoint h = ex_member k a" "h_Bootstrap h = ''boot''" "h_store h = ''s''" "h_chunker h = 4" "h_ReplFactor h = 3"
    by blast
  have a: "h_GrpcAddr h = a @ '':1''" using f(1) by (simp add: SelfEndpoint_def ex_member_def)
  have v: "view ex_storage ''s'' d' = view ex_storage ''s'' d"
  proof (rule NewPeerHost_start [OF ex_storage_ok n])
    fix d1
    assume "NewStore ex_storage (cfg_DataDir ?cfg) d1 = (Inr (h_store h), d')" "\<And>st. view ex_storage st d1 = view ex_storage st d"
    then show ?thesis by (simp add: ex_storage_def)
  qed
  have "SelfEndpoint h \<in> ex_roster" "h_Bootstrap h = '''' \<or> TrimRight_slash (h_Bootstrap h) = ''boot''"
    "view_sound ex_storage (view ex_storage (h_store h) d')"
    using f v assms(2,4) by (simp_all add: TrimRight_slash_def)
  note t = net_start [OF ex_choices_ok(1) assms(1) n this(1) a this(2,3)] start_true [OF ex_net_env n this]
  from t(1,3,4) f v show thesis by (intro that [of h d' e'])
qed

text \<open>A round of the bootstrap loop of a member.\<close>

abbreviation ex_tick :: "(string, string, string cluster) node \<Rightarrow> (string, string, string cluster) node" where
  "ex_tick \<equiv> bootstrap_tick (cluster_http ex_choices ''boot'') (cluster_rt ex_storage ex_choices) None"

lemma ex_net_true: "ex_net e \<Longrightarrow> net_true ex_storage ex_roster ''boot'' e"
  by (rule network_reach [OF ex_net_env])

lemma ex_round:
  assumes "ex_net e" "cl_nodes e a = Some (h, d)" "h_Bootstrap h = ''boot''"
  obtains h' d' e' where "ex_tick (h, d, without a e) = (h', d', e')"
    "net_step ex_storage ex_os ex_roster ''boot'' e (with_node a (h', d', e'))"
    "self_peer h \<in> set (bs_peers (cl_service e'))" "same_but_reg h h'" "net_evolves ex_storage (without a e) e'"
    "\<And>p. p \<in> set (bs_peers (cl_service e)) \<Longrightarrow> bp_PeerID p \<noteq> h_SelfID h \<Longrightarrow> knows (bp_PeerID p) h'"
    "\<And>x. x \<noteq> a \<Longrightarrow> cl_nodes e' x = None \<longleftrightarrow> cl_nodes e x = None"
proof -
  obtain h' d' e' where t: "ex_tick (h, d, without a e) = (h', d', e')" by (rule prod_cases3)
  note net = ex_net_true [OF assms(1)]
  have n: "node_true ex_storage ex_roster ''boot'' a h d" using net assms(2) by (simp add: net_true_def)
  have ok: "disc_ok ex_storage ex_roster ''boot'' (h, d, without a e)" "wire_ok ex_roster"
    using ex_net_env n net_true_without [OF net] by (simp_all add: disc_ok_def net_env_def node_true_def)
  have url: "h_Bootstrap h = '''' \<or> TrimRight_slash (h_Bootstrap h) = ''boot''" "h_Bootstrap h \<noteq> ''''"
    using assms(3) by (simp_all add: TrimRight_slash_def)
  have up: "\<forall>n. ch_fate ex_choices ''boot'' n = Answered" by (simp add: ex_choices_ok)
  note r = disc_bootstrap_tick(2) [OF ok(2) url(1) ok(1) url(2) up t]
  have "disc ex_storage ex_roster ''boot'' (h, d, without a e) (h', d', e')"
    using disc_bootstrap_tick(1) [where C = ex_choices, OF ok(2) url(1)] t by metis
  with ok(1) have "same_but_reg h h'" "net_evolves ex_storage (without a e) e'" by (simp_all add: disc_def)
  moreover have "net_step ex_storage ex_os ex_roster ''boot'' e (with_node a (h', d', e'))"
    using net_own [where P = "\<lambda>C. own_step ex_storage ex_os C ''boot''", OF ex_choices_ok(1) assms(2) own_bootstrap] t by metis
  moreover have "same_records (net_of (h, d, without a e)) (net_of (h', d', e'))"
    unfolding t [symmetric] by (rule quiet.R_bootstrap_tick)
  from same_records_up [OF this] have "x \<noteq> a \<Longrightarrow> cl_nodes e' x = None \<longleftrightarrow> cl_nodes e x = None" for x by simp
  ultimately show thesis using t r by (intro that [of h' d' e']) simp_all
qed

text \<open>The member b starts and completes a round; then a starts.\<close>

lemma ex_two:
  obtains e hb db hb' db' e' e2 h d where "ex_net e" "cl_nodes e ''b:1'' = Some (hb, db)" "SelfEndpoint hb = ex_member 2 ''b''"
    "h_Bootstrap hb = ''boot''" "h_store hb = ''s''" "ex_tick (hb, db, without ''b:1'' e) = (hb', db', e')"
    "net_step ex_storage ex_os ex_roster ''boot'' e (with_node ''b:1'' (hb', db', e'))"
    "net_settled ex_storage ex_os ex_roster ''boot'' (with_node ''b:1'' (hb', db', e')) e2" "ex_net e2"
    "cl_nodes e2 ''b:1'' = Some (hb', db')" "same_but_reg hb hb'" "self_peer hb \<in> set (bs_peers (cl_service e2))"
    "cl_nodes e2 ''a:1'' = Some (h, d)" "SelfEndpoint h = ex_member 1 ''a''" "h_Bootstrap h = ''boot''"
    "h_store h = ''s''" "h_chunker h = 4" "h_ReplFactor h = 3" "cl_nodes e2 ''c:1'' = None"
proof -
  have v: "view_sound ex_storage (view ex_storage ''s'' Map.empty)" by (simp add: view_sound_def ex_view_eq split: sum.split)
  have in_N: "ex_member 2 ''b'' \<in> ex_roster" "ex_member 1 ''a'' \<in> ex_roster" by (simp_all add: ex_roster_def)
  have none: "cl_nodes ex_empty (''b'' @ '':1'') = None" by (simp add: ex_empty_def)
  obtain hb db e0 where b: "\<And>P. net_move ex_storage ex_os ex_roster ''boot'' P ex_empty (with_node (''b'' @ '':1'') (hb, db, e0))"
    "same_net ex_empty e0" "SelfEndpoint hb = ex_member 2 ''b''" "h_Bootstrap hb = ''boot''" "h_store hb = ''s''"
    by (rule ex_start [OF none in_N(1) _ v]) (simp, rule that)
  let ?e = "with_node ''b:1'' (hb, db, e0)"
  have "net_step ex_storage ex_os ex_roster ''boot'' ex_empty ?e"
    using b(1) [of "\<lambda>C. own_step ex_storage ex_os C ''boot''"] by simp
  then have e: "ex_net ?e" by (rule reach_step [OF ex_empty_net])
  have up: "cl_nodes ?e ''b:1'' = Some (hb, db)" by simp
  obtain hb' db' e' where t: "ex_tick (hb, db, without ''b:1'' ?e) = (hb', db', e')"
    "net_step ex_storage ex_os ex_roster ''boot'' ?e (with_node ''b:1'' (hb', db', e'))"
    "self_peer hb \<in> set (bs_peers (cl_service e'))" "same_but_reg hb hb'"
    "\<And>x. x \<noteq> ''b:1'' \<Longrightarrow> cl_nodes e' x = None \<longleftrightarrow> cl_nodes ?e x = None"
    by (rule ex_round [OF e up b(4)]) (rule that)
  let ?e1 = "with_node ''b:1'' (hb', db', e')"
  have e1: "ex_net ?e1" using t(2) by (rule reach_step [OF e])
  have e0: "cl_nodes e0 = Map.empty" using b(2) by (simp add: same_net_def ex_empty_def)
  have other: "cl_nodes ?e1 x = None" if "x \<noteq> ''b:1''" for x
    using t(5) [OF that] e0 that by simp
  have none: "cl_nodes ?e1 (''a'' @ '':1'') = None" by (rule other) simp
  obtain h d e2 where a: "\<And>P. net_move ex_storage ex_os ex_roster ''boot'' P ?e1 (with_node (''a'' @ '':1'') (h, d, e2))"
    "same_net ?e1 e2" "SelfEndpoint h = ex_member 1 ''a''" "h_Bootstrap h = ''boot''" "h_store h = ''s''" "h_chunker h = 4"
    "h_ReplFactor h = 3"
    by (rule ex_start [OF none in_N(2) _ v]) (simp, rule that)
  let ?e2 = "with_node ''a:1'' (h, d, e2)"
  have a1: "net_step ex_storage ex_os ex_roster ''boot'' ?e1 ?e2"
    using a(1) [of "\<lambda>C. own_step ex_storage ex_os C ''boot''"] by simp
  have e2: "ex_net ?e2" using a1 by (rule reach_step [OF e1])
  note same = a(2) [unfolded same_net_def]
  have a2: "net_settled ex_storage ex_os ex_roster ''boot'' ?e1 ?e2" using a1 same by (simp add: net_settled_def lists_on_def)
  have at: "cl_nodes ?e2 ''b:1'' = Some (hb', db')" "self_peer hb \<in> set (bs_peers (cl_service ?e2))"
    "cl_nodes ?e2 ''a:1'' = Some (h, d)" "cl_nodes ?e2 ''c:1'' = None"
    using t(3) same other [of "''c:1''"] by simp_all
  show thesis by (rule that [OF e up b(3-5) t(1,2) a2 e2 at(1) t(4) at(2,3) a(3-7) at(4)])
qed

theorem network_truthful_witness:
  "\<exists>e h d. ex_net e \<and> cl_nodes e ''a:1'' = Some (h, d) \<and>
     (\<forall>i p. reg_peers (h_reg h) i = Some p \<longrightarrow> rec_endpoint p \<in> ex_roster)"
proof -
  obtain e2 h d where e: "ex_net e2" "cl_nodes e2 ''a:1'' = Some (h, d)" by (rule ex_two) (rule that)
  note t = network_truthful [OF ex_net_env e]
  have "rec_endpoint p \<in> ex_roster" if "reg_peers (h_reg h) i = Some p" for i p
    using conjunct1 [OF t] that by blast
  with e show ?thesis by (intro exI [of _ e2] exI [of _ h] exI [of _ d] conjI allI impI)
qed

theorem network_remembers_witness:
  "\<exists>e (e' :: string cluster) h d h' d'. ex_net e \<and> cl_nodes e ''b:1'' = Some (h, d) \<and> cl_nodes e' ''b:1'' = Some (h', d') \<and>
     dom (reg_peers (h_reg h)) \<subseteq> dom (reg_peers (h_reg h')) \<and> prov_abs (h_providers h) \<subseteq> prov_abs (h_providers h')"
proof -
  obtain e hb db hb' db' e' where e: "ex_net e" "cl_nodes e ''b:1'' = Some (hb, db)"
    "net_step ex_storage ex_os ex_roster ''boot'' e (with_node ''b:1'' (hb', db', e'))" by (rule ex_two) (rule that)
  then have "net_up ex_storage ex_os ex_roster ''boot'' ''b:1'' e (with_node ''b:1'' (hb', db', e'))" by (simp add: net_up_def)
  then have "(net_up ex_storage ex_os ex_roster ''boot'' ''b:1'')\<^sup>*\<^sup>* e (with_node ''b:1'' (hb', db', e'))" by (rule r_into_rtranclp)
  from network_remembers [OF ex_net_env e(1,2) this] obtain h' d' where
    "cl_nodes (with_node ''b:1'' (hb', db', e')) ''b:1'' = Some (h', d')"
    "dom (reg_peers (h_reg hb)) \<subseteq> dom (reg_peers (h_reg h'))" "prov_abs (h_providers hb) \<subseteq> prov_abs (h_providers h')" by blast
  with e(1,2) have "ex_net e \<and> cl_nodes e ''b:1'' = Some (hb, db) \<and>
      cl_nodes (with_node ''b:1'' (hb', db', e')) ''b:1'' = Some (h', d') \<and>
      dom (reg_peers (h_reg hb)) \<subseteq> dom (reg_peers (h_reg h')) \<and> prov_abs (h_providers hb) \<subseteq> prov_abs (h_providers h')"
    by (intro conjI)
  then show ?thesis by (intro exI)
qed


end
