(* ===== verification/NetworkFiles.thy ===== *)
theory NetworkFiles
  imports NetworkRun
begin

text \<open>
  Files in the network of \<open>NetworkRun\<close>. A file that reached a replica can be downloaded by every
  node that knows the replica, as long as the replica stays up, and no longer: a node that
  starts again announces nothing, so what it stores is not found.
\<close>

section \<open>Downloads\<close>

text \<open>Nobody has another address on record for a node, since nobody announces anyone else.\<close>

lemma known_at_true:
  assumes "roster_ok N" "node_true S N base b hb db" "node_true S N base a h d"
  shows "known_at (h_SelfID hb) b (h_providers h)"
proof -
  have in_N: "SelfEndpoint h \<in> N" "SelfEndpoint hb \<in> N" "h_GrpcAddr hb = b"
    and own: "own_records h" "prov_wf (h_providers h)"
    using assms(2,3) by (simp_all add: node_true_def node_ok_def)
  have "ep_GrpcAddr ep = b" if "(c, h_SelfID hb, ep) \<in> prov_abs (h_providers h)" for c ep
  proof -
    have e: "h_SelfID hb = h_SelfID h" "ep = SelfEndpoint h" using own(1) that unfolding own_records_def by blast+
    then have "SelfEndpoint h = SelfEndpoint hb" using rosterD(1) [OF assms(1) in_N(1,2)] by (simp add: SelfEndpoint_def)
    with e(2) in_N(3) show ?thesis by (simp add: SelfEndpoint_def)
  qed
  with own(2) show ?thesis by (simp add: known_at_def)
qed

lemma all_known_at_true:
  "roster_ok N \<Longrightarrow> node_true S N base b hb db \<Longrightarrow> net_true S N base e \<Longrightarrow> all_known_at (h_SelfID hb) b e"
  unfolding all_known_at_def net_true_def using known_at_true by blast

text \<open>A node that runs, answers and has room is a peer in the sense of \<open>Cluster\<close>.\<close>

lemma peer_up_true:
  assumes "roster_ok N" "node_true S N base b hb db" "cl_nodes e b = Some (hb, db)"
    and "never_full S (h_store hb)" "\<forall>n. ch_fate C b n = Answered"
  shows "peer_up S C b (h_SelfID hb) e"
proof -
  have "SelfEndpoint hb \<in> N" "h_GrpcAddr hb = b" using assms(2) by (simp_all add: node_true_def)
  from rosterD(4,5) [OF assms(1) this(1) this(1)] this(2) have "b \<noteq> ''''" "h_SelfID hb \<noteq> ''''" by (simp_all add: SelfEndpoint_def)
  then show ?thesis using assms(2-5) by (simp add: peer_up_def node_true_def node_ok_def node_view_def)
qed

lemma can_read_true:
  assumes "roster_ok N" "node_true S N base b hb db" "node_true S N base a h d" "a \<noteq> b" "knows (h_SelfID hb) h"
  shows "can_read (h_SelfID hb) b h"
proof -
  obtain p where p: "reg_peers (h_reg h) (h_SelfID hb) = Some p" "rec_State p = StateActive"
    using assms(5) by (auto simp: knows_def)
  have t: "reg_true N (h_reg h)" "SelfEndpoint hb \<in> N" "h_GrpcAddr hb = b" "h_GrpcAddr h = a"
    using assms(2,3) by (simp_all add: node_true_def)
  have "rec_endpoint p = SelfEndpoint hb" by (rule reg_true_addr [OF assms(1) t(1) p(1) t(2)]) (simp add: SelfEndpoint_def)
  then have "rec_GrpcAddr p = b" using t(3) by (simp add: rec_endpoint_def SelfEndpoint_def)
  moreover have "p \<in> ran (reg_peers (h_reg h))" using p(1) by (rule ranI)
  ultimately show ?thesis
    using known_at_true [OF assms(1-3)] reg_trueD(1) [OF t(1)] t(4) assms(4) p(2) by (auto simp: can_read_def)
qed

lemma node_evolves_peer:
  assumes "cl_nodes e b = Some x" "cl_nodes e' b = Some y" "node_evolves S x y" shows "peer_grows S b e e'"
  using assms by (simp add: peer_grows_def node_evolves_def)

lemma store_upload_adds:
  assumes "store_upload S os rt ctx content (h, d, e) = (tmp, Inr root, s)"
  obtains path d1 where "AddFile S os rt ctx path (h, d1, e) = (Inr root, s)" "d1 path = Some content"
  using assms
  by (intro that [of "os_TempName os ''upload-*'' d" "d(os_TempName os ''upload-*'' d \<mapsto> content)"])
    (auto simp: store_upload_def os_CreateTemp_def file_Write_def Let_def split: option.splits prod.splits)

text \<open>An upload leaves all blocks of its file at such a peer among the candidates for replicas.\<close>

lemma upload_to_replica:
  assumes "net_env S os N" "net_true S N base e" "choices_ok C" "cl_nodes e a = Some (h, d)" "cl_nodes e b = Some (hb, db)" "a \<noteq> b"
    and "never_full S (h_store hb)" "\<forall>n. ch_fate C b n = Answered" "replicates_to h b"
    and "store_upload S os (cluster_rt S C) ctx content (h, d, without a e) = (tmp, Inr root, (h1, d1, e1))"
  obtains bs hb1 db1 where "content = concat bs" "root = NewCID S (file_node_block S bs)" "cl_nodes e1 b = Some (hb1, db1)"
    "\<forall>x\<in>set (file_node_block S bs # bs). unforgeable S x \<Longrightarrow>
      (\<forall>x\<in>set (file_node_block S bs # bs). holds_block S b x e1) \<and> peer_up S C b (h_SelfID hb) e1"
proof -
  have ok: "storage_ok S" "roster_ok N" using assms(1) by (simp_all add: net_env_def)
  have at: "node_true S N base a h d" and bt: "node_true S N base b hb db" using assms(2,4,5) by (simp_all add: net_true_def)
  have b0: "cl_nodes (without a e) b = Some (hb, db)" using assms(5,6) by simp
  obtain path d0 where add: "AddFile S os (cluster_rt S C) ctx path (h, d0, without a e) = (Inr root, (h1, d1, e1))"
    "d0 path = Some content" by (rule store_upload_adds [OF assms(10)])
  have up: "peer_up S C b (h_SelfID hb) (without a e)" by (rule peer_up_true [OF ok(2) bt b0 assms(7,8)])
  have conns: "conns_ok (h_conns h)" using at by (simp add: node_true_def)
  have "step_true S N base a (h, d, without a e) (h1, d1, e1)"
    by (rule own_step_true [OF assms(1) at net_true_without [OF assms(2)] own_upload [OF assms(10)]])
  then have "net_evolves S (without a e) e1" by (simp add: step_true_def)
  from net_evolves_at [OF this b0] obtain hb1 db1 where b1: "cl_nodes e1 b = Some (hb1, db1)" by blast
  show thesis
  proof (rule upload_arrives [OF ok(1) assms(3) up assms(9) conns add(1)])
    fix bs
    assume "d0 path = Some (concat bs)" "root = NewCID S (file_node_block S bs)"
      "\<forall>x\<in>set (file_node_block S bs # bs). unforgeable S x \<Longrightarrow>
        (\<forall>x\<in>set (file_node_block S bs # bs). holds_block S b x e1) \<and> peer_up S C b (h_SelfID hb) e1 \<and> peer_grows S b (without a e) e1"
    with add(2) b1 show thesis by (intro that [of bs hb1 db1]) simp_all
  qed
qed

text \<open>
  C8. What a closed network stores it can return. Let a node store an upload while a node that
  answers and has room is among its candidates for replicas, of which there are no more than
  replicas wanted. After any further steps of the network during which the replica stays up,
  whatever became of the uploader and of the others, every node that has the replica in its
  registry as an active peer can download exactly the bytes uploaded, whatever calls to other
  nodes fail, provided no other block shares an id with a block of the file and none is empty.
\<close>

theorem network_download:
  assumes "net_env S os N" "reach net_init (net_step S os N base) e" "choices_ok C"
    and "cl_nodes e a = Some (h, d)" "cl_nodes e b = Some (hb, db)" "a \<noteq> b"
    and "never_full S (h_store hb)" "\<forall>n. ch_fate C b n = Answered" "replicates_to h b"
    and "store_upload S os (cluster_rt S C) ctx content (h, d, without a e) = (tmp, Inr root, s)"
    and "(net_up S os N base b)\<^sup>*\<^sup>* (with_node a s) e2"
    and "cl_nodes e2 r = Some (hr, dr)" "r \<noteq> b" "knows (h_SelfID hb) hr" "choices_ok C2" "\<forall>n. ch_fate C2 b n = Answered"
  shows "\<exists>bs. content = concat bs \<and> root = NewCID S (file_node_block S bs) \<and>
    ((\<forall>x\<in>set (file_node_block S bs # bs). unforgeable S x \<and> x \<noteq> []) \<longrightarrow>
     (\<exists>t. GetFile S (cluster_rt S C2) ctx2 root (\<lambda>_ _. None) (hr, dr, without r e2) = ((None, content), t)))"
proof -
  have ok: "storage_ok S" "roster_ok N" using assms(1) by (simp_all add: net_env_def)
  have net: "net_true S N base e" by (rule network_reach [OF assms(1,2)])
  then have bt: "node_true S N base b hb db" using assms(5) by (simp add: net_true_def)
  obtain h1 d1 e1 where s: "s = (h1, d1, e1)" by (rule prod_cases3)
  obtain bs hb1 db1 where bs: "content = concat bs" "root = NewCID S (file_node_block S bs)" "cl_nodes e1 b = Some (hb1, db1)"
    and arrived: "\<forall>x\<in>set (file_node_block S bs # bs). unforgeable S x \<Longrightarrow>
      (\<forall>x\<in>set (file_node_block S bs # bs). holds_block S b x e1) \<and> peer_up S C b (h_SelfID hb) e1"
    by (rule upload_to_replica [OF assms(1) net assms(3-9) assms(10) [unfolded s]]) (rule that)
  have "net_step S os N base e (with_node a s)"
    by (rule net_own [where P = "\<lambda>C. own_step S os C base", OF assms(3,4) own_upload [OF assms(10)]])
  then have net1: "net_true S N base (with_node a s)" by (rule net_step_true [OF assms(1) net])
  have "cl_nodes (with_node a s) b = Some (hb1, db1)" using bs(3) assms(6) by (simp add: s)
  from network_run_up [OF assms(1,11) net1 this] obtain hb2 db2 where
    b2: "net_true S N base e2" "cl_nodes e2 b = Some (hb2, db2)" "node_evolves S (hb1, db1) (hb2, db2)" by blast
  have rt: "node_true S N base r hr dr" using b2(1) assms(12) by (simp add: net_true_def)
  have "cl_nodes (without r e2) b = Some (hb2, db2)" using b2(2) assms(13) by simp
  then have grow: "peer_grows S b e1 (without r e2)" by (rule node_evolves_peer [OF bs(3) _ b2(3)])
  have rv: "can_read (h_SelfID hb) b hr" "conns_ok (h_conns hr)" "view_sound S (view S (h_store hr) dr)"
    using can_read_true [OF ok(2) bt rt assms(13,14)] rt by (simp_all add: node_true_def node_ok_def node_view_def)
  have known: "all_known_at (h_SelfID hb) b (without r e2)" by (rule all_known_at_true [OF ok(2) bt net_true_without [OF b2(1)]])
  have "\<exists>t. GetFile S (cluster_rt S C2) ctx2 root (\<lambda>_ _. None) (hr, dr, without r e2) = ((None, content), t)"
    if un: "\<forall>x\<in>set (file_node_block S bs # bs). unforgeable S x \<and> x \<noteq> []"
  proof -
    have "\<forall>x\<in>set (file_node_block S bs # bs). unforgeable S x" using un by blast
    then have "\<forall>x\<in>set (file_node_block S bs # bs). holds_block S b x (without r e2)" "peer_up S C b (h_SelfID hb) (without r e2)"
      using arrived holds_block_grows [OF _ _ _ grow] peer_up_grows [OF _ grow] by blast+
    then have "replica_of S C2 b (h_SelfID hb) (set (file_node_block S bs # bs)) (without r e2)"
      using assms(16) known by (simp add: replica_of_def peer_up_def)
    from GetFile_finds [OF ok(1) assms(15) un this rv] bs show ?thesis by simp
  qed
  with bs show ?thesis by (intro exI [of _ bs]) simp
qed

section \<open>What a restart loses\<close>

text \<open>Nothing but uploads makes a node announce anything: not the loops, and not the downloads.\<close>

inductive quiet_own ::
  "'s storage \<Rightarrow> string \<Rightarrow> choices \<Rightarrow> ('s, string, 's cluster) node \<Rightarrow> ('s, string, 's cluster) node \<Rightarrow> bool"
  for S base C where
  q_download: "quiet_own S base C s (snd (GetFile S (cluster_rt S C) ctx root w s))"
| q_bootstrap: "quiet_own S base C s (bootstrap_tick (cluster_http C base) (cluster_rt S C) ctx s)"
| q_heartbeat: "quiet_own S base C s (heartbeat_tick (cluster_rt S C) ctx s)"
| q_cleanup: "is_order ks (reg_peers (h_reg (fst s))) \<Longrightarrow> (\<And>i p. prov_wf p \<Longrightarrow> is_order (ord i p) p) \<Longrightarrow>
    quiet_own S base C s (cleanup_round ks ord (cluster_rt S C) s)"

abbreviation quiet_step ::
  "'s storage \<Rightarrow> os \<Rightarrow> PeerEndpoint set \<Rightarrow> string \<Rightarrow> 's cluster \<Rightarrow> 's cluster \<Rightarrow> bool" where
  "quiet_step S os N base \<equiv> net_move S os N base (quiet_own S base)"

lemma quiet_keeps_true:
  assumes "net_env S os N" shows "keeps_true S N base (quiet_own S base)"
proof -
  have "step_true S N base a (h, d, e) t"
    if "node_true S N base a h d" "net_true S N base e" "quiet_own S base C (h, d, e) t" for C a h d e t
    using that(3)
  proof cases
    case (q_download ctx root w)
    have "storage_ok S" using assms by (simp add: net_env_def)
    from keeps_GetFile [OF this] local_change_GetFile have "local_step S (h, d, e) t"
      unfolding local_step_def q_download by blast
    moreover have "calls_net (net_rel S N base) (h, d, e) t" unfolding q_download by (rule net.req.T_GetFile)
    ultimately show ?thesis by (rule step_true_request [OF assms that(1,2)])
  next
    case (q_cleanup ks ord)
    then show ?thesis using step_true_cleanup [OF assms that(1,2), of ks ord] by simp
  qed (use step_true_bootstrap [OF assms that(1,2)] step_true_heartbeat [OF assms that(1,2)] in simp_all)
  then show ?thesis unfolding keeps_true_def by blast
qed

definition nobody_announces :: "string \<Rightarrow> 's cluster \<Rightarrow> bool" where
  "nobody_announces c e \<longleftrightarrow>
     (\<forall>a h d. cl_nodes e a = Some (h, d) \<longrightarrow> (\<forall>i ep. (c, i, ep) \<notin> prov_abs (h_providers h)))"

lemma nobody_announcesD:
  "nobody_announces c e \<Longrightarrow> cl_nodes e a = Some (h, d) \<Longrightarrow> (c, i, ep) \<notin> prov_abs (h_providers h)"
  unfolding nobody_announces_def by blast

lemma nobody_announces_same:
  assumes "same_records (conns, e) (conns', e')" "nobody_announces c e" shows "nobody_announces c e'"
  unfolding nobody_announces_def
proof (intro allI impI)
  fix a h d i ep assume h: "cl_nodes e' a = Some (h, d)"
  have "map_option (\<lambda>x. h_providers (fst x)) (cl_nodes e' a) = map_option (\<lambda>x. h_providers (fst x)) (cl_nodes e a)"
    using assms(1) by (simp add: same_records_def)
  with h obtain h0 d0 where "cl_nodes e a = Some (h0, d0)" "h_providers h0 = h_providers h" by (cases "cl_nodes e a") auto
  with assms(2) show "(c, i, ep) \<notin> prov_abs (h_providers h)" unfolding nobody_announces_def by metis
qed

text \<open>What a quiet step does to the node that takes it and to the others.\<close>

lemma quiet_own_records:
  assumes "quiet_own S base C (h, d, e) t" "choices_ok C" "reg_wf (h_reg h)" "prov_wf (h_providers h)"
  shows "prov_abs (h_providers (fst t)) \<subseteq> prov_abs (h_providers h)" "same_records (conns, e) (conns', snd (snd t))"
proof -
  have "prov_abs (h_providers (fst t)) \<subseteq> prov_abs (h_providers h) \<and> same_records (net_of (h, d, e)) (net_of t)"
    using assms(1)
  proof cases
    case (q_download ctx root w)
    have "only_read (net_of (h, d, e)) (net_of t)" unfolding q_download by (rule cluster_read.R_GetFile)
    moreover have "same_host h (fst t)" using same_host_GetFile [of "(h, d, e)"] by (simp add: q_download)
    ultimately show ?thesis by (simp add: same_host_fields only_read_def same_records_def net_of_def)
  next
    case (q_bootstrap ctx)
    have "same_records (net_of (h, d, e)) (net_of t)" unfolding q_bootstrap by (rule quiet.R_bootstrap_tick)
    moreover have "same_but_reg h (fst t)"
      using bootstrap_tick_upserts [OF cluster_rt_ok(1) [OF assms(2)] assms(3), where http = "cluster_http C base"]
      unfolding q_bootstrap upserts_def by fastforce
    from same_but_reg_fields(1) [OF this] have "h_providers (fst t) = h_providers h" .
    ultimately show ?thesis by simp
  next
    case (q_heartbeat ctx)
    have "same_records (net_of (h, d, e)) (net_of t)" unfolding q_heartbeat by (rule quiet.R_heartbeat)
    moreover have "same_but_reg h (fst t)"
      using heartbeat_reg [of "(h, d, e)" "cluster_rt S C" ctx] by (simp add: q_heartbeat reg_only_def)
    from same_but_reg_fields(1) [OF this] have "h_providers (fst t) = h_providers h" .
    ultimately show ?thesis by simp
  next
    case (q_cleanup ks ord)
    then show ?thesis using prov_abs_purge [OF q_cleanup(3) assms(4)]
      by (auto simp: cleanup_round_def cleanup_tick_split quiet.R_refl)
  qed
  then show "prov_abs (h_providers (fst t)) \<subseteq> prov_abs (h_providers h)" "same_records (conns, e) (conns', snd (snd t))"
    using same_records_net_of [of "(h, d, e)" t] by simp_all
qed

lemma quiet_step_nobody:
  assumes "net_env S os N" "net_true S N base e" "nobody_announces c e" "quiet_step S os N base e e'"
  shows "nobody_announces c e'"
  using assms(4)
proof cases
  case (net_own C a h d s)
  have n: "reg_wf (h_reg h)" "prov_wf (h_providers h)" using assms(2) net_own(3) by (auto simp: net_true_def node_true_def node_ok_def)
  note r = quiet_own_records [OF net_own(4,2) n]
  have "nobody_announces c (without a e)" using assms(3) by (simp add: nobody_announces_def)
  then have "nobody_announces c (snd (snd s))" by (rule nobody_announces_same [OF r(2)])
  moreover have "(c, i, ep) \<notin> prov_abs (h_providers (fst s))" for i ep
    using r(1) assms(3) net_own(3) unfolding nobody_announces_def by blast
  ultimately show ?thesis unfolding net_own(1) by (cases s) (simp add: nobody_announces_def)
next
  case (net_start C a rand cfg d h d' e1)
  note t = start_true(2,3) [OF assms(1) net_start(4,5,7,8)]
  have "(c, i, ep) \<notin> prov_abs NewProviderRecords" for i ep by (simp add: prov_abs_def NewProviderRecords_def)
  then show ?thesis using assms(3) t net_start(1) by (simp add: nobody_announces_def same_net_def)
qed (use assms(3) in \<open>simp_all add: nobody_announces_def\<close>)

lemma quiet_run:
  assumes "net_env S os N" "(quiet_step S os N base)\<^sup>*\<^sup>* e e'" "net_true S N base e" "nobody_announces c e"
  shows "net_true S N base e' \<and> nobody_announces c e'"
  using assms(2)
proof induction
  case (step f g)
  then show ?case
    using net_move_true [OF assms(1) quiet_keeps_true [OF assms(1)]] quiet_step_nobody [OF assms(1)] by blast
qed (simp add: assms(3,4))

text \<open>So a lookup finds nobody.\<close>

lemma replies_nobody:
  assumes "choices_ok C" "all_known_at i b e" "nobody_announces c e" "c \<noteq> []" "conns_ok conns"
    and "replies (cluster_rt S C) ctx c addrs (conns, e) = (eps, n')"
  shows "eps = []"
  using assms(2,3,5,6)
proof (induction addrs arbitrary: conns e eps)
  case (Cons a addrs)
  obtain r conns1 e1 where ask: "ask_provider (cluster_rt S C) ctx c a (conns, e) = (r, (conns1, e1))" by (rule prod_cases3)
  note k = only_readD [OF cluster_read.R_ask_provider [OF ask] Cons.prems(3)]
  obtain eps' where rest: "replies (cluster_rt S C) ctx c addrs (conns1, e1) = (eps', n')"
    and eps: "eps = (case r of Inl _ \<Rightarrow> [] | Inr resp \<Rightarrow> fpr_Providers resp) @ eps'"
    using Cons.prems(4) ask by (auto split: prod.splits)
  have "fpr_Providers resp = []" if r: "r = Inr resp" for resp
  proof -
    obtain h d where "cl_nodes e a = Some (h, d)"
      "set (fpr_Providers resp) = Some ` {ep. \<exists>j. (c, j, ep) \<in> prov_abs (h_providers h)}"
      by (rule ask_answer [OF assms(1) Cons.prems(1) assms(4) Cons.prems(3) ask [unfolded r]])
    moreover from nobody_announcesD [OF Cons.prems(2) this(1)] have "(c, j, ep) \<notin> prov_abs (h_providers h)" for j ep .
    ultimately have "set (fpr_Providers resp) = {}" by simp
    then show ?thesis by simp
  qed
  moreover have "all_known_at i b e1" "nobody_announces c e1"
    using Cons.prems(1,2) k unfolding all_known_at_def nobody_announces_def by simp_all
  then have "eps' = []" using Cons.IH [OF _ _ _ rest] k by blast
  ultimately show ?case by (simp add: eps split: sum.split)
qed simp

lemma fetch_nobody:
  assumes "choices_ok C" "all_known_at i b e" "nobody_announces c e" "c \<noteq> []" "conns_ok (h_conns h)"
    and "prov_wf (h_providers h)" "\<forall>j ep. (c, j, ep) \<notin> prov_abs (h_providers h)"
  shows "\<exists>err s. fetch_remote S (cluster_rt S C) ctx c (h, d, e) = (Inl err, s)"
proof -
  let ?rt = "cluster_rt S C"
  obtain ps e1 where ps: "draw_Snapshot ?rt (h_reg h) e = (ps, e1)" by (rule prod.exhaust)
  then have e1: "cl_nodes e1 = cl_nodes e" by (auto simp: draw_Snapshot_def)
  obtain ks e2 perm addrs e3 eps m where
    ks: "rt_range ?rt (case h_providers h c of None \<Rightarrow> {} | Some mp \<Rightarrow> dom mp) (snd (h_conns h, e1)) = (ks, e2)"
    and perm: "rt_sched ?rt (length (lookup_targets (h_GrpcAddr h) ps)) e2 = (perm, e3)"
    and o: "\<And>mp. h_providers h c = Some mp \<Longrightarrow> is_order ks mp"
    and r: "replies ?rt ctx c addrs (fst (h_conns h, e1), e3) = (eps, m)"
    and out: "LookupProviders ?rt ctx (h_providers h) (h_GrpcAddr h) ps c (h_conns h, e1) =
       (first_by_id {} (prov_Get ks c (h_providers h) @ offered eps), m)"
    by (rule LookupProviders_eq [OF cluster_rt_ok(1) [OF assms(1), of S] assms(6), where cid = c and self = "h_GrpcAddr h" and
          n = "(h_conns h, e1)" and ctx = ctx and peers = ps]) (rule that)
  have "cl_nodes e3 = cl_nodes e" using ks perm e1 by auto
  then have "all_known_at i b e3" "nobody_announces c e3" using assms(2,3) by (simp_all add: all_known_at_def nobody_announces_def)
  then have "eps = []" by (rule replies_nobody [OF assms(1) _ _ assms(4,5) r [unfolded fst_conv]])
  moreover have "set (prov_Get ks c (h_providers h)) = {}" using prov_Get_set [OF assms(6) o] assms(7) by simp
  ultimately have "LookupProviders ?rt ctx (h_providers h) (h_GrpcAddr h) ps c (h_conns h, e1) = ([], m)" using out by simp
  with ps show ?thesis by (cases m) (simp add: fetch_remote_def FetchBlock_def)
qed

text \<open>
  C10. A restart hides what a node stores. Let a node of a closed network be the only one that
  announces a file, and let it stop. Whatever the network does next short of new uploads,
  starting that node again on its old disk included, with any number of rounds of all loops
  and any downloads, nobody finds the file: on every node that has not stored its root itself,
  \<open>GetFile\<close> fails and writes nothing, even if the node that holds all its blocks is up, known
  to everyone and answers every call. The announcements are kept in memory only, and nothing
  announces stored blocks again.
\<close>

theorem restart_hides_file:
  assumes "net_env S os N" "reach net_init (net_step S os N base) e"
    and "\<forall>a h d. cl_nodes e a = Some (h, d) \<longrightarrow> a \<noteq> b \<longrightarrow> \<not> announces root h" "root \<noteq> []"
    and "(quiet_step S os N base)\<^sup>*\<^sup>* (without b e) e2"
    and "cl_nodes e2 a = Some (h, d)" "store_Get S (h_store h) root d = Inl missing" "choices_ok C"
  shows "\<exists>err t. GetFile S (cluster_rt S C) ctx root w (h, d, without a e2) = ((Some err, []), t)"
proof -
  have ok: "roster_ok N" using assms(1) by (simp add: net_env_def)
  have net: "net_true S N base e" by (rule network_reach [OF assms(1,2)])
  have "nobody_announces root (without b e)"
  proof -
    have "(root, i, ep) \<notin> prov_abs (h_providers g)" if g: "cl_nodes e x = Some (g, dg)" "x \<noteq> b" for x g dg i ep
    proof
      assume m: "(root, i, ep) \<in> prov_abs (h_providers g)"
      have "own_records g" using net g(1) by (auto simp: net_true_def node_true_def)
      with m have "i = h_SelfID g \<and> ep = SelfEndpoint g" unfolding own_records_def by blast
      with m have "announces root g" by (simp add: announces_def)
      with assms(3) g show False by blast
    qed
    then show ?thesis by (auto simp: nobody_announces_def)
  qed
  with quiet_run [OF assms(1,5) net_true_without [OF net]] have e2: "net_true S N base e2" "nobody_announces root e2" by blast+
  then have at: "node_true S N base a h d" using assms(6) by (simp add: net_true_def)
  have known: "all_known_at (h_SelfID h) a (without a e2)" by (rule all_known_at_true [OF ok at net_true_without [OF e2(1)]])
  have "nobody_announces root (without a e2)" using e2(2) by (simp add: nobody_announces_def)
  moreover have "\<forall>j ep. (root, j, ep) \<notin> prov_abs (h_providers h)" using e2(2) assms(6) unfolding nobody_announces_def by blast
  moreover have "conns_ok (h_conns h)" "prov_wf (h_providers h)" using at by (simp_all add: node_true_def node_ok_def)
  ultimately obtain err s where "fetch_remote S (cluster_rt S C) ctx root (h, d, without a e2) = (Inl err, s)"
    using fetch_nobody [OF assms(8) known _ assms(4)] by blast
  then show ?thesis using assms(7) by (cases s) (simp add: GetFile_def load_root_def load_block_def)
qed

section \<open>Example\<close>

text \<open>
  The members b, a and c are up; a knows b, stores the example file, and b gets a replica; then c
  completes a round of its bootstrap loop and finds b.
\<close>

lemma ex_three:
  obtains e h d hb db hc dc where "ex_net e" "cl_nodes e ''a:1'' = Some (h, d)" "cl_nodes e ''b:1'' = Some (hb, db)"
    "SelfEndpoint hb = ex_member 2 ''b''" "h_store hb = ''s''" "h_store h = ''s''" "h_chunker h = 4" "h_ReplFactor h = 3"
    "knows (h_SelfID hb) h" "self_peer hb \<in> set (bs_peers (cl_service e))"
    "cl_nodes e ''c:1'' = Some (hc, dc)" "h_Bootstrap hc = ''boot''" "SelfEndpoint hc = ex_member 3 ''c''"
proof -
  obtain e0 hb0 db0 hb db eb e h d where e: "SelfEndpoint hb0 = ex_member 2 ''b''" "h_store hb0 = ''s''" "ex_net e"
    "cl_nodes e ''b:1'' = Some (hb, db)" "same_but_reg hb0 hb" "self_peer hb0 \<in> set (bs_peers (cl_service e))"
    "cl_nodes e ''a:1'' = Some (h, d)" "SelfEndpoint h = ex_member 1 ''a''" "h_Bootstrap h = ''boot''"
    "h_store h = ''s''" "h_chunker h = 4" "h_ReplFactor h = 3" "cl_nodes e ''c:1'' = None" by (rule ex_two) (rule that)
  note fb = same_but_reg_fields [OF e(5)]
  have b: "SelfEndpoint hb = ex_member 2 ''b''" "self_peer hb \<in> set (bs_peers (cl_service e))" "h_store hb = ''s''"
    using e(1,2,6) fb by (simp_all add: SelfEndpoint_def self_peer_def)
  have v: "view_sound ex_storage (view ex_storage ''s'' Map.empty)" by (simp add: view_sound_def ex_view_eq split: sum.split)
  have none: "cl_nodes e (''c'' @ '':1'') = None" using e(13) by simp
  have in_N: "ex_member 3 ''c'' \<in> ex_roster" by (simp add: ex_roster_def)
  obtain hc dc e1 where c: "\<And>P. net_move ex_storage ex_os ex_roster ''boot'' P e (with_node (''c'' @ '':1'') (hc, dc, e1))"
    "same_net e e1" "SelfEndpoint hc = ex_member 3 ''c''" "h_Bootstrap hc = ''boot''"
    by (rule ex_start [OF none in_N _ v]) (simp, rule that)
  let ?e1 = "with_node ''c:1'' (hc, dc, e1)"
  have "net_step ex_storage ex_os ex_roster ''boot'' e ?e1"
    using c(1) [of "\<lambda>C. own_step ex_storage ex_os C ''boot''"] by simp
  then have e1: "ex_net ?e1" by (rule reach_step [OF e(3)])
  have at: "cl_nodes ?e1 ''a:1'' = Some (h, d)" "cl_nodes ?e1 ''b:1'' = Some (hb, db)"
    "self_peer hb \<in> set (bs_peers (cl_service ?e1))"
    using e(4,7) b(2) c(2) by (simp_all add: same_net_def)
  obtain h' d' e2 where t: "net_step ex_storage ex_os ex_roster ''boot'' ?e1 (with_node ''a:1'' (h', d', e2))"
    "same_but_reg h h'" "net_evolves ex_storage (without ''a:1'' ?e1) e2"
    "\<And>p. p \<in> set (bs_peers (cl_service ?e1)) \<Longrightarrow> bp_PeerID p \<noteq> h_SelfID h \<Longrightarrow> knows (bp_PeerID p) h'"
    by (rule ex_round [OF e1 at(1) e(9)]) (rule that)
  let ?e2 = "with_node ''a:1'' (h', d', e2)"
  have e2: "ex_net ?e2" using t(1) by (rule reach_step [OF e1])
  have "h_SelfID hb = hexEncode (replicate 32 2)" "h_SelfID h = hexEncode (replicate 32 1)"
    using b(1) e(8) by (simp_all add: SelfEndpoint_def ex_member_def del: hexEncode_simps)
  then have "bp_PeerID (self_peer hb) \<noteq> h_SelfID h" by (simp add: self_peer_def replicate_eq del: hexEncode_simps)
  with t(4) [OF at(3)] have k: "knows (h_SelfID hb) h'" by (simp add: self_peer_def)
  have up: "cl_nodes (without ''a:1'' ?e1) ''b:1'' = Some (hb, db)" "cl_nodes (without ''a:1'' ?e1) ''c:1'' = Some (hc, dc)"
    using at(2) by simp_all
  obtain hb2 db2 where b2: "cl_nodes e2 ''b:1'' = Some (hb2, db2)" "node_evolves ex_storage (hb, db) (hb2, db2)"
    by (rule net_evolves_at [OF t(3) up(1)]) (rule that)
  obtain hc2 dc2 where c2: "cl_nodes e2 ''c:1'' = Some (hc2, dc2)" "node_evolves ex_storage (hc, dc) (hc2, dc2)"
    by (rule net_evolves_at [OF t(3) up(2)]) (rule that)
  have b2f: "SelfEndpoint hb2 = SelfEndpoint hb" "h_store hb2 = h_store hb" using b2(2) by (simp_all add: node_evolves_def grows_def)
  have c2f: "SelfEndpoint hc2 = SelfEndpoint hc" "h_Bootstrap hc2 = h_Bootstrap hc" using c2(2) by (simp_all add: node_evolves_def grows_def)
  have "self_peer hb2 = self_peer hb" "h_SelfID hb2 = h_SelfID hb" using b2f by (simp_all add: SelfEndpoint_def self_peer_def)
  moreover have "set (bs_peers (cl_service ?e1)) \<subseteq> set (bs_peers (cl_service ?e2))" using t(3) by (simp add: net_evolves_def)
  ultimately have l: "self_peer hb2 \<in> set (bs_peers (cl_service ?e2))" "knows (h_SelfID hb2) h'" using at(3) k by auto
  have hf: "h_store h' = ''s''" "h_chunker h' = 4" "h_ReplFactor h' = 3"
    using t(2) e(10-12) by (cases h; cases h'; simp add: same_but_reg_def)+
  have n: "cl_nodes ?e2 ''a:1'' = Some (h', d')" "cl_nodes ?e2 ''b:1'' = Some (hb2, db2)" "cl_nodes ?e2 ''c:1'' = Some (hc2, dc2)"
    using b2(1) c2(1) by simp_all
  show thesis
    by (rule that [OF e2 n(1,2) _ _ hf l(2,1) n(3)]) (use b2f c2f b(1,3) c(3,4) in simp_all)
qed

text \<open>A member that knows another as active is a candidate for its replicas, and all fit.\<close>

lemma ex_replicates_to:
  assumes "node_true ex_storage ex_roster ''boot'' a h d" "node_true ex_storage ex_roster ''boot'' b hb db"
    and "knows (h_SelfID hb) h" "a \<noteq> b" "h_ReplFactor h = 3"
  shows "replicates_to h b"
proof -
  have r: "roster_ok ex_roster" using ex_net_env by (simp add: net_env_def)
  have t: "reg_true ex_roster (h_reg h)" "SelfEndpoint hb \<in> ex_roster" "SelfEndpoint h \<in> ex_roster" "h_GrpcAddr hb = b" "h_GrpcAddr h = a"
    using assms(1,2) by (simp_all add: node_true_def)
  obtain p where p: "reg_peers (h_reg h) (h_SelfID hb) = Some p" "rec_State p = StateActive" using assms(3) by (auto simp: knows_def)
  have ep: "rec_endpoint p = SelfEndpoint hb" by (rule reg_true_addr [OF r t(1) p(1) t(2)]) (simp add: SelfEndpoint_def)
  then have id: "rec_ID p = h_SelfID hb" "rec_GrpcAddr p = b" using t(4) by (simp_all add: rec_endpoint_def SelfEndpoint_def)
  have "h_SelfID hb \<noteq> h_SelfID h" using rosterD(1) [OF r t(2,3)] t(4,5) assms(4) by (auto simp: SelfEndpoint_def)
  moreover have "\<exists>k. h_SelfID hb = hexEncode (replicate 32 k)"
    using t(2) by (auto simp: ex_roster_def ex_member_def SelfEndpoint_def simp del: hexEncode_simps)
  then obtain key where "KeyFromHex (h_SelfID hb) = Inr key" using KeyFromHex_encode by force
  ultimately have cand: "h_SelfID hb \<in> replica_candidates h" "Get (h_SelfID hb) (h_reg h) = Some p"
    using p id by (auto simp: eligible_def Get_def candidate_def)
  have "replica_candidates h \<subseteq> ep_PeerId ` ex_roster"
  proof
    fix i assume "i \<in> replica_candidates h"
    then obtain q where "reg_peers (h_reg h) i = Some q" by (auto simp: eligible_def Get_def)
    from reg_trueD(3) [OF t(1) this] show "i \<in> ep_PeerId ` ex_roster" by (auto simp: rec_true_def intro: rev_image_eqI)
  qed
  then have "card (replica_candidates h) \<le> card (ep_PeerId ` ex_roster)" by (rule card_mono [rotated]) (simp add: ex_roster_def)
  also have "\<dots> \<le> 3" unfolding ex_roster_def image_insert image_empty by (intro card_insert_le_m1) simp_all
  finally show ?thesis using reg_trueD(1) [OF t(1)] cand id(2) assms(5) by (auto simp: replicates_to_def)
qed

lemma ex_never_full: "never_full ex_storage st"
  by (simp add: never_full_def)

lemma ex_stores_upload:
  assumes "h_store h = ''s''" "h_chunker h = 4"
  obtains tmp s where "store_upload ex_storage ex_os (cluster_rt ex_storage C) None ex_chunk (h, d, e) = (tmp, Inr (ex_cid ex_root), s)"
proof -
  let ?tmp = "os_TempName ex_os ''upload-*'' d"
  have "(d(?tmp \<mapsto> ex_chunk)) ?tmp = Some ex_chunk" by simp
  then obtain h' d' e' where a: "AddFile ex_storage ex_os (cluster_rt ex_storage C) None ?tmp (h, d(?tmp \<mapsto> ex_chunk), e) =
      (Inr (ex_cid ex_root), (h', d', e'))" by (rule ex_AddFile_host [OF _ assms]) (rule that)
  then show thesis
    by (intro that [of "Some ?tmp" "(h', d', e')"])
      (simp add: store_upload_def os_CreateTemp_def file_Write_def file_Close_def Let_def ex_os_deny)
qed

lemma ex_file_unforgeable: "\<forall>x\<in>set (file_node_block ex_storage [ex_chunk] # [ex_chunk]). unforgeable ex_storage x \<and> x \<noteq> []"
proof -
  have "length ex_chunk = 3" "31 \<le> length ex_root" using length_ex_root by (simp_all add: ex_chunk_def)
  then show ?thesis using ex_unforgeable [of ex_chunk] ex_unforgeable [of ex_root] by (auto simp: ex_root_block)
qed

theorem network_download_witness:
  "\<exists>e2 hr dr root t. ex_net e2 \<and> cl_nodes e2 ''c:1'' = Some (hr, dr) \<and>
     GetFile ex_storage (cluster_rt ex_storage ex_choices) None root (\<lambda>_ _. None) (hr, dr, without ''c:1'' e2) = ((None, ex_chunk), t)"
proof -
  obtain e h d hb db hc dc where e: "ex_net e" "cl_nodes e ''a:1'' = Some (h, d)" "cl_nodes e ''b:1'' = Some (hb, db)"
    "h_store h = ''s''" "h_chunker h = 4" "h_ReplFactor h = 3" "knows (h_SelfID hb) h" "self_peer hb \<in> set (bs_peers (cl_service e))"
    "cl_nodes e ''c:1'' = Some (hc, dc)" "h_Bootstrap hc = ''boot''" "SelfEndpoint hc = ex_member 3 ''c''"
    "SelfEndpoint hb = ex_member 2 ''b''" by (rule ex_three) (rule that)
  have n: "node_true ex_storage ex_roster ''boot'' ''a:1'' h d" "node_true ex_storage ex_roster ''boot'' ''b:1'' hb db"
    using ex_net_true [OF e(1)] e(2,3) by (simp_all add: net_true_def)
  have ne: "''a:1'' \<noteq> ''b:1''" "''c:1'' \<noteq> ''b:1''" "''c:1'' \<noteq> ''a:1''" "''b:1'' \<noteq> ''a:1''" by simp_all
  have rep: "replicates_to h ''b:1''" by (rule ex_replicates_to [OF n e(7) ne(1) e(6)])
  obtain tmp s where u: "store_upload ex_storage ex_os (cluster_rt ex_storage ex_choices) None ex_chunk (h, d, without ''a:1'' e) =
      (tmp, Inr (ex_cid ex_root), s)" by (rule ex_stores_upload [OF e(4,5)]) (rule that)
  obtain h1 d1 e1 where s: "s = (h1, d1, e1)" by (rule prod_cases3)
  let ?e1 = "with_node ''a:1'' s"
  have own: "own_step ex_storage ex_os ex_choices ''boot'' (h, d, without ''a:1'' e) s" by (rule own_upload [OF u])
  have "net_step ex_storage ex_os ex_roster ''boot'' e ?e1"
    by (rule net_own [where P = "\<lambda>C. own_step ex_storage ex_os C ''boot''", OF ex_choices_ok(1) e(2) own])
  then have e1: "ex_net ?e1" by (rule reach_step [OF e(1)])
  have "net_evolves ex_storage (without ''a:1'' e) e1"
    using own_step_true [OF ex_net_env n(1) net_true_without [OF ex_net_true [OF e(1)]] own] by (simp add: step_true_def s)
  note ev = net_evolves_at [OF this]
  have up: "cl_nodes (without ''a:1'' e) ''b:1'' = Some (hb, db)" "cl_nodes (without ''a:1'' e) ''c:1'' = Some (hc, dc)"
    using e(3,9) by simp_all
  obtain hc1 dc1 where "cl_nodes e1 ''c:1'' = Some (hc1, dc1)" "node_evolves ex_storage (hc, dc) (hc1, dc1)"
    by (rule ev [OF up(2)]) (rule that)
  then have c1: "cl_nodes ?e1 ''c:1'' = Some (hc1, dc1)" "h_Bootstrap hc1 = ''boot''" "SelfEndpoint hc1 = ex_member 3 ''c''"
    using e(10,11) by (simp_all add: s node_evolves_def grows_def)
  obtain hb1 db1 where b1: "cl_nodes e1 ''b:1'' = Some (hb1, db1)" by (rule ev [OF up(1)]) (rule that)
  have listed: "self_peer hb \<in> set (bs_peers (cl_service ?e1))"
    using \<open>net_evolves ex_storage (without ''a:1'' e) e1\<close> e(8) by (auto simp: s net_evolves_def)
  obtain hc2 dc2 e2 where t: "net_step ex_storage ex_os ex_roster ''boot'' ?e1 (with_node ''c:1'' (hc2, dc2, e2))"
    "same_but_reg hc1 hc2" "net_evolves ex_storage (without ''c:1'' ?e1) e2"
    "\<And>p. p \<in> set (bs_peers (cl_service ?e1)) \<Longrightarrow> bp_PeerID p \<noteq> h_SelfID hc1 \<Longrightarrow> knows (bp_PeerID p) hc2"
    by (rule ex_round [OF e1 c1(1,2)]) (rule that)
  let ?e2 = "with_node ''c:1'' (hc2, dc2, e2)"
  have e2: "ex_net ?e2" using t(1) by (rule reach_step [OF e1])
  have "h_SelfID hb = hexEncode (replicate 32 2)" "h_SelfID hc1 = hexEncode (replicate 32 3)"
    using e(12) c1(3) by (simp_all add: SelfEndpoint_def ex_member_def del: hexEncode_simps)
  then have "bp_PeerID (self_peer hb) \<noteq> h_SelfID hc1" by (simp add: self_peer_def replicate_eq del: hexEncode_simps)
  with t(4) [OF listed] have k: "knows (h_SelfID hb) hc2" by (simp add: self_peer_def)
  have b1': "cl_nodes (without ''c:1'' ?e1) ''b:1'' = Some (hb1, db1)" using b1 by (simp add: s)
  obtain hb2 db2 where "cl_nodes e2 ''b:1'' = Some (hb2, db2)" by (rule net_evolves_at [OF t(3) b1']) (rule that)
  then have "cl_nodes ?e2 ''b:1'' \<noteq> None" by simp
  with t(1) have "net_up ex_storage ex_os ex_roster ''boot'' ''b:1'' ?e1 ?e2" by (simp add: net_up_def)
  then have run: "(net_up ex_storage ex_os ex_roster ''boot'' ''b:1'')\<^sup>*\<^sup>* ?e1 ?e2" by (rule r_into_rtranclp)
  have c2: "cl_nodes ?e2 ''c:1'' = Some (hc2, dc2)" by simp
  have fate: "\<forall>n. ch_fate ex_choices ''b:1'' n = Answered" by (simp add: ex_choices_ok)
  from network_download [where ?ctx2.0 = None, OF ex_net_env e(1) ex_choices_ok(1) e(2,3) ne(1) ex_never_full fate rep u run c2 ne(2) k ex_choices_ok(1) fate]
  obtain bs where bs: "ex_cid ex_root = NewCID ex_storage (file_node_block ex_storage bs)"
    "(\<forall>x\<in>set (file_node_block ex_storage bs # bs). unforgeable ex_storage x \<and> x \<noteq> []) \<longrightarrow>
     (\<exists>t. GetFile ex_storage (cluster_rt ex_storage ex_choices) None (ex_cid ex_root) (\<lambda>_ _. None) (hc2, dc2, without ''c:1'' ?e2) =
       ((None, ex_chunk), t))" by blast
  have "bs = [ex_chunk]" by (rule ex_blocks) (use bs(1) in simp)
  with bs(2) ex_file_unforgeable obtain t where
    "GetFile ex_storage (cluster_rt ex_storage ex_choices) None (ex_cid ex_root) (\<lambda>_ _. None) (hc2, dc2, without ''c:1'' ?e2) =
       ((None, ex_chunk), t)" by blast
  with e2 c2 show ?thesis by blast
qed

text \<open>The member b stores the example file while it is alone; then a starts, which has nothing.\<close>

lemma ex_alone:
  obtains e h d hb db where "ex_net e" "cl_nodes e ''a:1'' = Some (h, d)" "cl_nodes e ''b:1'' = Some (hb, db)"
    "\<forall>x g dg. cl_nodes e x = Some (g, dg) \<longrightarrow> x \<noteq> ''b:1'' \<longrightarrow> \<not> announces (ex_cid ex_root) g"
    "h_store h = ''s''" "view ex_storage ''s'' d = Map.empty" "h_store hb = ''s''" "holds_file ex_storage ''s'' db (ex_cid ex_root) [ex_chunk]"
proof -
  have v: "view_sound ex_storage (view ex_storage ''s'' Map.empty)" "view ex_storage ''s'' Map.empty = Map.empty"
    by (simp_all add: view_sound_def fun_eq_iff ex_view_eq split: sum.split)
  have in_N: "ex_member 2 ''b'' \<in> ex_roster" "ex_member 1 ''a'' \<in> ex_roster" by (simp_all add: ex_roster_def)
  have none: "cl_nodes ex_empty (''b'' @ '':1'') = None" by (simp add: ex_empty_def)
  obtain hb db e0 where b: "\<And>P. net_move ex_storage ex_os ex_roster ''boot'' P ex_empty (with_node (''b'' @ '':1'') (hb, db, e0))"
    "h_store hb = ''s''" "h_chunker hb = 4" "view ex_storage ''s'' db = view ex_storage ''s'' Map.empty"
    by (rule ex_start [OF none in_N(1) _ v(1)]) (simp, rule that)
  let ?e = "with_node ''b:1'' (hb, db, e0)"
  have "net_step ex_storage ex_os ex_roster ''boot'' ex_empty ?e"
    using b(1) [of "\<lambda>C. own_step ex_storage ex_os C ''boot''"] by simp
  then have e: "ex_net ?e" by (rule reach_step [OF ex_empty_net])
  have up: "cl_nodes ?e ''b:1'' = Some (hb, db)" by simp
  obtain tmp s where u: "store_upload ex_storage ex_os (cluster_rt ex_storage ex_choices) None ex_chunk (hb, db, without ''b:1'' ?e) =
      (tmp, Inr (ex_cid ex_root), s)" by (rule ex_stores_upload [OF b(2,3)]) (rule that)
  obtain hb1 db1 e1 where s: "s = (hb1, db1, e1)" by (rule prod_cases3)
  let ?e1 = "without ''c:1'' (without ''a:1'' (with_node ''b:1'' s))"
  have own: "own_step ex_storage ex_os ex_choices ''boot'' (hb, db, without ''b:1'' ?e) s" by (rule own_upload [OF u])
  have "net_step ex_storage ex_os ex_roster ''boot'' ?e (with_node ''b:1'' s)"
    by (rule net_own [where P = "\<lambda>C. own_step ex_storage ex_os C ''boot''", OF ex_choices_ok(1) up own])
  then have "ex_net (with_node ''b:1'' s)" by (rule reach_step [OF e])
  from reach_step [OF reach_step [OF this net_stop] net_stop] have e1: "ex_net ?e1" .
  have none: "cl_nodes ?e1 (''a'' @ '':1'') = None" by simp
  obtain h d e2 where a: "\<And>P. net_move ex_storage ex_os ex_roster ''boot'' P ?e1 (with_node (''a'' @ '':1'') (h, d, e2))"
    "same_net ?e1 e2" "h_store h = ''s''" "h_providers h = NewProviderRecords" "view ex_storage ''s'' d = view ex_storage ''s'' Map.empty"
    by (rule ex_start [OF none in_N(2) _ v(1)]) (simp, rule that)
  let ?e2 = "with_node ''a:1'' (h, d, e2)"
  have "net_step ex_storage ex_os ex_roster ''boot'' ?e1 ?e2"
    using a(1) [of "\<lambda>C. own_step ex_storage ex_os C ''boot''"] by simp
  then have e2: "ex_net ?e2" by (rule reach_step [OF e1])
  have nodes: "cl_nodes ?e2 ''a:1'' = Some (h, d)" "cl_nodes ?e2 ''b:1'' = Some (hb1, db1)"
    using a(2) by (simp_all add: same_net_def s)
  have "\<not> announces (ex_cid ex_root) g" if g: "cl_nodes ?e2 x = Some (g, dg)" "x \<noteq> ''b:1''" for x g dg
  proof -
    have "node_true ex_storage ex_roster ''boot'' x g dg" using ex_net_true [OF e2] g(1) by (simp add: net_true_def)
    then have "SelfEndpoint g \<in> ex_roster" "h_GrpcAddr g = x" by (simp_all add: node_true_def)
    then have "x = ''a:1'' \<or> x = ''c:1''" using g(2) by (auto simp: ex_roster_def ex_member_def SelfEndpoint_def)
    then have "g = h" using g(1) a(2) by (auto simp: same_net_def s)
    then show ?thesis using a(4) by (simp add: announces_def prov_abs_def NewProviderRecords_def)
  qed
  moreover have "h_store hb1 = ''s'' \<and> holds_file ex_storage ''s'' db1 (ex_cid ex_root) [ex_chunk]"
  proof (rule store_upload_holds [OF ex_storage_ok _ u])
    show "\<not> block_path (os_TempName ex_os ''upload-*'' d)" for d
      using ex_net_env by (simp add: net_env_def temp_files_ok_def)
    fix bs assume bs: "ex_cid ex_root = NewCID ex_storage (file_node_block ex_storage bs)"
      "inj_on (NewCID ex_storage) (set (file_node_block ex_storage bs # bs)) \<Longrightarrow>
        holds_file ex_storage (h_store (fst s)) (fst (snd s)) (ex_cid ex_root) bs"
      "keeps ex_storage (hb, db, without ''b:1'' ?e) s"
    have "bs = [ex_chunk]" by (rule ex_blocks) (use bs(1) in simp)
    moreover from this have "inj_on (NewCID ex_storage) (set (file_node_block ex_storage bs # bs))"
      using ex_file_unforgeable by (intro unforgeable_inj) blast
    moreover have "h_store hb1 = ''s''" using bs(3) b(2,4) v(1) by (simp add: keeps_def s node_view_def)
    ultimately show ?thesis using bs(2) by (simp add: s)
  qed
  ultimately show thesis using a(3,5) v(2) by (intro that [OF e2 nodes]) simp_all
qed

theorem restart_hides_file_witness:
  "\<exists>e h d hb db err t. cl_nodes e ''a:1'' = Some (h, d) \<and> cl_nodes e ''b:1'' = Some (hb, db) \<and>
     holds_file ex_storage (h_store hb) db (ex_cid ex_root) [ex_chunk] \<and>
     GetFile ex_storage (cluster_rt ex_storage ex_choices) None (ex_cid ex_root) (\<lambda>_ _. None) (h, d, without ''a:1'' e) = ((Some err, []), t)"
proof -
  obtain e h d hb db where e: "ex_net e" "cl_nodes e ''a:1'' = Some (h, d)" "cl_nodes e ''b:1'' = Some (hb, db)"
    "\<forall>x g dg. cl_nodes e x = Some (g, dg) \<longrightarrow> x \<noteq> ''b:1'' \<longrightarrow> \<not> announces (ex_cid ex_root) g"
    "h_store h = ''s''" "view ex_storage ''s'' d = Map.empty" "h_store hb = ''s''" "holds_file ex_storage ''s'' db (ex_cid ex_root) [ex_chunk]"
    by (rule ex_alone)
  let ?d = "db(Join [''s'', ''peer.id''] := None)"
  have view: "view ex_storage ''s'' ?d = view ex_storage ''s'' db" by (rule view_frame [OF ex_storage_ok peer_id_no_block])
  have "node_true ex_storage ex_roster ''boot'' ''b:1'' hb db" using ex_net_true [OF e(1)] e(3) by (simp add: net_true_def)
  then have sound: "view_sound ex_storage (view ex_storage ''s'' ?d)" using e(7) view by (simp add: node_true_def node_ok_def node_view_def)
  have none: "cl_nodes (without ''b:1'' e) (''b'' @ '':1'') = None" by simp
  have in_N: "ex_member 2 ''b'' \<in> ex_roster" by (simp add: ex_roster_def)
  obtain hb2 db2 e2 where b: "\<And>P. net_move ex_storage ex_os ex_roster ''boot'' P (without ''b:1'' e) (with_node (''b'' @ '':1'') (hb2, db2, e2))"
    "same_net (without ''b:1'' e) e2" "h_store hb2 = ''s''" "view ex_storage ''s'' db2 = view ex_storage ''s'' ?d"
    by (rule ex_start [OF none in_N _ sound]) (simp, rule that)
  let ?e2 = "with_node ''b:1'' (hb2, db2, e2)"
  have "quiet_step ex_storage ex_os ex_roster ''boot'' (without ''b:1'' e) ?e2" using b(1) [of "quiet_own ex_storage ''boot''"] by simp
  then have run: "(quiet_step ex_storage ex_os ex_roster ''boot'')\<^sup>*\<^sup>* (without ''b:1'' e) ?e2" by (rule r_into_rtranclp)
  have a: "cl_nodes ?e2 ''a:1'' = Some (h, d)" "cl_nodes ?e2 ''b:1'' = Some (hb2, db2)" using b(2) e(2) by (simp_all add: same_net_def)
  have "store_Get ex_storage (h_store h) (ex_cid ex_root) d \<noteq> Inr x" for x using e(5,6) by (simp add: store_Get_view)
  then obtain missing where m: "store_Get ex_storage (h_store h) (ex_cid ex_root) d = Inl missing" by (cases "store_Get ex_storage (h_store h) (ex_cid ex_root) d") auto
  have "ex_cid ex_root \<noteq> []" using ex_cid_key [of ex_root] by (auto simp: KeyFromHex_def keyBytes_def)
  from restart_hides_file [OF ex_net_env e(1,4) this run a(1) m ex_choices_ok(1), of None "\<lambda>_ _. None"]
  obtain err t where "GetFile ex_storage (cluster_rt ex_storage ex_choices) None (ex_cid ex_root) (\<lambda>_ _. None)
      (h, d, without ''a:1'' ?e2) = ((Some err, []), t)" by blast
  moreover have "holds_file ex_storage (h_store hb2) db2 (ex_cid ex_root) [ex_chunk]" using e(8) b(3,4) view by (simp add: holds_file_def)
  ultimately show ?thesis using a by blast
qed

end
