(* ===== verification/NodeLife.thy ===== *)
theory NodeLife
  imports NodeRun
begin

text \<open>
  The serving program from start to exit (\<open>runServe\<close> in \<open>cmd/node/main.go\<close>): the loops start
  first, then the gRPC listener opens, then the HTTP server; a signal stops the loops and starts
  the shutdown, first of HTTP within five seconds, then of gRPC, and at last the connections of
  the node are closed. RPCs and requests are counted from the moment they are accepted; their
  bodies run at the moment they end.
\<close>

section \<open>The program\<close>

datatype loop = BootstrapLoop | HeartbeatLoop | CleanupLoop

datatype stage = Listening | Waiting | ShuttingHttp | Draining | Stopped | Failed

record ('s, 'c, 'e) life =
  lf_node :: "('s, 'c, 'e) node"
  lf_ctxDone :: bool
  lf_loops :: "loop set"
  lf_stage :: stage
  lf_grpc :: bool
  lf_http :: bool
  lf_rpcs :: nat
  lf_requests :: nat

text \<open>\<open>RunLoops\<close>: what one round of a loop does to the node.\<close>

inductive loop_round ::
  "('c, 'e) runtime \<Rightarrow> 'e http_client \<Rightarrow> loop \<Rightarrow> ('s, 'c, 'e) node \<Rightarrow> ('s, 'c, 'e) node \<Rightarrow> bool"
  for rt http where
  lr_bootstrap: "loop_round rt http BootstrapLoop s (bootstrap_tick http rt ctx s)"
| lr_heartbeat: "loop_round rt http HeartbeatLoop s (heartbeat_tick rt ctx s)"
| lr_cleanup: "is_order ks (reg_peers (h_reg (fst s))) \<Longrightarrow> (\<And>i p. prov_wf p \<Longrightarrow> is_order (ord i p) p) \<Longrightarrow>
    loop_round rt http CleanupLoop s (cleanup_round ks ord rt s)"

text \<open>\<open>runServe\<close> after \<open>NewPeerHost\<close>.\<close>

definition launch :: "('s, 'c, 'e) node \<Rightarrow> ('s, 'c, 'e) life" where
  "launch s = \<lparr>lf_node = s, lf_ctxDone = False, lf_loops = {BootstrapLoop, HeartbeatLoop, CleanupLoop},
     lf_stage = Listening, lf_grpc = False, lf_http = False, lf_rpcs = 0, lf_requests = 0\<rparr>"

text \<open>
  The steps. A loop that sees the end of its context stops, but may take another round first. The
  HTTP server may fail to listen, or fail later; that is printed and nothing else. \<open>Shutdown\<close>
  waits for the requests in flight, but no longer than its deadline, which is why it may end at any
  time; \<open>GracefulStop\<close> waits for the RPCs in flight without one.
\<close>

inductive life_step ::
  "'s storage \<Rightarrow> os \<Rightarrow> ('c, 'e) runtime \<Rightarrow> 'e redis \<Rightarrow> 'e http_client \<Rightarrow> ('s, 'c, 'e) life \<Rightarrow> ('s, 'c, 'e) life \<Rightarrow> bool"
  for S os rt R http where
  ls_loop: "l \<in> lf_loops p \<Longrightarrow> loop_round rt http l (lf_node p) s \<Longrightarrow> life_step S os rt R http p (p\<lparr>lf_node := s\<rparr>)"
| ls_loop_ends: "lf_ctxDone p \<Longrightarrow> life_step S os rt R http p (p\<lparr>lf_loops := lf_loops p - {l}\<rparr>)"
| ls_listen_fails: "lf_stage p = Listening \<Longrightarrow> life_step S os rt R http p (p\<lparr>lf_stage := Failed, lf_ctxDone := True\<rparr>)"
| ls_listen: "lf_stage p = Listening \<Longrightarrow>
    life_step S os rt R http p (p\<lparr>lf_stage := Waiting, lf_grpc := True, lf_http := http_listens\<rparr>)"
| ls_http_fails: "life_step S os rt R http p (p\<lparr>lf_http := False\<rparr>)"
| ls_rpc_begins: "lf_grpc p \<Longrightarrow> life_step S os rt R http p (p\<lparr>lf_rpcs := Suc (lf_rpcs p)\<rparr>)"
| ls_rpc_ends: "lf_rpcs p = Suc n \<Longrightarrow> life_step S os rt R http p (p\<lparr>lf_rpcs := n, lf_node := serve S rt c (lf_node p)\<rparr>)"
| ls_request_begins: "lf_http p \<Longrightarrow> life_step S os rt R http p (p\<lparr>lf_requests := Suc (lf_requests p)\<rparr>)"
| ls_request_ends: "lf_requests p = Suc n \<Longrightarrow> api_serve S os rt R ctx conn form r (lf_node p) = Returned (w, s) \<Longrightarrow>
    life_step S os rt R http p (p\<lparr>lf_requests := n, lf_node := s\<rparr>)"
| ls_request_uploads: "lf_requests p = Suc n \<Longrightarrow> store_upload S os rt ctx content (lf_node p) = (tmp, x, s) \<Longrightarrow>
    life_step S os rt R http p (p\<lparr>lf_node := s\<rparr>)"
| ls_redis: "life_step S os rt R http p (p\<lparr>lf_node := redis_round recs (lf_node p)\<rparr>)"
| ls_world: "\<not> block_path path \<Longrightarrow> lf_node p = (h, d, e) \<Longrightarrow>
    life_step S os rt R http p (p\<lparr>lf_node := (h, d(path := x), e')\<rparr>)"
| ls_signal: "life_step S os rt R http p (p\<lparr>lf_ctxDone := True\<rparr>)"
| ls_shutdown: "lf_stage p = Waiting \<Longrightarrow> lf_ctxDone p \<Longrightarrow>
    life_step S os rt R http p (p\<lparr>lf_stage := ShuttingHttp, lf_http := False\<rparr>)"
| ls_http_down: "lf_stage p = ShuttingHttp \<Longrightarrow> life_step S os rt R http p (p\<lparr>lf_stage := Draining, lf_grpc := False\<rparr>)"
| ls_drained: "lf_stage p = Draining \<Longrightarrow> lf_rpcs p = 0 \<Longrightarrow>
    life_step S os rt R http p (p\<lparr>lf_stage := Stopped, lf_node := snd (host_Close rt (lf_node p))\<rparr>)"

section \<open>A safe shutdown\<close>

definition life_ok :: "'s storage \<Rightarrow> ('s, 'c, 'e) life \<Rightarrow> bool" where
  "life_ok S p \<longleftrightarrow> node_ok S (lf_node p) \<and> (lf_http p \<longrightarrow> lf_stage p = Waiting) \<and>
     (lf_grpc p \<longrightarrow> lf_stage p = Waiting \<or> lf_stage p = ShuttingHttp) \<and>
     (0 < lf_rpcs p \<longrightarrow> lf_stage p \<in> {Waiting, ShuttingHttp, Draining}) \<and>
     (lf_stage p \<in> {ShuttingHttp, Draining, Stopped, Failed} \<longrightarrow> lf_ctxDone p)"

definition life_keeps :: "'s storage \<Rightarrow> ('s, 'c, 'e) life \<Rightarrow> ('s, 'c, 'e) life \<Rightarrow> bool" where
  "life_keeps S p q \<longleftrightarrow> life_ok S q \<and> keeps S (lf_node p) (lf_node q)"

lemma loop_round_serving: "loop_round rt http l s t \<Longrightarrow> serving S os rt R http s t"
  by (induction rule: loop_round.induct) (auto intro: sv_bootstrap sv_heartbeat sv_cleanup)

lemma node_ok_Close:
  assumes "node_ok S s" shows "node_ok S (snd (host_Close rt s)) \<and> keeps S s (snd (host_Close rt s))"
proof -
  obtain h d e where s: "s = (h, d, e)" by (rule prod_cases3)
  obtain err conns e' where c: "pool_Close rt (h_conns h, e) = (err, (conns, e'))" by (rule prod_cases3)
  have "keeps S s (h\<lparr>h_conns := conns\<rparr>, d, e')" by (rule keeps_same) (simp_all add: s node_view_def)
  with assms c show ?thesis by (intro node_okI [OF assms]) (simp_all add: s host_Close_def node_ok_def)
qed

text \<open>What the node does in a step of the program is nothing, a step of a serving node, or the closing.\<close>

lemma life_step_node:
  assumes "life_step S os rt R http p q"
  shows "lf_node q = lf_node p \<or> serving S os rt R http (lf_node p) (lf_node q) \<or> lf_node q = snd (host_Close rt (lf_node p))"
  using assms
  by cases (auto intro: loop_round_serving sv_rpc sv_http sv_upload sv_redis sv_world)

lemma life_step_ok:
  assumes "env_ok S os rt" "life_ok S p" "life_step S os rt R http p q"
  shows "life_keeps S p q"
proof -
  have n: "node_ok S (lf_node p)" using assms(2) by (simp add: life_ok_def)
  from life_step_node [OF assms(3)] have "node_ok S (lf_node q) \<and> keeps S (lf_node p) (lf_node q)"
  proof (elim disjE)
    assume "serving S os rt R http (lf_node p) (lf_node q)"
    from serving_step [OF assms(1) n this] show ?thesis .
  qed (use node_ok_Close [OF n, of rt] n in simp_all)
  moreover from assms(3) have "(lf_http q \<longrightarrow> lf_stage q = Waiting) \<and>
     (lf_grpc q \<longrightarrow> lf_stage q = Waiting \<or> lf_stage q = ShuttingHttp) \<and>
     (0 < lf_rpcs q \<longrightarrow> lf_stage q \<in> {Waiting, ShuttingHttp, Draining}) \<and>
     (lf_stage q \<in> {ShuttingHttp, Draining, Stopped, Failed} \<longrightarrow> lf_ctxDone q)"
    by cases (use assms(2) in \<open>auto simp: life_ok_def\<close>)
  ultimately show ?thesis by (simp add: life_keeps_def life_ok_def)
qed

interpretation life: invariant_machine "\<lambda>p. \<exists>s. started S os rt s \<and> p = launch s" "life_step S os rt R http"
  "\<lambda>p :: ('s, 'c, 'e) life. env_ok S os rt \<longrightarrow> life_ok S p"
  for S :: "'s storage" and os :: os and rt :: "('c, 'e) runtime" and R :: "'e redis" and http :: "'e http_client"
proof unfold_locales
  fix p :: "('s, 'c, 'e) life"
  assume "\<exists>s. started S os rt s \<and> p = launch s"
  then obtain s where "started S os rt s" "p = launch s" by blast
  then show "env_ok S os rt \<longrightarrow> life_ok S p" using started_ok [of S os rt s] by (simp add: life_ok_def launch_def)
next
  fix p q :: "('s, 'c, 'e) life"
  assume "env_ok S os rt \<longrightarrow> life_ok S p" "life_step S os rt R http p q"
  then show "env_ok S os rt \<longrightarrow> life_ok S q" using life_step_ok [of S os rt p R http q] by (simp add: life_keeps_def)
qed

lemma life_run:
  assumes "env_ok S os rt" "(life_step S os rt R http)\<^sup>*\<^sup>* p q" "life_ok S p"
  shows "life_keeps S p q"
  using assms(2)
proof induction
  case base
  then show ?case using assms(3) by (simp add: life_keeps_def)
next
  case (step q r)
  then have "life_keeps S q r" using life_step_ok [OF assms(1) _ step.hyps(2)] by (simp add: life_keeps_def)
  with step.IH keeps_trans [of S "lf_node p" "lf_node q" "lf_node r"] show ?case by (simp add: life_keeps_def)
qed

text \<open>
  C15. A node serves and stops in order. In every state the program reaches, it takes requests
  only while it waits for a signal, and RPCs only then and while the HTTP server shuts down; it
  shuts down only after the signal, and when it has exited, no RPC it took was left unanswered.
  Through start, service and shutdown the store loses nothing: a file the node held when it
  started, or at any time since, is still in its store, unless somebody can make other blocks
  with the ids of its blocks.
\<close>

theorem shutdown_safe:
  assumes "env_ok S os rt" "started S os rt s" "(life_step S os rt R http)\<^sup>*\<^sup>* (launch s) p" "(life_step S os rt R http)\<^sup>*\<^sup>* p q"
  shows "(lf_http q \<longrightarrow> lf_stage q = Waiting) \<and> (lf_grpc q \<longrightarrow> lf_stage q \<in> {Waiting, ShuttingHttp}) \<and>
    (lf_stage q \<in> {ShuttingHttp, Draining, Stopped} \<longrightarrow> lf_ctxDone q) \<and> (lf_stage q = Stopped \<longrightarrow> lf_rpcs q = 0) \<and>
    (\<forall>root bs. holds_file S (h_store (fst (lf_node p))) (fst (snd (lf_node p))) root bs \<longrightarrow>
       (\<forall>b\<in>set (file_node_block S bs # bs). unforgeable S b) \<longrightarrow>
       holds_file S (h_store (fst (lf_node q))) (fst (snd (lf_node q))) root bs)"
proof -
  have "life_ok S (launch s)" using started_ok [OF assms(1,2)] by (simp add: life_ok_def launch_def)
  with life_run [OF assms(1,3)] have p: "life_ok S p" by (simp add: life_keeps_def)
  with life_run [OF assms(1,4)] have q: "life_ok S q" "keeps S (lf_node p) (lf_node q)" by (simp_all add: life_keeps_def)
  have "view_sound S (node_view S (lf_node p))" using p by (simp add: life_ok_def node_ok_def)
  from keeps_file [OF q(2) this] have
    "holds_file S (h_store (fst (lf_node p))) (fst (snd (lf_node p))) root bs \<Longrightarrow>
     \<forall>b\<in>set (file_node_block S bs # bs). unforgeable S b \<Longrightarrow>
     holds_file S (h_store (fst (lf_node q))) (fst (snd (lf_node q))) root bs" for root bs by blast
  then show ?thesis using q(1) by (auto simp: life_ok_def)
qed

text \<open>
  A node can always be stopped: a signal, the shutdown of HTTP at its deadline at the latest, and
  the ends of the RPCs in flight.
\<close>

lemma life_stops:
  assumes "lf_stage p \<noteq> Failed"
  shows "\<exists>q. (life_step S os rt R http)\<^sup>*\<^sup>* p q \<and> lf_stage q = Stopped"
proof -
  let ?stops = "\<lambda>p. \<exists>q. (life_step S os rt R http)\<^sup>*\<^sup>* p q \<and> lf_stage q = Stopped"
  have go: "?stops p" if "life_step S os rt R http p p1" "?stops p1" for p p1
    using that by (meson converse_rtranclp_into_rtranclp)
  have drain: "?stops p" if "lf_stage p = Draining" for p
    using that
  proof (induction "lf_rpcs p" arbitrary: p)
    case 0
    show ?case by (rule go [OF ls_drained [OF 0(2) 0(1) [symmetric]]]) auto
  next
    case (Suc n)
    show ?case by (rule go [OF ls_rpc_ends [OF Suc(2) [symmetric], where c = "CallGetBlock None"]], rule Suc(1)) (simp_all add: Suc(3))
  qed
  have http: "?stops p" if "lf_stage p = ShuttingHttp" for p
    by (rule go [OF ls_http_down [OF that]], rule drain) simp
  have signalled: "?stops p" if "lf_stage p = Waiting" "lf_ctxDone p" for p
    by (rule go [OF ls_shutdown [OF that]], rule http) simp
  have waiting: "?stops p" if "lf_stage p = Waiting" for p
    by (rule go [OF ls_signal], rule signalled) (use that in simp_all)
  have "?stops p" if "lf_stage p = Listening"
    by (rule go [OF ls_listen [OF that, where http_listens = True]], rule waiting) simp
  then show ?thesis using assms waiting [of p] http [of p] drain [of p] by (cases "lf_stage p") auto
qed

section \<open>Example\<close>

theorem shutdown_safe_witness:
  "\<exists>s q. lf_stage q = Stopped \<and> lf_rpcs q = 0 \<and>
     (life_step ex_storage ex_os (ex_rt [] []) (ex_redis '''') (\<lambda>_ _ _ e. (Inl '''', e)))\<^sup>*\<^sup>* (launch s) q \<and>
     holds_file ex_storage (h_store (fst (lf_node q))) (fst (snd (lf_node q))) (ex_cid ex_root) [ex_chunk]"
proof -
  let ?http = "\<lambda>_ _ _ e :: nat. (Inl '''', e)"
  obtain h d e where s: "started ex_storage ex_os (ex_rt [] []) (h, d, e)" "h_store h = ''s''"
    "view ex_storage ''s'' d = view ex_storage ''s'' ex_stored" by (rule ex_started)
  let ?p = "launch (h, d, e)"
  have "lf_stage ?p \<noteq> Failed" by (simp add: launch_def)
  then obtain q where q: "(life_step ex_storage ex_os (ex_rt [] []) (ex_redis '''') ?http)\<^sup>*\<^sup>* ?p q" "lf_stage q = Stopped"
    using life_stops by blast
  note safe = shutdown_safe [OF ex_env_ok s(1) rtranclp.rtrancl_refl q(1)]
  have "holds_file ex_storage (h_store (fst (lf_node ?p))) (fst (snd (lf_node ?p))) (ex_cid ex_root) [ex_chunk]"
    using ex_stored_file s(2,3) by (simp add: launch_def holds_file_def)
  moreover have "\<forall>b\<in>set (file_node_block ex_storage [ex_chunk] # [ex_chunk]). unforgeable ex_storage b" by (rule ex_stored_file)
  ultimately have "holds_file ex_storage (h_store (fst (lf_node q))) (fst (snd (lf_node q))) (ex_cid ex_root) [ex_chunk]"
    using safe by blast
  with safe q show ?thesis by blast
qed

end
