(* ===== verification/CatalogLock.thy ===== *)
theory CatalogLock
  imports NodeCalls
begin

text \<open>
  The lock of the catalog: \<open>UpdateGlobalCatalog\<close> of \<open>internal/coordinator/node.go\<close> with Redis. It
  does not hold the mutex of the node then: the updates of a node interleave between its calls, and
  the lock in Redis, taken for ten seconds, is all that keeps them apart. The machine
  \<open>race_step\<close> runs any number of updates on one node, each cut into the calls of the function;
  its steps are the functions of \<open>Catalog\<close>, and an update that is not interrupted is
  \<open>update_locked\<close>. Then what each call does to Redis, and that the lock excludes while it lasts.
\<close>

section \<open>The updates\<close>

text \<open>
  How far an update has come; the number is the time at which the lock it took runs out. A failed
  \<open>SET\<close> of the pointer is only logged, so the update goes on and succeeds; the flag says whether the
  \<open>SET\<close> was answered. An update that fails still releases the lock. The log has the updates that set
  the pointer, in order.
\<close>

datatype phase =
    Waits string
  | Locked string int
  | GotCid string int string
  | GotBytes string int bytes
  | Stored string int string
  | Published string int bool
  | Failing int
  | Updated string bool
  | GaveUp

record ('s, 'c, 'e) race =
  rc_node :: "('s, 'c, 'e) node"
  rc_phase :: "nat \<Rightarrow> phase"
  rc_log :: "(nat \<times> string) list"

text \<open>Redis: what holds of a key, where a value may run out.\<close>

definition alive :: "('e \<Rightarrow> int) \<Rightarrow> ('e \<Rightarrow> string \<rightharpoonup> string \<times> int option) \<Rightarrow> 'e \<Rightarrow> string \<Rightarrow> string option" where
  "alive clock kv e k =
     (case kv e k of None \<Rightarrow> None
      | Some (v, None) \<Rightarrow> Some v
      | Some (v, Some t) \<Rightarrow> if clock e < t then Some v else None)"

text \<open>
  What is relied on of Redis: \<open>SET NX\<close> takes a key that holds nothing, and only then says so; \<open>GET\<close>
  gives nothing but what a key holds; \<open>SET\<close> sets a key when it says so; \<open>DEL\<close> deletes nothing else.
  Each call may fail, also after it has taken effect, when only its answer is lost.
\<close>

definition redis_setnx_ok :: "'e redis \<Rightarrow> ('e \<Rightarrow> int) \<Rightarrow> ('e \<Rightarrow> string \<rightharpoonup> string \<times> int option) \<Rightarrow> bool" where
  "redis_setnx_ok R clock kv \<longleftrightarrow>
     (\<forall>ctx k v ttl e r e'. rd_SetNX R ctx k v ttl e = (r, e') \<longrightarrow> clock e \<le> clock e' \<and>
        (r = Inr True \<and> alive clock kv e k = None \<and> kv e' = (kv e)(k \<mapsto> (v, Some (clock e + ttl))) \<or>
         r \<noteq> Inr True \<and> kv e' = kv e \<or>
         r \<noteq> Inr True \<and> alive clock kv e k = None \<and> kv e' = (kv e)(k \<mapsto> (v, Some (clock e + ttl)))))"

definition redis_get_ok :: "'e redis \<Rightarrow> ('e \<Rightarrow> int) \<Rightarrow> ('e \<Rightarrow> string \<rightharpoonup> string \<times> int option) \<Rightarrow> bool" where
  "redis_get_ok R clock kv \<longleftrightarrow>
     (\<forall>ctx k e r e'. rd_Get R ctx k e = (r, e') \<longrightarrow> clock e \<le> clock e' \<and> kv e' = kv e \<and>
        (\<forall>v. r = Inr v \<longrightarrow> alive clock kv e k = Some v))"

definition redis_set_ok :: "'e redis \<Rightarrow> ('e \<Rightarrow> int) \<Rightarrow> ('e \<Rightarrow> string \<rightharpoonup> string \<times> int option) \<Rightarrow> bool" where
  "redis_set_ok R clock kv \<longleftrightarrow>
     (\<forall>ctx k v e r e'. rd_Set R ctx k v 0 e = (r, e') \<longrightarrow> clock e \<le> clock e' \<and>
        (kv e' = (kv e)(k \<mapsto> (v, None)) \<or> r \<noteq> None \<and> kv e' = kv e)) \<and>
     (\<forall>ctx k e. clock e \<le> clock (rd_Del R ctx k e) \<and>
        (kv (rd_Del R ctx k e) = (kv e)(k := None) \<or> kv (rd_Del R ctx k e) = kv e))"

definition redis_ok :: "'e redis \<Rightarrow> ('e \<Rightarrow> int) \<Rightarrow> ('e \<Rightarrow> string \<rightharpoonup> string \<times> int option) \<Rightarrow> bool" where
  "redis_ok R clock kv \<longleftrightarrow> redis_setnx_ok R clock kv \<and> redis_get_ok R clock kv \<and> redis_set_ok R clock kv"

text \<open>Whatever else runs leaves the two keys alone: only updates use them.\<close>

definition same_keys :: "('e \<Rightarrow> string \<rightharpoonup> string \<times> int option) \<Rightarrow> 'e \<Rightarrow> 'e \<Rightarrow> bool" where
  "same_keys kv e e' \<longleftrightarrow> kv e' lockKey = kv e lockKey \<and> kv e' catalog_key = kv e catalog_key"

inductive race_step ::
  "'s storage \<Rightarrow> os \<Rightarrow> ('c, 'e) runtime \<Rightarrow> 'e redis \<Rightarrow> ('e \<Rightarrow> int) \<Rightarrow> ('e \<Rightarrow> string \<rightharpoonup> string \<times> int option) \<Rightarrow>
   ('s, 'c, 'e) race \<Rightarrow> ('s, 'c, 'e) race \<Rightarrow> bool"
  for S os rt R clock kv where
  rc_lock: "rc_phase p i = Waits line \<Longrightarrow> rc_node p = (h, d, e) \<Longrightarrow> try_lock R ctx (h_SelfID h) e = (True, e') \<Longrightarrow>
    race_step S os rt R clock kv p
      (p\<lparr>rc_node := (h, d, e'), rc_phase := (rc_phase p)(i := Locked line (clock e + 10 * second))\<rparr>)"
| rc_busy: "rc_phase p i = Waits line \<Longrightarrow> rc_node p = (h, d, e) \<Longrightarrow> try_lock R ctx (h_SelfID h) e = (False, e') \<Longrightarrow>
    race_step S os rt R clock kv p (p\<lparr>rc_node := (h, d, e')\<rparr>)"
| rc_gives_up: "rc_phase p i = Waits line \<Longrightarrow>
    race_step S os rt R clock kv p (p\<lparr>rc_phase := (rc_phase p)(i := GaveUp)\<rparr>)"
| rc_cid: "rc_phase p i = Locked line t \<Longrightarrow> current_cid R ctx (rc_node p) = (c, s) \<Longrightarrow>
    race_step S os rt R clock kv p (p\<lparr>rc_node := s, rc_phase := (rc_phase p)(i := GotCid line t c)\<rparr>)"
| rc_bytes: "rc_phase p i = GotCid line t c \<Longrightarrow> current_bytes S rt ctx c (rc_node p) = (b, s) \<Longrightarrow>
    race_step S os rt R clock kv p (p\<lparr>rc_node := s, rc_phase := (rc_phase p)(i := GotBytes line t b)\<rparr>)"
| rc_store: "rc_phase p i = GotBytes line t b \<Longrightarrow>
    upload_bytes S os rt ctx (b @ bytes_of_string line) (rc_node p) = (Inr c, s) \<Longrightarrow>
    race_step S os rt R clock kv p (p\<lparr>rc_node := s, rc_phase := (rc_phase p)(i := Stored line t c)\<rparr>)"
| rc_store_fails: "rc_phase p i = GotBytes line t b \<Longrightarrow>
    upload_bytes S os rt ctx (b @ bytes_of_string line) (rc_node p) = (Inl err, s) \<Longrightarrow>
    race_step S os rt R clock kv p (p\<lparr>rc_node := s, rc_phase := (rc_phase p)(i := Failing t)\<rparr>)"
| rc_publish: "rc_phase p i = Stored line t c \<Longrightarrow> rc_node p = (h, d, e) \<Longrightarrow>
    rd_Set R ctx catalog_key c 0 e = (None, e') \<Longrightarrow>
    race_step S os rt R clock kv p
      (p\<lparr>rc_node := set_current R ctx c (h, d, e), rc_phase := (rc_phase p)(i := Published line t True),
         rc_log := rc_log p @ [(i, line)]\<rparr>)"
| rc_publish_fails: "rc_phase p i = Stored line t c \<Longrightarrow> rc_node p = (h, d, e) \<Longrightarrow>
    rd_Set R ctx catalog_key c 0 e = (Some err, e') \<Longrightarrow> kv e' catalog_key = kv e catalog_key \<Longrightarrow>
    race_step S os rt R clock kv p
      (p\<lparr>rc_node := set_current R ctx c (h, d, e), rc_phase := (rc_phase p)(i := Published line t False)\<rparr>)"
| rc_publish_unanswered: "rc_phase p i = Stored line t c \<Longrightarrow> rc_node p = (h, d, e) \<Longrightarrow>
    rd_Set R ctx catalog_key c 0 e = (Some err, e') \<Longrightarrow> kv e' catalog_key \<noteq> kv e catalog_key \<Longrightarrow>
    race_step S os rt R clock kv p
      (p\<lparr>rc_node := set_current R ctx c (h, d, e), rc_phase := (rc_phase p)(i := Published line t False),
         rc_log := rc_log p @ [(i, line)]\<rparr>)"
| rc_release: "rc_phase p i = Published line t ok \<Longrightarrow> rc_node p = (h, d, e) \<Longrightarrow>
    race_step S os rt R clock kv p
      (p\<lparr>rc_node := (h, d, rd_Del R None lockKey e), rc_phase := (rc_phase p)(i := Updated line ok)\<rparr>)"
| rc_release_failed: "rc_phase p i = Failing t \<Longrightarrow> rc_node p = (h, d, e) \<Longrightarrow>
    race_step S os rt R clock kv p
      (p\<lparr>rc_node := (h, d, rd_Del R None lockKey e), rc_phase := (rc_phase p)(i := GaveUp)\<rparr>)"
| rc_other: "keeps S (rc_node p) s \<Longrightarrow> reg_rdb (h_reg (fst s)) \<noteq> None \<Longrightarrow> same_keys kv (snd (snd (rc_node p))) (snd (snd s)) \<Longrightarrow>
    race_step S os rt R clock kv p (p\<lparr>rc_node := s\<rparr>)"

text \<open>An update that has the lock and is not interrupted is \<open>update_locked\<close> of \<open>Catalog\<close>.\<close>

lemma update_locked_runs:
  assumes "rc_phase p i = Locked line t" "update_locked S os rt R ctx line (rc_node p) = (r, s)"
  shows "\<exists>x l. (race_step S os rt R clock kv)\<^sup>*\<^sup>* p (p\<lparr>rc_node := s, rc_phase := (rc_phase p)(i := x), rc_log := l\<rparr>) \<and>
    (case r of Inl err \<Rightarrow> x = Failing t | Inr c \<Rightarrow> \<exists>ok. x = Published line t ok)"
proof -
  let ?step = "race_step S os rt R clock kv"
  obtain c s1 where 1: "current_cid R ctx (rc_node p) = (c, s1)" by (rule prod.exhaust)
  obtain b s2 where 2: "current_bytes S rt ctx c s1 = (b, s2)" by (rule prod.exhaust)
  obtain z s3 where 3: "upload_bytes S os rt ctx (b @ bytes_of_string line) s2 = (z, s3)" by (rule prod.exhaust)
  let ?p1 = "p\<lparr>rc_node := s1, rc_phase := (rc_phase p)(i := GotCid line t c)\<rparr>"
  let ?p2 = "p\<lparr>rc_node := s2, rc_phase := (rc_phase p)(i := GotBytes line t b)\<rparr>"
  have "?step p ?p1" using assms(1) 1 by (rule rc_cid)
  moreover have "?step ?p1 ?p2" using rc_bytes [of ?p1 i line t c S rt ctx b s2 os R clock kv] 2 by simp
  ultimately have run: "?step\<^sup>*\<^sup>* p ?p2" by simp
  show ?thesis
  proof (cases z)
    case (Inl err)
    let ?q = "p\<lparr>rc_node := s3, rc_phase := (rc_phase p)(i := Failing t)\<rparr>"
    have "?step ?p2 ?q"
      using rc_store_fails [of ?p2 i line t b S os rt ctx err s3 R clock kv] 3 Inl by simp
    with run have "?step\<^sup>*\<^sup>* p ?q" by simp
    moreover have "p\<lparr>rc_node := s3, rc_phase := (rc_phase p)(i := Failing t), rc_log := rc_log p\<rparr> = ?q" by (cases p) simp
    moreover have "r = Inl err" "s = s3" using assms(2) 1 2 3 Inl by (simp_all add: update_locked_def)
    ultimately show ?thesis by (intro exI [of _ "Failing t"] exI [of _ "rc_log p"]) simp
  next
    case (Inr new)
    let ?p3 = "p\<lparr>rc_node := s3, rc_phase := (rc_phase p)(i := Stored line t new)\<rparr>"
    obtain h d e where n: "s3 = (h, d, e)" by (rule prod_cases3)
    obtain y e' where y: "rd_Set R ctx catalog_key new 0 e = (y, e')" by (rule prod.exhaust)
    have r: "r = Inr new" "s = set_current R ctx new (h, d, e)" using assms(2) 1 2 3 Inr n by (simp_all add: update_locked_def)
    have 4: "?step ?p2 ?p3"
      using rc_store [of ?p2 i line t b S os rt ctx new s3 R clock kv] 3 Inr by simp
    let ?q = "\<lambda>ok l. p\<lparr>rc_node := s, rc_phase := (rc_phase p)(i := Published line t ok), rc_log := l\<rparr>"
    have "\<exists>ok l. ?step ?p3 (?q ok l)"
    proof (cases y)
      case None
      with rc_publish [of ?p3 i line t new h d e R ctx e' S os rt clock kv] y n r(2) show ?thesis by auto
    next
      case (Some err)
      show ?thesis
      proof (cases "kv e' catalog_key = kv e catalog_key")
        case True
        with rc_publish_fails [of ?p3 i line t new h d e R ctx err e' kv S os rt clock] y Some n r(2)
        have "?step ?p3 (p\<lparr>rc_node := s, rc_phase := (rc_phase p)(i := Published line t False)\<rparr>)" by simp
        moreover have "?q False (rc_log p) = p\<lparr>rc_node := s, rc_phase := (rc_phase p)(i := Published line t False)\<rparr>"
          by (cases p) simp
        ultimately have "?step ?p3 (?q False (rc_log p))" by simp
        then show ?thesis by blast
      next
        case False
        with rc_publish_unanswered [of ?p3 i line t new h d e R ctx err e' kv S os rt clock] y Some n r(2)
        have "?step ?p3 (?q False (rc_log p @ [(i, line)]))" by simp
        then show ?thesis by blast
      qed
    qed
    then obtain ok l where "?step ?p3 (?q ok l)" by blast
    with run 4 have "?step\<^sup>*\<^sup>* p (?q ok l)" by (meson rtranclp.rtrancl_into_rtrancl)
    with r(1) show ?thesis by auto
  qed
qed

section \<open>What a single call does\<close>

abbreviation same_redis :: "('e \<Rightarrow> string \<rightharpoonup> string \<times> int option) \<Rightarrow> ('c, 'e) net \<Rightarrow> ('c, 'e) net \<Rightarrow> bool" where
  "same_redis kv \<equiv> \<lambda>n m. same_keys kv (snd n) (snd m)"

text \<open>Uploads between nodes leave Redis alone.\<close>

lemma upload_bytes_world:
  assumes "push_relation rt (\<lambda>n m. Q (snd n) (snd m))" "upload_bytes S os rt ctx b (h, d, e) = (r, (h', d', e'))"
  shows "(Q e e' \<or> e' = e) \<and> h_reg h' = h_reg h"
proof -
  have "Q (snd (net_of s)) (snd (net_of (snd (AddFile S os rt ctx path s))))" for path s
    by (rule push_relation.R_AddFile [OF assms(1)])
  from this [of "(h, _, e)"]
  have add: "Q e (snd (snd (snd (AddFile S os rt ctx path (h, d2, e)))))" for path d2
    by (simp add: net_of_def split_beta)
  have reg: "h_reg (fst (snd (AddFile S os rt ctx path (h, d2, e)))) = h_reg h" for path d2
    using local_change_fields [OF local_change_AddFile [of "(h, d2, e)" S os rt ctx path]] by simp
  let ?tmp = "os_TempName os ''catalog-*'' d"
  obtain x h1 d1 e1 where a: "AddFile S os rt ctx ?tmp (h, d(?tmp \<mapsto> b), e) = (x, (h1, d1, e1))" by (rule prod_cases4)
  have "e' = e \<and> h' = h \<or> e' = e1 \<and> h' = h1"
    using assms(2) a by (auto simp: upload_bytes_def os_CreateTemp_def file_Write_def Let_def split: option.splits)
  with add [of ?tmp "d(?tmp \<mapsto> b)"] reg [of ?tmp "d(?tmp \<mapsto> b)"] a show ?thesis by auto
qed

lemma upload_bytes_quiet:
  assumes "push_relation rt (same_redis kv)" "upload_bytes S os rt ctx b (h, d, e) = (r, (h', d', e'))"
  shows "same_keys kv e e' \<and> h_reg h' = h_reg h"
  using upload_bytes_world [where Q = "same_keys kv", OF assms] by (auto simp: same_keys_def)

lemma current_bytes_quiet:
  assumes "read_relation rt (same_redis kv)" "current_bytes S rt ctx c (h, d, e) = (b, (h', d', e'))"
  shows "same_keys kv e e' \<and> h_reg h' = h_reg h"
proof -
  have "same_keys kv (snd (net_of s)) (snd (net_of (snd (GetFile S rt ctx c w s))))" for w s
    by (rule read_relation.R_GetFile [OF assms(1)])
  from this [of "(h, d, e)"]
  have get: "same_keys kv e (snd (snd (snd (GetFile S rt ctx c w (h, d, e)))))" for w
    by (simp add: net_of_def split_beta)
  have reg: "h_reg (fst (snd (GetFile S rt ctx c w (h, d, e)))) = h_reg h" for w
    using local_change_fields [OF local_change_GetFile [of "(h, d, e)" S rt ctx c w]] by simp
  show ?thesis
    using assms(2) get [of "\<lambda>_ _. None"] reg [of "\<lambda>_ _. None"]
    by (auto simp: current_bytes_def same_keys_def split: if_splits prod.splits option.splits)
qed

lemma try_lock_redis:
  assumes "redis_ok R clock kv" "try_lock R ctx self e = (ok, e')"
  shows "clock e \<le> clock e'"
    and "ok \<and> alive clock kv e lockKey = None \<and> kv e' = (kv e)(lockKey \<mapsto> (self, Some (clock e + 10 * second))) \<or>
      \<not> ok \<and> kv e' = kv e \<or>
      \<not> ok \<and> alive clock kv e lockKey = None \<and> kv e' = (kv e)(lockKey \<mapsto> (self, Some (clock e + 10 * second)))"
proof -
  obtain r e1 where n: "rd_SetNX R ctx lockKey self (10 * second) e = (r, e1)" by (rule prod.exhaust)
  have "redis_setnx_ok R clock kv" using assms(1) by (simp add: redis_ok_def)
  note law = this [unfolded redis_setnx_ok_def, rule_format, OF n]
  have "e1 = e'" "ok \<longleftrightarrow> r = Inr True" using assms(2) n by (auto simp: try_lock_def split: sum.splits bool.splits)
  with law show "clock e \<le> clock e'"
    "ok \<and> alive clock kv e lockKey = None \<and> kv e' = (kv e)(lockKey \<mapsto> (self, Some (clock e + 10 * second))) \<or>
     \<not> ok \<and> kv e' = kv e \<or>
     \<not> ok \<and> alive clock kv e lockKey = None \<and> kv e' = (kv e)(lockKey \<mapsto> (self, Some (clock e + 10 * second)))"
    by simp_all
qed

lemma current_cid_redis:
  assumes "redis_ok R clock kv" "reg_rdb (h_reg h) \<noteq> None" "current_cid R ctx (h, d, e) = (c, s)"
  obtains e' where "s = (h, d, e')" "clock e \<le> clock e'" "kv e' = kv e"
    "c = [] \<or> alive clock kv e catalog_key = Some c"
proof -
  obtain r e' where g: "rd_Get R ctx catalog_key e = (r, e')" by (rule prod.exhaust)
  have "redis_get_ok R clock kv" using assms(1) by (simp add: redis_ok_def)
  note law = this [unfolded redis_get_ok_def, rule_format, OF g]
  show thesis
    by (rule that [of e'])
       (use law assms(2,3) g in \<open>auto simp: current_cid_def split: sum.splits\<close>)
qed

lemma set_current_redis:
  "reg_rdb (h_reg h) \<noteq> None \<Longrightarrow> rd_Set R ctx catalog_key c 0 e = (r, e') \<Longrightarrow> set_current R ctx c (h, d, e) = (h, d, e')"
  by (auto simp: set_current_def)

lemma redis_Set:
  assumes "redis_ok R clock kv" "rd_Set R ctx k v 0 e = (r, e')"
  shows "clock e \<le> clock e' \<and> (kv e' = (kv e)(k \<mapsto> (v, None)) \<or> r \<noteq> None \<and> kv e' = kv e)"
  using assms(1) [unfolded redis_ok_def redis_set_ok_def] assms(2) by simp

lemma redis_Del:
  "redis_ok R clock kv \<Longrightarrow> clock e \<le> clock (rd_Del R ctx k e) \<and>
     (kv (rd_Del R ctx k e) = (kv e)(k := None) \<or> kv (rd_Del R ctx k e) = kv e)"
  unfolding redis_ok_def redis_set_ok_def by simp

lemma lock_not_catalog [simp]: "lockKey \<noteq> catalog_key" "catalog_key \<noteq> lockKey"
  by (simp_all add: lockKey_def catalog_key_def)

section \<open>The lock\<close>

text \<open>The lock that a client in some phase relies on, by the time it runs out.\<close>

fun deadline :: "phase \<Rightarrow> int option" where
  "deadline (Locked line t) = Some t"
| "deadline (GotCid line t c) = Some t"
| "deadline (GotBytes line t b) = Some t"
| "deadline (Stored line t c) = Some t"
| "deadline (Published line t ok) = Some t"
| "deadline (Failing t) = Some t"
| "deadline _ = None"

fun published :: "phase \<Rightarrow> string option" where
  "published (Published line t ok) = (if ok then Some line else None)"
| "published (Updated line ok) = (if ok then Some line else None)"
| "published _ = None"

text \<open>Each update that holds the lock is within its ten seconds.\<close>

definition in_time :: "('e \<Rightarrow> int) \<Rightarrow> ('s, 'c, 'e) race \<Rightarrow> bool" where
  "in_time clock p \<longleftrightarrow> (\<forall>i t. deadline (rc_phase p i) = Some t \<longrightarrow> clock (snd (snd (rc_node p))) < t)"

definition locks_ok :: "('e \<Rightarrow> string \<rightharpoonup> string \<times> int option) \<Rightarrow> ('s, 'c, 'e) race \<Rightarrow> bool" where
  "locks_ok kv p \<longleftrightarrow>
     (\<forall>i t. deadline (rc_phase p i) = Some t \<longrightarrow> (\<exists>v. kv (snd (snd (rc_node p))) lockKey = Some (v, Some t))) \<and>
     (\<forall>i j. deadline (rc_phase p i) \<noteq> None \<and> deadline (rc_phase p j) \<noteq> None \<longrightarrow> i = j)"

lemma locks_okI:
  assumes "\<And>i t. deadline (rc_phase p i) = Some t \<Longrightarrow> \<exists>v. kv (snd (snd (rc_node p))) lockKey = Some (v, Some t)"
    and "\<And>i j t u. deadline (rc_phase p i) = Some t \<Longrightarrow> deadline (rc_phase p j) = Some u \<Longrightarrow> i = j"
  shows "locks_ok kv p"
  using assms unfolding locks_ok_def by blast

lemma locks_okD:
  assumes "locks_ok kv p"
  shows "deadline (rc_phase p i) = Some t \<Longrightarrow> \<exists>v. kv (snd (snd (rc_node p))) lockKey = Some (v, Some t)"
    and "deadline (rc_phase p i) = Some t \<Longrightarrow> deadline (rc_phase p j) = Some u \<Longrightarrow> i = j"
  using assms unfolding locks_ok_def by blast+

lemma locks_others: "locks_ok kv p \<Longrightarrow> deadline (rc_phase p i) \<noteq> None \<Longrightarrow> j \<noteq> i \<Longrightarrow> deadline (rc_phase p j) = None"
  unfolding locks_ok_def by blast

lemma locks_free:
  assumes "locks_ok kv p" "in_time clock p" "alive clock kv (snd (snd (rc_node p))) lockKey = None"
  shows "deadline (rc_phase p i) = None"
proof (cases "deadline (rc_phase p i)")
  case (Some t)
  from locks_okD(1) [OF assms(1) this] obtain v where v: "kv (snd (snd (rc_node p))) lockKey = Some (v, Some t)" by blast
  moreover have "clock (snd (snd (rc_node p))) < t" using assms(2) Some by (simp add: in_time_def)
  ultimately show ?thesis using assms(3) by (simp add: alive_def)
qed

text \<open>A step that leaves the lock alone, and one of the client that has it to itself.\<close>

lemma locks_same:
  assumes "locks_ok kv p" "kv (snd (snd s)) lockKey = kv (snd (snd (rc_node p))) lockKey"
    and "deadline x = None \<or> deadline x = deadline (rc_phase p i)"
  shows "locks_ok kv (p\<lparr>rc_node := s, rc_phase := (rc_phase p)(i := x), rc_log := l\<rparr>)"
proof (rule locks_okI)
  let ?q = "p\<lparr>rc_node := s, rc_phase := (rc_phase p)(i := x), rc_log := l\<rparr>"
  have d: "deadline (rc_phase p j) = Some t" if "deadline (rc_phase ?q j) = Some t" for j t
    using that assms(3) by (cases "j = i") auto
  show "\<exists>v. kv (snd (snd (rc_node ?q))) lockKey = Some (v, Some t)" if "deadline (rc_phase ?q j) = Some t" for j t
    using locks_okD(1) [OF assms(1) d [OF that]] assms(2) by simp
  show "j = k" if "deadline (rc_phase ?q j) = Some t" "deadline (rc_phase ?q k) = Some u" for j k t u
    using locks_okD(2) [OF assms(1) d d] that by blast
qed

lemma locks_alone:
  assumes "\<And>j. j \<noteq> i \<Longrightarrow> deadline (rc_phase p j) = None"
    and "\<And>t. deadline x = Some t \<Longrightarrow> \<exists>v. kv (snd (snd s)) lockKey = Some (v, Some t)"
  shows "locks_ok kv (p\<lparr>rc_node := s, rc_phase := (rc_phase p)(i := x)\<rparr>)"
proof (rule locks_okI)
  let ?q = "p\<lparr>rc_node := s, rc_phase := (rc_phase p)(i := x)\<rparr>"
  have d: "j = i" "deadline x = Some t" if "deadline (rc_phase ?q j) = Some t" for j t
    using that assms(1) [of j] by (cases "j = i"; simp)+
  show "\<exists>v. kv (snd (snd (rc_node ?q))) lockKey = Some (v, Some t)" if "deadline (rc_phase ?q j) = Some t" for j t
    using assms(2) [OF d(2) [OF that]] by simp
  show "j = k" if "deadline (rc_phase ?q j) = Some t" "deadline (rc_phase ?q k) = Some u" for j k t u
    using d(1) that by metis
qed

lemma locks_node:
  "locks_ok kv p \<Longrightarrow> kv (snd (snd s)) lockKey = kv (snd (snd (rc_node p))) lockKey \<Longrightarrow> locks_ok kv (p\<lparr>rc_node := s\<rparr>)"
  by (simp add: locks_ok_def)

lemmas locks_same_node = locks_same [where l = "rc_log p" and p = p for p, simplified]

lemma race_step_locks:
  assumes "redis_ok R clock kv" "push_relation rt (same_redis kv)" "read_relation rt (same_redis kv)"
    and "race_step S os rt R clock kv p q" "locks_ok kv p" "in_time clock p" "reg_rdb (h_reg (fst (rc_node p))) \<noteq> None"
  shows "locks_ok kv q"
  using assms(4)
proof cases
  case (rc_lock i line h d e ctx e')
  with try_lock_redis [OF assms(1) rc_lock(4)] have a: "alive clock kv e lockKey = None"
    "kv e' = (kv e)(lockKey \<mapsto> (h_SelfID h, Some (clock e + 10 * second)))" by simp_all
  have "deadline (rc_phase p j) = None" for j by (rule locks_free [OF assms(5,6)]) (use a rc_lock in simp)
  then show ?thesis unfolding rc_lock(1) by (intro locks_alone) (use a in auto)
next
  case (rc_busy i line h d e ctx e')
  with try_lock_redis [OF assms(1) rc_busy(4)]
  have "kv e' = kv e \<or> alive clock kv e lockKey = None" by auto
  then show ?thesis
  proof
    assume "kv e' = kv e"
    then show ?thesis unfolding rc_busy(1) by (intro locks_node [OF assms(5)]) (simp add: rc_busy)
  next
    assume "alive clock kv e lockKey = None"
    then have "deadline (rc_phase p j) = None" for j using locks_free [OF assms(5,6)] rc_busy by simp
    then show ?thesis unfolding rc_busy(1) by (intro locks_okI) simp_all
  qed
next
  case (rc_gives_up i line)
  then show ?thesis using locks_same [OF assms(5), where s = "rc_node p" and l = "rc_log p" and x = GaveUp] by simp
next
  case (rc_cid i line t ctx c s)
  obtain h d e where n: "rc_node p = (h, d, e)" by (rule prod_cases3)
  obtain e' where "s = (h, d, e')" "kv e' = kv e"
    by (rule current_cid_redis [OF assms(1) _ rc_cid(3) [unfolded n]]) (use assms(7) n in simp_all)
  then show ?thesis unfolding rc_cid(1) by (intro locks_same_node [OF assms(5)]) (simp_all add: n rc_cid)
next
  case (rc_bytes i line t c ctx b s)
  obtain h d e where n: "rc_node p = (h, d, e)" by (rule prod_cases3)
  obtain h' d' e' where s: "s = (h', d', e')" by (rule prod_cases3)
  from current_bytes_quiet [OF assms(3) rc_bytes(3) [unfolded n s]] show ?thesis
    unfolding rc_bytes(1) by (intro locks_same_node [OF assms(5)]) (simp_all add: n s rc_bytes same_keys_def)
next
  case (rc_store i line t b ctx c s)
  obtain h d e where n: "rc_node p = (h, d, e)" by (rule prod_cases3)
  obtain h' d' e' where s: "s = (h', d', e')" by (rule prod_cases3)
  from upload_bytes_quiet [OF assms(2) rc_store(3) [unfolded n s]] show ?thesis
    unfolding rc_store(1) by (intro locks_same_node [OF assms(5)]) (simp_all add: n s rc_store same_keys_def)
next
  case (rc_store_fails i line t b ctx err s)
  obtain h d e where n: "rc_node p = (h, d, e)" by (rule prod_cases3)
  obtain h' d' e' where s: "s = (h', d', e')" by (rule prod_cases3)
  from upload_bytes_quiet [OF assms(2) rc_store_fails(3) [unfolded n s]] show ?thesis
    unfolding rc_store_fails(1) by (intro locks_same_node [OF assms(5)]) (simp_all add: n s rc_store_fails same_keys_def)
next
  case (rc_publish i line t c h d e ctx e')
  then have s: "set_current R ctx c (h, d, e) = (h, d, e')" using assms(7) by (intro set_current_redis) simp_all
  have "kv e' lockKey = kv e lockKey" using redis_Set [OF assms(1) rc_publish(4)] by auto
  with s show ?thesis unfolding rc_publish(1) by (intro locks_same [OF assms(5)]) (simp_all add: rc_publish)
next
  case (rc_publish_fails i line t c h d e ctx err e')
  then have s: "set_current R ctx c (h, d, e) = (h, d, e')" using assms(7) by (intro set_current_redis) simp_all
  have "kv e' lockKey = kv e lockKey" using redis_Set [OF assms(1) rc_publish_fails(4)] by auto
  with s show ?thesis unfolding rc_publish_fails(1) by (intro locks_same_node [OF assms(5)]) (simp_all add: rc_publish_fails)
next
  case (rc_publish_unanswered i line t c h d e ctx err e')
  then have s: "set_current R ctx c (h, d, e) = (h, d, e')" using assms(7) by (intro set_current_redis) simp_all
  have "kv e' lockKey = kv e lockKey" using redis_Set [OF assms(1) rc_publish_unanswered(4)] by auto
  with s show ?thesis
    unfolding rc_publish_unanswered(1) by (intro locks_same [OF assms(5)]) (simp_all add: rc_publish_unanswered)
next
  case (rc_release i line t ok h d e)
  have "deadline (rc_phase p j) = None" if "j \<noteq> i" for j
    by (rule locks_others [OF assms(5) _ that]) (simp add: rc_release)
  then show ?thesis unfolding rc_release(1) by (intro locks_alone) simp_all
next
  case (rc_release_failed i t h d e)
  have "deadline (rc_phase p j) = None" if "j \<noteq> i" for j
    by (rule locks_others [OF assms(5) _ that]) (simp add: rc_release_failed)
  then show ?thesis unfolding rc_release_failed(1) by (intro locks_alone) simp_all
next
  case (rc_other s)
  then show ?thesis unfolding rc_other(1) by (intro locks_node [OF assms(5)]) (simp add: same_keys_def)
qed

section \<open>The log\<close>

text \<open>The log has the updates that set the pointer, each once.\<close>

fun ended :: "phase \<Rightarrow> bool" where
  "ended (Published line t ok) \<longleftrightarrow> True"
| "ended (Updated line ok) \<longleftrightarrow> True"
| "ended GaveUp \<longleftrightarrow> True"
| "ended _ \<longleftrightarrow> False"

definition book_ok :: "('s, 'c, 'e) race \<Rightarrow> bool" where
  "book_ok p \<longleftrightarrow> distinct (map fst (rc_log p)) \<and>
     (\<forall>i line. published (rc_phase p i) = Some line \<longrightarrow> (i, line) \<in> set (rc_log p)) \<and>
     (\<forall>i line. (i, line) \<in> set (rc_log p) \<longrightarrow> ended (rc_phase p i))"

lemma book_okD:
  assumes "book_ok p"
  shows "distinct (map fst (rc_log p))" "published (rc_phase p i) = Some line \<Longrightarrow> (i, line) \<in> set (rc_log p)"
    and "(i, line) \<in> set (rc_log p) \<Longrightarrow> ended (rc_phase p i)"
  using assms unfolding book_ok_def by blast+

lemma book_same:
  assumes "book_ok p" "published x = None \<or> published x = published (rc_phase p i)" "ended (rc_phase p i) \<longrightarrow> ended x"
  shows "book_ok (p\<lparr>rc_node := s, rc_phase := (rc_phase p)(i := x)\<rparr>)"
  using assms(2,3) book_okD [OF assms(1)] by (auto simp: book_ok_def)

lemma book_more:
  assumes "book_ok p" "\<not> ended (rc_phase p i)" "ended x" "published x = None \<or> published x = Some line"
  shows "book_ok (p\<lparr>rc_node := s, rc_phase := (rc_phase p)(i := x), rc_log := rc_log p @ [(i, line)]\<rparr>)"
proof -
  have "(i, l) \<notin> set (rc_log p)" for l using book_okD(3) [OF assms(1), of i l] assms(2) by blast
  then have "i \<notin> fst ` set (rc_log p)" by auto
  with assms(3,4) book_okD [OF assms(1)] show ?thesis by (auto simp: book_ok_def)
qed

lemma race_step_book: "race_step S os rt R clock kv p q \<Longrightarrow> book_ok p \<Longrightarrow> book_ok q"
proof (induction rule: race_step.cases)
  case (rc_publish p i line t c h d e ctx e')
  then show ?case using book_more [of p i "Published line t True" line] by simp
next
  case (rc_publish_unanswered p i line t c h d e ctx err e')
  then show ?case using book_more [of p i "Published line t False" line] by simp
next
  case (rc_gives_up p i line)
  then show ?case using book_same [of p GaveUp i "rc_node p"] by simp
qed (auto intro!: book_same simp: book_ok_def)

end
