(* ===== verification/CatalogRace.thy ===== *)
theory CatalogRace
  imports CatalogLock
begin

text \<open>
  What concurrent updates of the catalog do to it, over the machine of \<open>CatalogLock\<close>. The locale
  \<open>catalog_file\<close> has the invariant for any notion of a file that counts as the catalog; it is
  interpreted for the file in the store of the node, used here for the updates of one node, and for
  the file known by its id, used in \<open>CatalogNodes\<close>. The calls of a node to others leave the two keys
  of the catalog alone (\<open>same_redis\<close>, for the locales of \<open>Calls\<close>).
\<close>

section \<open>The catalog\<close>

text \<open>
  When a file counts as the catalog: the invariant is stated over any such notion. The pointer in
  Redis, and what an update in some phase has in hand.
\<close>

fun pointer_ok :: "(string \<Rightarrow> bytes \<Rightarrow> bool) \<Rightarrow> (string \<times> int option) option \<Rightarrow> bytes \<Rightarrow> bool" where
  "pointer_ok F None b \<longleftrightarrow> b = []"
| "pointer_ok F (Some (c, ttl)) b \<longleftrightarrow> ttl = None \<and> F c b"

fun phase_ok :: "(string \<Rightarrow> bytes \<Rightarrow> bool) \<Rightarrow> (string \<times> int option) option \<Rightarrow> bytes \<Rightarrow> phase \<Rightarrow> bool" where
  "phase_ok F k b (GotCid line t c) \<longleftrightarrow> c = (case k of None \<Rightarrow> [] | Some (c, _) \<Rightarrow> c)"
| "phase_ok F k b (GotBytes line t x) \<longleftrightarrow> x = b"
| "phase_ok F k b (Stored line t c) \<longleftrightarrow> F c (b @ bytes_of_string line)"
| "phase_ok F k b _ \<longleftrightarrow> True"

definition catalog_bytes :: "bytes \<Rightarrow> ('s, 'c, 'e) race \<Rightarrow> bytes" where
  "catalog_bytes b0 p = b0 @ concat (map (\<lambda>(i, line). bytes_of_string line) (rc_log p))"

abbreviation pointer :: "('e \<Rightarrow> string \<rightharpoonup> string \<times> int option) \<Rightarrow> ('s, 'c, 'e) node \<Rightarrow> (string \<times> int option) option" where
  "pointer kv s \<equiv> kv (snd (snd s)) catalog_key"

definition data_ok ::
  "(('s, 'c, 'e) node \<Rightarrow> string \<Rightarrow> bytes \<Rightarrow> bool) \<Rightarrow> 's storage \<Rightarrow> ('e \<Rightarrow> string \<rightharpoonup> string \<times> int option) \<Rightarrow> bytes \<Rightarrow>
   ('s, 'c, 'e) race \<Rightarrow> bool" where
  "data_ok F S kv b0 p \<longleftrightarrow>
     reg_rdb (h_reg (fst (rc_node p))) \<noteq> None \<and> view_sound S (node_view S (rc_node p)) \<and>
     pointer_ok (F (rc_node p)) (pointer kv (rc_node p)) (catalog_bytes b0 p) \<and>
     (rc_log p = [] \<or> pointer kv (rc_node p) \<noteq> None) \<and>
     (\<forall>i. phase_ok (F (rc_node p)) (pointer kv (rc_node p)) (catalog_bytes b0 p) (rc_phase p i))"

text \<open>
  What is asked of a run beside its times: nobody can make other blocks with the ids of those the
  updates store, and no update goes on without the catalog though there is one. The code does that
  when the \<open>GET\<close> fails, and, if its blocks are at other nodes (\<open>remote\<close>), when the fetch fails.
\<close>

definition unforged :: "'s storage \<Rightarrow> ('s, 'c, 'e) race \<Rightarrow> bool" where
  "unforged S p \<longleftrightarrow>
     (\<forall>i line t bs. rc_phase p i = Stored line t (NewCID S (file_node_block S bs)) \<longrightarrow>
        (\<forall>x\<in>set (file_node_block S bs # bs). unforgeable S x))"

definition answered :: "bool \<Rightarrow> ('e \<Rightarrow> string \<rightharpoonup> string \<times> int option) \<Rightarrow> ('s, 'c, 'e) race \<Rightarrow> bool" where
  "answered remote kv p \<longleftrightarrow> pointer kv (rc_node p) = None \<or>
     (\<forall>i line t. rc_phase p i \<noteq> GotCid line t [] \<and> (remote \<longrightarrow> rc_phase p i \<noteq> GotBytes line t []))"

lemma answeredD:
  assumes "answered remote kv p" "pointer kv (rc_node p) \<noteq> None"
  shows "rc_phase p i = GotCid line t c \<Longrightarrow> c \<noteq> []" "rc_phase p i = GotBytes line t b \<Longrightarrow> remote \<Longrightarrow> b \<noteq> []"
  using assms by (auto simp: answered_def)

text \<open>The file is in the store of the node, and none of its blocks can be forged.\<close>

definition kept_file :: "'s storage \<Rightarrow> ('s, 'c, 'e) node \<Rightarrow> string \<Rightarrow> bytes \<Rightarrow> bool" where
  "kept_file S s c b \<longleftrightarrow>
     (\<exists>bs. concat bs = b \<and> holds_file S (h_store (fst s)) (fst (snd s)) c bs \<and>
        (\<forall>x\<in>set (file_node_block S bs # bs). unforgeable S x))"

lemma phase_ok_idle: "deadline x = None \<Longrightarrow> phase_ok F k b x"
  by (cases x) simp_all

locale catalog_file =
  fixes S :: "'s storage" and rt :: "('c, 'e) runtime" and remote :: bool
    and F :: "('s, 'c, 'e) node \<Rightarrow> string \<Rightarrow> bytes \<Rightarrow> bool"
  assumes F_keeps: "keeps S s s' \<Longrightarrow> view_sound S (node_view S s) \<Longrightarrow> F s c b \<Longrightarrow> F s' c b"
    and F_kept: "kept_file S s c b \<Longrightarrow> F s c b"
    and F_read: "storage_ok S \<Longrightarrow> view_sound S (node_view S s) \<Longrightarrow> F s c b \<Longrightarrow> current_bytes S rt ctx c s = (x, s') \<Longrightarrow>
      x = b \<or> x = [] \<and> remote"
begin

lemma pointer_ok_keeps:
  "keeps S s s' \<Longrightarrow> view_sound S (node_view S s) \<Longrightarrow> pointer_ok (F s) k b \<Longrightarrow> pointer_ok (F s') k b"
  by (cases "(F s, k, b)" rule: pointer_ok.cases) (auto intro: F_keeps)

lemma phase_ok_keeps:
  "keeps S s s' \<Longrightarrow> view_sound S (node_view S s) \<Longrightarrow> phase_ok (F s) k b x \<Longrightarrow> phase_ok (F s') k b x"
  by (cases x) (auto intro: F_keeps)

text \<open>A step that leaves pointer and log alone.\<close>

lemma data_same:
  assumes "data_ok F S kv b0 p" "keeps S (rc_node p) s" "h_reg (fst s) = h_reg (fst (rc_node p)) \<or> reg_rdb (h_reg (fst s)) \<noteq> None"
    and "pointer kv s = pointer kv (rc_node p)"
    and "phase_ok (F s) (pointer kv s) (catalog_bytes b0 p) x"
  shows "data_ok F S kv b0 (p\<lparr>rc_node := s, rc_phase := (rc_phase p)(i := x)\<rparr>)"
proof -
  let ?q = "p\<lparr>rc_node := s, rc_phase := (rc_phase p)(i := x)\<rparr>"
  have v: "view_sound S (node_view S (rc_node p))" using assms(1) by (simp add: data_ok_def)
  have "catalog_bytes b0 ?q = catalog_bytes b0 p" by (simp add: catalog_bytes_def)
  moreover have "phase_ok (F s) (pointer kv s) (catalog_bytes b0 p) (rc_phase ?q j)" for j
    using assms(1,4,5) phase_ok_keeps [OF assms(2) v] by (simp add: data_ok_def)
  ultimately show ?thesis
    using assms(1,3,4) keeps_sound [OF assms(2) v] pointer_ok_keeps [OF assms(2) v] by (auto simp: data_ok_def)
qed

lemma data_node:
  assumes "data_ok F S kv b0 p" "keeps S (rc_node p) s" "h_reg (fst s) = h_reg (fst (rc_node p)) \<or> reg_rdb (h_reg (fst s)) \<noteq> None"
    and "pointer kv s = pointer kv (rc_node p)"
  shows "data_ok F S kv b0 (p\<lparr>rc_node := s\<rparr>)"
proof -
  have "phase_ok (F s) (pointer kv s) (catalog_bytes b0 p) (rc_phase p 0)"
    using phase_ok_keeps [OF assms(2)] assms(1,4) by (simp add: data_ok_def)
  from data_same [OF assms this, of 0] have "data_ok F S kv b0 (p\<lparr>rc_node := s, rc_phase := rc_phase p\<rparr>)" by simp
  moreover have "p\<lparr>rc_node := s, rc_phase := rc_phase p\<rparr> = p\<lparr>rc_node := s\<rparr>" by (cases p) simp
  ultimately show ?thesis by simp
qed

lemma data_world:
  assumes "data_ok F S kv b0 p" "rc_node p = (h, d, e)" "pointer kv (h, d, e') = pointer kv (h, d, e)"
    and "phase_ok (F (h, d, e')) (pointer kv (h, d, e')) (catalog_bytes b0 p) x"
  shows "data_ok F S kv b0 (p\<lparr>rc_node := (h, d, e'), rc_phase := (rc_phase p)(i := x)\<rparr>)"
  by (rule data_same [OF assms(1)]) (use assms in \<open>simp_all add: keeps_world\<close>)

end

text \<open>Two instances: the file in the store, and the file wherever it is, known by its id.\<close>

definition known_file :: "'s storage \<Rightarrow> ('s, 'c, 'e) node \<Rightarrow> string \<Rightarrow> bytes \<Rightarrow> bool" where
  "known_file S s c b \<longleftrightarrow>
     (\<exists>bs. concat bs = b \<and> c = NewCID S (file_node_block S bs) \<and>
        (\<forall>x\<in>set (file_node_block S bs # bs). unforgeable S x))"

lemma current_bytes_kept:
  assumes "storage_ok S" "kept_file S s c b" "current_bytes S rt ctx c s = (x, s')"
  shows "x = b"
proof -
  obtain h d e where s: "s = (h, d, e)" by (rule prod_cases3)
  obtain bs where bs: "concat bs = b" "holds_file S (h_store h) d c bs" using assms(2) by (auto simp: kept_file_def s)
  with GetFile_local [OF assms(1) bs(2), of rt ctx e] holds_file_root [OF assms(1) bs(2)] assms(3) show ?thesis
    by (simp add: current_bytes_def s)
qed

lemma known_file_read:
  assumes "storage_ok S" "view_sound S (node_view S (h, d, e))" "known_file S s c b"
    and "GetFile S rt ctx c w (h, d, e) = ((None, out), s')"
  shows "out = b"
proof -
  obtain bs where bs: "concat bs = b" "c = NewCID S (file_node_block S bs)"
    "\<forall>x\<in>set (file_node_block S bs # bs). unforgeable S x" using assms(3) unfolding known_file_def by blast
  obtain h' d' e' where s': "s' = (h', d', e')" by (rule prod_cases3)
  have "delivered S c True out"
    using GetFile_delivers [OF assms(1) _ assms(4) [unfolded s']] assms(2) by (simp add: node_view_def)
  from delivered_authentic [OF this [unfolded bs(2)] file_node_encoded(2) [OF assms(1)]] bs show ?thesis by auto
qed

lemma current_bytes_known:
  assumes "storage_ok S" "view_sound S (node_view S s)" "known_file S s c b" "current_bytes S rt ctx c s = (x, s')"
  shows "x = b \<or> x = []"
proof -
  obtain h d e where s: "s = (h, d, e)" by (rule prod_cases3)
  obtain err out t where g: "GetFile S rt ctx c (\<lambda>_ _. None) (h, d, e) = ((err, out), t)" by (metis prod.exhaust)
  show ?thesis
  proof (cases err)
    case None
    from known_file_read [OF assms(1) assms(2) [unfolded s] assms(3) g [unfolded None]] assms(4) g None show ?thesis
      by (auto simp: current_bytes_def s split: if_splits)
  next
    case (Some x)
    with assms(4) g show ?thesis by (auto simp: current_bytes_def s split: if_splits)
  qed
qed

interpretation kept: catalog_file S rt False "kept_file S"
proof unfold_locales
  show "kept_file S s c b \<Longrightarrow> kept_file S s' c b" if "keeps S s s'" "view_sound S (node_view S s)" for s s' c b
    using keeps_file [OF that] unfolding kept_file_def by blast
qed (auto dest: current_bytes_kept)

interpretation known: catalog_file S rt True "known_file S"
proof unfold_locales
  show "x = b \<or> x = [] \<and> True"
    if "storage_ok S" "view_sound S (node_view S s)" "known_file S s c b" "current_bytes S rt ctx c s = (x, s')" for s c b ctx x s'
    using current_bytes_known [OF that] by simp
qed (auto simp: known_file_def kept_file_def holds_file_def)

lemma unforged_inj: "\<forall>x\<in>A. unforgeable S x \<Longrightarrow> inj_on (NewCID S) A"
  by (auto simp: inj_on_def unforgeable_def)

lemma upload_bytes_kept:
  assumes "storage_ok S" "\<And>d. \<not> block_path (os_TempName os ''catalog-*'' d)"
    and "upload_bytes S os rt ctx b s = (Inr c, s')"
    and "\<And>bs. c = NewCID S (file_node_block S bs) \<Longrightarrow> \<forall>x\<in>set (file_node_block S bs # bs). unforgeable S x"
  shows "kept_file S s' c b"
proof -
  obtain h d e where s: "s = (h, d, e)" by (rule prod_cases3)
  obtain h' d' e' where s': "s' = (h', d', e')" by (rule prod_cases3)
  obtain bs where bs: "concat bs = b" "c = NewCID S (file_node_block S bs)"
    "inj_on (NewCID S) (set (file_node_block S bs # bs)) \<Longrightarrow> holds_file S (h_store h) d' c bs"
    "same_host (h\<lparr>h_providers := h_providers h'\<rparr>) h'"
    by (rule upload_bytes_holds [OF assms(1,2) assms(3) [unfolded s s']]) (rule that)
  note un = assms(4) [OF bs(2)]
  from bs(3) [OF unforged_inj [OF un]] same_host_fields(1) [OF bs(4)] bs(1) un show ?thesis
    unfolding kept_file_def s' by (intro exI [of _ bs]) simp
qed

context catalog_file begin

text \<open>The update that holds the lock sets the pointer.\<close>

lemma data_publish:
  assumes "locks_ok kv p" "data_ok F S kv b0 p" "rc_phase p i = Stored line t c" "rc_node p = (h, d, e)"
    and "kv e' catalog_key = Some (c, None)" "\<And>k b. phase_ok (F (h, d, e')) k b x"
  shows "data_ok F S kv b0 (p\<lparr>rc_node := (h, d, e'), rc_phase := (rc_phase p)(i := x), rc_log := rc_log p @ [(i, line)]\<rparr>)"
proof -
  have free: "deadline (rc_phase p j) = None" if "j \<noteq> i" for j
    by (rule locks_others [OF assms(1) _ that]) (simp add: assms(3))
  let ?b = "catalog_bytes b0 p @ bytes_of_string line"
  have v: "view_sound S (node_view S (h, d, e))" using assms(2,4) by (simp add: data_ok_def)
  have "phase_ok (F (h, d, e)) (kv e catalog_key) (catalog_bytes b0 p) (rc_phase p i)"
    using assms(2,4) by (simp add: data_ok_def)
  then have "F (h, d, e) c ?b" using assms(3) by simp
  then have "F (h, d, e') c ?b" by (rule F_keeps [OF keeps_world(1) v])
  moreover have "catalog_bytes b0 (p\<lparr>rc_node := s, rc_phase := f, rc_log := rc_log p @ [(i, line)]\<rparr>) = ?b" for s f
    by (simp add: catalog_bytes_def)
  moreover have "phase_ok (F (h, d, e')) z b (((rc_phase p)(i := x)) j)" for z b j
    by (cases "j = i") (simp_all add: phase_ok_idle free assms(6))
  ultimately show ?thesis using assms(2,4,5) by (simp add: data_ok_def node_view_def)
qed

lemma race_step_data:
  assumes "storage_ok S" "\<And>d. \<not> block_path (os_TempName os ''catalog-*'' d)"
    and "redis_ok R clock kv" "push_relation rt (same_redis kv)" "read_relation rt (same_redis kv)"
    and "race_step S os rt R clock kv p q" "locks_ok kv p" "data_ok F S kv b0 p" "unforged S q" "answered remote kv q"
  shows "data_ok F S kv b0 q"
  using assms(6)
proof cases
  case (rc_lock i line h d e ctx e')
  with try_lock_redis [OF assms(3) rc_lock(4)] have "kv e' = (kv e)(lockKey \<mapsto> (h_SelfID h, Some (clock e + 10 * second)))" by simp
  then show ?thesis unfolding rc_lock(1) by (intro data_world [OF assms(8) rc_lock(3)]) simp_all
next
  case (rc_busy i line h d e ctx e')
  with try_lock_redis [OF assms(3) rc_busy(4)] have "kv e' catalog_key = kv e catalog_key" by auto
  then show ?thesis unfolding rc_busy(1) by (intro data_node [OF assms(8)]) (simp_all add: rc_busy keeps_world)
next
  case (rc_gives_up i line)
  obtain h d e where n: "rc_node p = (h, d, e)" by (rule prod_cases3)
  then have "q = p\<lparr>rc_node := (h, d, e), rc_phase := (rc_phase p)(i := GaveUp)\<rparr>" using rc_gives_up(1) by (cases p) simp
  with data_world [OF assms(8) n, of e GaveUp i] show ?thesis by simp
next
  case (rc_cid i line t ctx c s)
  obtain h d e where n: "rc_node p = (h, d, e)" by (rule prod_cases3)
  obtain e' where s: "s = (h, d, e')" "kv e' = kv e" "c = [] \<or> alive clock kv e catalog_key = Some c"
    by (rule current_cid_redis [OF assms(3) _ rc_cid(3) [unfolded n]]) (use assms(8) n in \<open>simp_all add: data_ok_def\<close>)
  moreover have "c = (case kv e catalog_key of None \<Rightarrow> [] | Some (c, _) \<Rightarrow> c)"
  proof (cases "kv e catalog_key")
    case None
    with s(3) show ?thesis by (simp add: alive_def)
  next
    case (Some v)
    then have "pointer kv (rc_node q) \<noteq> None" "rc_phase q i = GotCid line t c" using rc_cid(1) s(1,2) by simp_all
    then have "c \<noteq> []" by (rule answeredD [OF assms(10)])
    moreover obtain c' where "v = (c', None)" using assms(8) n Some by (cases v) (simp add: data_ok_def)
    ultimately show ?thesis using s(3) Some by (simp add: alive_def)
  qed
  ultimately show ?thesis unfolding rc_cid(1) by (simp only: s(1), intro data_world [OF assms(8) n]) simp_all
next
  case (rc_bytes i line t c ctx b s)
  obtain h d e where n: "rc_node p = (h, d, e)" by (rule prod_cases3)
  obtain h' d' e' where s: "s = (h', d', e')" by (rule prod_cases3)
  have quiet: "same_keys kv e e'" "h_reg h' = h_reg h" using current_bytes_quiet [OF assms(5) rc_bytes(3) [unfolded n s]] by simp_all
  have "keeps S (rc_node p) (snd (current_bytes S rt ctx c (rc_node p)))"
    using keeps_GetFile [OF assms(1), of "rc_node p" rt ctx c "\<lambda>_ _. None"]
    by (auto simp: current_bytes_def split: prod.splits option.splits)
  then have keeps: "keeps S (rc_node p) s" using rc_bytes(3) by simp
  have c: "c = (case kv e catalog_key of None \<Rightarrow> [] | Some (c, _) \<Rightarrow> c)"
    using assms(8) rc_bytes(2) n by (auto simp: data_ok_def dest: spec [where x = i])
  have "b = catalog_bytes b0 p"
  proof (cases "kv e catalog_key")
    case None
    then have "catalog_bytes b0 p = []" using assms(8) n by (simp add: data_ok_def)
    with None c rc_bytes(3) show ?thesis by (simp add: current_bytes_def)
  next
    case (Some v)
    then have v: "pointer kv (rc_node q) \<noteq> None" "rc_phase q i = GotBytes line t b"
      using rc_bytes(1) s quiet(1) by (simp_all add: same_keys_def)
    obtain ttl where "v = (c, ttl)" using c Some by (cases v) simp
    then have "F (rc_node p) c (catalog_bytes b0 p)" using assms(8) n Some by (simp add: data_ok_def)
    from F_read [OF assms(1) _ this rc_bytes(3)] assms(8) have "b = catalog_bytes b0 p \<or> b = [] \<and> remote"
      by (simp add: data_ok_def)
    moreover have "remote \<longrightarrow> b \<noteq> []" using answeredD(2) [OF assms(10) v] by blast
    ultimately show ?thesis by blast
  qed
  then show ?thesis
    unfolding rc_bytes(1) by (intro data_same [OF assms(8) keeps]) (use quiet n s in \<open>simp_all add: same_keys_def\<close>)
next
  case (rc_store i line t b ctx c s)
  obtain h d e where n: "rc_node p = (h, d, e)" by (rule prod_cases3)
  obtain h' d' e' where s: "s = (h', d', e')" by (rule prod_cases3)
  have q: "same_keys kv e e'" "h_reg h' = h_reg h" using upload_bytes_quiet [OF assms(4) rc_store(3) [unfolded n s]] by simp_all
  have b: "b = catalog_bytes b0 p" using assms(8) rc_store(2) by (auto simp: data_ok_def dest: spec [where x = i])
  have "F s c (b @ bytes_of_string line)"
  proof (rule F_kept, rule upload_bytes_kept [OF assms(1,2) rc_store(3)])
    fix bs assume c: "c = NewCID S (file_node_block S bs)"
    have "rc_phase q i = Stored line t (NewCID S (file_node_block S bs))" using rc_store(1) c by simp
    then show "\<forall>x\<in>set (file_node_block S bs # bs). unforgeable S x" using assms(9) unfolding unforged_def by blast
  qed
  moreover have "keeps S (rc_node p) s"
    using keeps_upload_bytes [OF assms(1,2), of "rc_node p" rt ctx "b @ bytes_of_string line"] rc_store(3) by simp
  ultimately show ?thesis
    unfolding rc_store(1) by (intro data_same [OF assms(8)]) (use q b n s in \<open>simp_all add: same_keys_def\<close>)
next
  case (rc_store_fails i line t b ctx err s)
  obtain h d e where n: "rc_node p = (h, d, e)" by (rule prod_cases3)
  obtain h' d' e' where s: "s = (h', d', e')" by (rule prod_cases3)
  have q: "same_keys kv e e'" "h_reg h' = h_reg h" using upload_bytes_quiet [OF assms(4) rc_store_fails(3) [unfolded n s]] by simp_all
  have "keeps S (rc_node p) s"
    using keeps_upload_bytes [OF assms(1,2), of "rc_node p" rt ctx "b @ bytes_of_string line"] rc_store_fails(3) by simp
  then show ?thesis
    unfolding rc_store_fails(1) by (intro data_same [OF assms(8)]) (use q n s in \<open>simp_all add: same_keys_def\<close>)
next
  case (rc_publish i line t c h d e ctx e')
  have "reg_rdb (h_reg h) \<noteq> None" using assms(8) rc_publish(3) by (simp add: data_ok_def)
  from set_current_redis [OF this rc_publish(4)] have s: "set_current R ctx c (h, d, e) = (h, d, e')" .
  have k: "kv e' catalog_key = Some (c, None)" using redis_Set [OF assms(3) rc_publish(4)] by simp
  show ?thesis unfolding rc_publish(1) s by (rule data_publish [OF assms(7,8) rc_publish(2,3) k]) simp
next
  case (rc_publish_fails i line t c h d e ctx err e')
  have "reg_rdb (h_reg h) \<noteq> None" using assms(8) rc_publish_fails(3) by (simp add: data_ok_def)
  from set_current_redis [OF this rc_publish_fails(4)] have s: "set_current R ctx c (h, d, e) = (h, d, e')" .
  show ?thesis unfolding rc_publish_fails(1) s
    by (rule data_world [OF assms(8) rc_publish_fails(3)]) (use rc_publish_fails(5) in simp_all)
next
  case (rc_publish_unanswered i line t c h d e ctx err e')
  have "reg_rdb (h_reg h) \<noteq> None" using assms(8) rc_publish_unanswered(3) by (simp add: data_ok_def)
  from set_current_redis [OF this rc_publish_unanswered(4)] have s: "set_current R ctx c (h, d, e) = (h, d, e')" .
  have k: "kv e' catalog_key = Some (c, None)"
    using redis_Set [OF assms(3) rc_publish_unanswered(4)] rc_publish_unanswered(5) by auto
  show ?thesis unfolding rc_publish_unanswered(1) s
    by (rule data_publish [OF assms(7,8) rc_publish_unanswered(2,3) k]) simp
next
  case (rc_release i line t ok h d e)
  have "kv (rd_Del R None lockKey e) catalog_key = kv e catalog_key" using redis_Del [OF assms(3), of e None lockKey] by auto
  then show ?thesis unfolding rc_release(1) by (intro data_world [OF assms(8) rc_release(3)]) simp_all
next
  case (rc_release_failed i t h d e)
  have "kv (rd_Del R None lockKey e) catalog_key = kv e catalog_key" using redis_Del [OF assms(3), of e None lockKey] by auto
  then show ?thesis unfolding rc_release_failed(1) by (intro data_world [OF assms(8) rc_release_failed(3)]) simp_all
next
  case (rc_other s)
  then show ?thesis unfolding rc_other(1) by (intro data_node [OF assms(8)]) (simp_all add: same_keys_def)
qed

end

section \<open>In time, nothing is lost\<close>

definition race_start ::
  "(('s, 'c, 'e) node \<Rightarrow> string \<Rightarrow> bytes \<Rightarrow> bool) \<Rightarrow> 's storage \<Rightarrow> ('e \<Rightarrow> string \<rightharpoonup> string \<times> int option) \<Rightarrow> bytes \<Rightarrow>
   ('s, 'c, 'e) race \<Rightarrow> bool" where
  "race_start F S kv b0 p \<longleftrightarrow>
     rc_log p = [] \<and> (\<forall>i. \<exists>line. rc_phase p i = Waits line) \<and>
     reg_rdb (h_reg (fst (rc_node p))) \<noteq> None \<and> view_sound S (node_view S (rc_node p)) \<and>
     pointer_ok (F (rc_node p)) (pointer kv (rc_node p)) b0"

definition timely ::
  "'s storage \<Rightarrow> os \<Rightarrow> ('c, 'e) runtime \<Rightarrow> 'e redis \<Rightarrow> ('e \<Rightarrow> int) \<Rightarrow> ('e \<Rightarrow> string \<rightharpoonup> string \<times> int option) \<Rightarrow>
   ('s, 'c, 'e) race \<Rightarrow> ('s, 'c, 'e) race \<Rightarrow> bool" where
  "timely S os rt R clock kv p q \<longleftrightarrow>
     race_step S os rt R clock kv p q \<and> in_time clock q \<and> unforged S q \<and> answered False kv q"

text \<open>What holds at the start, and that each step in time keeps it.\<close>

definition race_ok ::
  "(('s, 'c, 'e) node \<Rightarrow> string \<Rightarrow> bytes \<Rightarrow> bool) \<Rightarrow> 's storage \<Rightarrow> ('e \<Rightarrow> int) \<Rightarrow> ('e \<Rightarrow> string \<rightharpoonup> string \<times> int option) \<Rightarrow>
   bytes \<Rightarrow> ('s, 'c, 'e) race \<Rightarrow> bool" where
  "race_ok F S clock kv b0 p \<longleftrightarrow> in_time clock p \<and> locks_ok kv p \<and> data_ok F S kv b0 p \<and> book_ok p"

lemma race_start_ok:
  assumes "race_start F S kv b0 p" shows "race_ok F S clock kv b0 p"
proof -
  have w: "deadline (rc_phase p i) = None" "published (rc_phase p i) = None" for i
  proof -
    obtain line where "rc_phase p i = Waits line" using assms unfolding race_start_def by blast
    then show "deadline (rc_phase p i) = None" "published (rc_phase p i) = None" by simp_all
  qed
  then have "in_time clock p" "locks_ok kv p" by (simp_all add: in_time_def locks_ok_def)
  moreover have "book_ok p" using w assms by (simp add: book_ok_def race_start_def)
  moreover have "data_ok F S kv b0 p"
  proof -
    have "\<forall>i. phase_ok (F (rc_node p)) (pointer kv (rc_node p)) b0 (rc_phase p i)" by (intro allI phase_ok_idle w)
    moreover have "rc_log p = []" "catalog_bytes b0 p = b0" using assms by (simp_all add: race_start_def catalog_bytes_def)
    ultimately show ?thesis using assms unfolding data_ok_def race_start_def by simp
  qed
  ultimately show ?thesis by (simp add: race_ok_def)
qed

context catalog_file begin

lemma race_step_ok:
  assumes "storage_ok S" "\<And>d. \<not> block_path (os_TempName os ''catalog-*'' d)"
    and "redis_ok R clock kv" "push_relation rt (same_redis kv)" "read_relation rt (same_redis kv)"
    and "race_step S os rt R clock kv p q" "in_time clock q" "unforged S q" "answered remote kv q" "race_ok F S clock kv b0 p"
  shows "race_ok F S clock kv b0 q"
proof -
  from assms(10) have p: "in_time clock p" "locks_ok kv p" "data_ok F S kv b0 p" "book_ok p" by (simp_all add: race_ok_def)
  have "reg_rdb (h_reg (fst (rc_node p))) \<noteq> None" using p(3) by (simp add: data_ok_def)
  from race_step_locks [OF assms(3-6) p(2,1) this] race_step_data [OF assms(1-6) p(2,3) assms(8,9)]
    race_step_book [OF assms(6) p(4)] assms(7) show ?thesis by (simp add: race_ok_def)
qed

end

lemma timely_ok:
  assumes "storage_ok S" "\<And>d. \<not> block_path (os_TempName os ''catalog-*'' d)"
    and "redis_ok R clock kv" "push_relation rt (same_redis kv)" "read_relation rt (same_redis kv)"
    and "(timely S os rt R clock kv)\<^sup>*\<^sup>* p q" "race_ok (kept_file S) S clock kv b0 p"
  shows "race_ok (kept_file S) S clock kv b0 q"
  using assms(6)
proof (induction rule: rtranclp_induct)
  case (step q r)
  then show ?case by (intro kept.race_step_ok [OF assms(1-5), of q r]) (simp_all add: timely_def)
qed (rule assms(7))


section \<open>A world with Redis\<close>

record redis_world =
  rw_clock :: int
  rw_kv :: "string \<rightharpoonup> string \<times> int option"

definition world_redis :: "redis_world redis" where
  "world_redis =
     \<lparr>rd_SetNX = (\<lambda>ctx k v ttl e.
        if alive rw_clock rw_kv e k = None
        then (Inr True, e\<lparr>rw_kv := (rw_kv e)(k \<mapsto> (v, Some (rw_clock e + ttl)))\<rparr>) else (Inr False, e)),
      rd_Get = (\<lambda>ctx k e. (case alive rw_clock rw_kv e k of None \<Rightarrow> Inl ''redis: nil'' | Some v \<Rightarrow> Inr v, e)),
      rd_Set = (\<lambda>ctx k v ttl e. (None, e\<lparr>rw_kv := (rw_kv e)(k \<mapsto> (v, if ttl = 0 then None else Some (rw_clock e + ttl)))\<rparr>)),
      rd_Del = (\<lambda>ctx k e. e\<lparr>rw_kv := (rw_kv e)(k := None)\<rparr>),
      rd_Wait = (\<lambda>ctx d e. (None, e\<lparr>rw_clock := rw_clock e + d\<rparr>))\<rparr>"

lemma world_redis_fields [simp]:
  "rd_SetNX world_redis ctx k v ttl e =
     (if alive rw_clock rw_kv e k = None
      then (Inr True, e\<lparr>rw_kv := (rw_kv e)(k \<mapsto> (v, Some (rw_clock e + ttl)))\<rparr>) else (Inr False, e))"
  "rd_Get world_redis ctx k e = (case alive rw_clock rw_kv e k of None \<Rightarrow> Inl ''redis: nil'' | Some v \<Rightarrow> Inr v, e)"
  "rd_Set world_redis ctx k v 0 e = (None, e\<lparr>rw_kv := (rw_kv e)(k \<mapsto> (v, None))\<rparr>)"
  "rd_Del world_redis ctx k e = e\<lparr>rw_kv := (rw_kv e)(k := None)\<rparr>"
  by (simp_all add: world_redis_def)

lemma world_redis_ok: "redis_ok world_redis rw_clock rw_kv"
  unfolding redis_ok_def redis_setnx_ok_def redis_get_ok_def redis_set_ok_def
  by (auto split: if_splits option.splits)

text \<open>No peer can be reached.\<close>

definition offline_rt :: "(string, redis_world) runtime" where
  "offline_rt =
     \<lparr>rt_now = rw_clock, rt_range = (\<lambda>K e. (sorted_list_of_set K, e)), rt_sched = (\<lambda>n e. ([0..<n], e)),
      rt_DialContext = (\<lambda>ctx addr e. (Inl ''offline'', e)), rt_ConnClose = (\<lambda>c e. (None, e)),
      rt_Ping = (\<lambda>ctx c req e. (Inl ''offline'', e)), rt_StoreBlock = (\<lambda>ctx c req e. (Inl ''offline'', e)),
      rt_GetBlock = (\<lambda>ctx c req e. (Inl ''offline'', e)), rt_FindProvider = (\<lambda>ctx c req e. (Inl ''offline'', e)),
      rt_JoinNetwork = (\<lambda>ctx c req e. (Inl ''offline'', e))\<rparr>"

lemma offline_push: "(\<And>n. P n n) \<Longrightarrow> (\<And>n m k. P n m \<Longrightarrow> P m k \<Longrightarrow> P n k) \<Longrightarrow> push_relation offline_rt P"
  by unfold_locales (auto simp: offline_rt_def)

lemma offline_read: "(\<And>n. P n n) \<Longrightarrow> (\<And>n m k. P n m \<Longrightarrow> P m k \<Longrightarrow> P n k) \<Longrightarrow> read_relation offline_rt P"
  by unfold_locales (auto simp: offline_rt_def)

lemma offline_same: "push_relation offline_rt (same_redis rw_kv)" "read_relation offline_rt (same_redis rw_kv)"
  by (rule offline_push offline_read; simp add: same_keys_def)+

definition world_step :: "(string, string, redis_world) race \<Rightarrow> (string, string, redis_world) race \<Rightarrow> bool" where
  "world_step = race_step ex_storage ex_os offline_rt world_redis rw_clock rw_kv"

abbreviation kv_host :: "(string, string) PeerHost" where
  "kv_host \<equiv> ex_host\<lparr>h_reg := ex_near\<lparr>reg_rdb := Some []\<rparr>\<rparr>"

definition world_start :: "(nat \<Rightarrow> string) \<Rightarrow> (string, string, redis_world) race" where
  "world_start lines =
     \<lparr>rc_node = (kv_host, ex_disk, \<lparr>rw_clock = 0, rw_kv = Map.empty\<rparr>), rc_phase = (\<lambda>i. Waits (lines i)), rc_log = []\<rparr>"

lemma world_start_ok: "race_start (kept_file ex_storage) ex_storage rw_kv [] (world_start lines)"
  using ex_view_sound by (simp add: race_start_def world_start_def node_view_def)

text \<open>An upload goes through, and leaves the world as it was.\<close>

lemma offline_upload:
  assumes "h_chunker h = 4" "h_store h = ''s''"
  obtains c h' d' where "upload_bytes ex_storage ex_os offline_rt ctx b (h, d, e) = (Inr c, (h', d', e))"
    "h_chunker h' = 4" "h_store h' = ''s''" "h_reg h' = h_reg h" "h_SelfID h' = h_SelfID h"
    "\<exists>bs. concat bs = b \<and> c = NewCID ex_storage (file_node_block ex_storage bs)"
proof -
  let ?tmp = "os_TempName ex_os ''catalog-*'' d"
  have "\<exists>root s'. AddFile ex_storage ex_os offline_rt ctx ?tmp (h, d(?tmp \<mapsto> b), e) = (Inr root, s')"
    by (rule AddFile_succeeds [OF ex_storage_ok]) (simp_all add: assms ex_storage_def Let_def)
  then obtain c s' where u: "upload_bytes ex_storage ex_os offline_rt ctx b (h, d, e) = (Inr c, s')"
    by (auto simp: upload_bytes_def os_CreateTemp_def file_Write_def Let_def ex_os_def split: prod.splits)
  obtain h' d' e' where s': "s' = (h', d', e')" by (rule prod_cases3)
  obtain bs where bs: "concat bs = b" "c = NewCID ex_storage (file_node_block ex_storage bs)"
    "same_host (h\<lparr>h_providers := h_providers h'\<rparr>) h'"
    by (rule upload_bytes_holds [OF ex_storage_ok ex_temp u [unfolded s']]) (rule that)
  have "push_relation offline_rt (\<lambda>n m. snd m = snd n)" by (rule offline_push) simp_all
  from upload_bytes_world [where Q = "\<lambda>x y. y = x", OF this u [unfolded s']] have "e' = e" by blast
  with that u s' bs same_host_fields [OF bs(3)] assms show thesis by auto
qed

text \<open>The steps of an update in this world.\<close>

abbreviation run_state where
  "run_state h d w f l \<equiv> \<lparr>rc_node = (h, d, w), rc_phase = f, rc_log = l\<rparr>"

lemma world_lock:
  assumes "f i = Waits line" "alive rw_clock rw_kv w lockKey = None"
  shows "world_step (run_state h d w f l)
    (run_state h d (w\<lparr>rw_kv := (rw_kv w)(lockKey \<mapsto> (h_SelfID h, Some (rw_clock w + 10 * second)))\<rparr>)
      (f(i := Locked line (rw_clock w + 10 * second))) l)"
  unfolding world_step_def
  using rc_lock [where p = "run_state h d w f l" and ctx = None and R = world_redis] assms
  by (simp add: try_lock_def)

lemma world_cid:
  assumes "f i = Locked line t" "rw_kv w catalog_key = None" "reg_rdb (h_reg h) = Some r"
  shows "world_step (run_state h d w f l) (run_state h d w (f(i := GotCid line t [])) l)"
  unfolding world_step_def
  using rc_cid [where p = "run_state h d w f l" and ctx = None and R = world_redis] assms
  by (simp add: current_cid_def alive_def)

lemma world_bytes:
  assumes "f i = GotCid line t []"
  shows "world_step (run_state h d w f l) (run_state h d w (f(i := GotBytes line t [])) l)"
  unfolding world_step_def
  using rc_bytes [where p = "run_state h d w f l" and ctx = None] assms by (simp add: current_bytes_def)

lemma world_store:
  assumes "f i = GotBytes line t b"
    and "upload_bytes ex_storage ex_os offline_rt None (b @ bytes_of_string line) (h, d, w) = (Inr c, (h', d', w))"
  shows "world_step (run_state h d w f l) (run_state h' d' w (f(i := Stored line t c)) l)"
  unfolding world_step_def
  using rc_store [where p = "run_state h d w f l" and ctx = None] assms by simp

lemma world_publish:
  assumes "f i = Stored line t c" "reg_rdb (h_reg h) = Some r"
  shows "world_step (run_state h d w f l)
    (run_state h d (w\<lparr>rw_kv := (rw_kv w)(catalog_key \<mapsto> (c, None))\<rparr>) (f(i := Published line t True)) (l @ [(i, line)]))"
proof -
  have "set_current world_redis None c (h, d, w) = (h, d, w\<lparr>rw_kv := (rw_kv w)(catalog_key \<mapsto> (c, None))\<rparr>)"
    using assms(2) by (simp add: set_current_def)
  with rc_publish [where p = "run_state h d w f l" and ctx = None and R = world_redis and h = h and d = d and e = w and c = c and i = i
      and line = line and t = t] assms show ?thesis
    unfolding world_step_def by simp
qed

lemma world_release:
  assumes "f i = Published line t ok"
  shows "world_step (run_state h d w f l)
    (run_state h d (w\<lparr>rw_kv := (rw_kv w)(lockKey := None)\<rparr>) (f(i := Updated line ok)) l)"
  unfolding world_step_def
  using rc_release [where p = "run_state h d w f l" and R = world_redis] assms by simp

lemma world_wait:
  assumes "reg_rdb (h_reg h) = Some r"
  shows "world_step (run_state h d w f l) (run_state h d (w\<lparr>rw_clock := z\<rparr>) f l)"
  unfolding world_step_def
  using rc_other [where p = "run_state h d w f l" and s = "(h, d, w\<lparr>rw_clock := z\<rparr>)"] assms
  by (simp add: same_keys_def keeps_world)

lemma world_begin:
  assumes "f i = Waits line" "alive rw_clock rw_kv w lockKey = None" "rw_kv w catalog_key = None" "reg_rdb (h_reg h) = Some r"
  shows "world_step\<^sup>*\<^sup>* (run_state h d w f l)
    (run_state h d (w\<lparr>rw_kv := (rw_kv w)(lockKey \<mapsto> (h_SelfID h, Some (rw_clock w + 10 * second)))\<rparr>)
      (f(i := GotBytes line (rw_clock w + 10 * second) [])) l)"
proof -
  let ?w = "w\<lparr>rw_kv := (rw_kv w)(lockKey \<mapsto> (h_SelfID h, Some (rw_clock w + 10 * second)))\<rparr>"
  let ?t = "rw_clock w + 10 * second"
  have 1: "world_step (run_state h d w f l) (run_state h d ?w (f(i := Locked line ?t)) l)"
    using assms(1,2) by (rule world_lock)
  have 2: "world_step (run_state h d ?w (f(i := Locked line ?t)) l) (run_state h d ?w (f(i := GotCid line ?t [])) l)"
    using world_cid [of "f(i := Locked line ?t)" i line ?t ?w h r d l] assms by simp
  have 3: "world_step (run_state h d ?w (f(i := GotCid line ?t [])) l) (run_state h d ?w (f(i := GotBytes line ?t [])) l)"
    using world_bytes [of "f(i := GotCid line ?t [])" i line ?t h d ?w l] by simp
  show ?thesis by (rule converse_rtranclp_into_rtranclp [where r = world_step, OF 1 converse_rtranclp_into_rtranclp [where r = world_step, OF 2 r_into_rtranclp [where r = world_step, OF 3]]])
qed

lemma world_finish:
  assumes "f i = GotBytes line t []" "h_chunker h = 4" "h_store h = ''s''" "reg_rdb (h_reg h) = Some r"
  obtains c h' d' bs where "world_step\<^sup>*\<^sup>* (run_state h d w f l)
      (run_state h' d' (w\<lparr>rw_kv := (rw_kv w)(catalog_key \<mapsto> (c, None), lockKey := None)\<rparr>)
        (f(i := Updated line True)) (l @ [(i, line)]))"
    "h_chunker h' = 4" "h_store h' = ''s''" "reg_rdb (h_reg h') = Some r"
    "concat bs = bytes_of_string line" "c = NewCID ex_storage (file_node_block ex_storage bs)"
proof -
  obtain c h' d' where u: "upload_bytes ex_storage ex_os offline_rt None (bytes_of_string line) (h, d, w) = (Inr c, (h', d', w))"
    and h: "h_chunker h' = 4" "h_store h' = ''s''" "h_reg h' = h_reg h"
    and b: "\<exists>bs. concat bs = bytes_of_string line \<and> c = NewCID ex_storage (file_node_block ex_storage bs)"
    by (rule offline_upload [OF assms(2,3)])
  let ?w = "w\<lparr>rw_kv := (rw_kv w)(catalog_key \<mapsto> (c, None))\<rparr>"
  let ?v = "w\<lparr>rw_kv := (rw_kv w)(catalog_key \<mapsto> (c, None), lockKey := None)\<rparr>"
  let ?l = "l @ [(i, line)]"
  have 1: "world_step (run_state h d w f l) (run_state h' d' w (f(i := Stored line t c)) l)"
    using world_store [of f i line t "[]" h d w c h' d' l] assms(1) u by simp
  have 2: "world_step (run_state h' d' w (f(i := Stored line t c)) l) (run_state h' d' ?w (f(i := Published line t True)) ?l)"
    using world_publish [of "f(i := Stored line t c)" i line t c h' r d' w l] h(3) assms(4) by simp
  have 3: "world_step (run_state h' d' ?w (f(i := Published line t True)) ?l) (run_state h' d' ?v (f(i := Updated line True)) ?l)"
    using world_release [of "f(i := Published line t True)" i line t True h' d' ?w ?l] by simp
  have "world_step\<^sup>*\<^sup>* (run_state h d w f l) (run_state h' d' ?v (f(i := Updated line True)) ?l)"
    by (rule converse_rtranclp_into_rtranclp [where r = world_step, OF 1 converse_rtranclp_into_rtranclp [where r = world_step, OF 2 r_into_rtranclp [where r = world_step, OF 3]]])
  moreover from b obtain bs where "concat bs = bytes_of_string line" "c = NewCID ex_storage (file_node_block ex_storage bs)" by blast
  moreover have "reg_rdb (h_reg h') = Some r" using h(3) assms(4) by simp
  ultimately show thesis using h(1,2) by (intro that)
qed

text \<open>
  C40. Past ten seconds the lock does nothing. Two updates of a node that starts without a
  catalog: the first takes the lock and reads the catalog, ten seconds pass, the second takes
  the lock that has run out and reads the same catalog; then each stores its file and sets the
  pointer. Both report success, and the catalog that stays has the line of the second alone.
\<close>

theorem catalog_race_lost:
  "\<exists>p c bs. world_step\<^sup>*\<^sup>* (world_start lines) p \<and>
     rc_phase p 0 = Updated (lines 0) True \<and> rc_phase p 1 = Updated (lines 1) True \<and>
     pointer rw_kv (rc_node p) = Some (c, None) \<and> c = NewCID ex_storage (file_node_block ex_storage bs) \<and>
     concat bs = bytes_of_string (lines 1)"
proof -
  let ?h = "kv_host" and ?f = "\<lambda>i. Waits (lines i)" and ?w = "\<lparr>rw_clock = 0, rw_kv = Map.empty\<rparr>" and ?t = "10 * second"
  let ?w1 = "?w\<lparr>rw_kv := [lockKey \<mapsto> (ex_idA, Some ?t)]\<rparr>" and ?f1 = "?f(0 := GotBytes (lines 0) ?t [])"
  let ?w2 = "?w1\<lparr>rw_clock := ?t\<rparr>"
  let ?w3 = "?w2\<lparr>rw_kv := [lockKey \<mapsto> (ex_idA, Some (?t + ?t))]\<rparr>"
  let ?f3 = "?f1(1 := GotBytes (lines 1) (?t + ?t) [])"
  have 1: "world_step\<^sup>*\<^sup>* (world_start lines) (run_state ?h ex_disk ?w1 ?f1 [])"
    using world_begin [of ?f 0 "lines 0" ?w ?h "[]" ex_disk "[]"] by (simp add: world_start_def alive_def)
  have 2: "world_step\<^sup>*\<^sup>* (run_state ?h ex_disk ?w1 ?f1 []) (run_state ?h ex_disk ?w2 ?f1 [])"
    by (rule r_into_rtranclp, rule world_wait [where r = "[]"]) simp
  have 3: "world_step\<^sup>*\<^sup>* (run_state ?h ex_disk ?w2 ?f1 []) (run_state ?h ex_disk ?w3 ?f3 [])"
    using world_begin [of ?f1 1 "lines 1" ?w2 ?h "[]" ex_disk "[]"] by (simp add: alive_def)
  obtain c0 h d where 4: "world_step\<^sup>*\<^sup>* (run_state ?h ex_disk ?w3 ?f3 [])
      (run_state h d (?w3\<lparr>rw_kv := (rw_kv ?w3)(catalog_key \<mapsto> (c0, None), lockKey := None)\<rparr>)
        (?f3(0 := Updated (lines 0) True)) ([] @ [(0, lines 0)]))"
    and h: "h_chunker h = 4" "h_store h = ''s''" "reg_rdb (h_reg h) = Some []"
    by (rule world_finish [of ?f3 0 "lines 0" ?t ?h "[]" ex_disk ?w3 "[]"]) simp_all
  let ?w4 = "?w3\<lparr>rw_kv := (rw_kv ?w3)(catalog_key \<mapsto> (c0, None), lockKey := None)\<rparr>"
  let ?f4 = "?f3(0 := Updated (lines 0) True)" and ?l = "[] @ [(0, lines 0)]"
  obtain c h' d' bs where 5: "world_step\<^sup>*\<^sup>* (run_state h d ?w4 ?f4 ?l)
      (run_state h' d' (?w4\<lparr>rw_kv := (rw_kv ?w4)(catalog_key \<mapsto> (c, None), lockKey := None)\<rparr>)
        (?f4(1 := Updated (lines 1) True)) (?l @ [(1, lines 1)]))"
    and c: "concat bs = bytes_of_string (lines 1)" "c = NewCID ex_storage (file_node_block ex_storage bs)"
    by (rule world_finish [of ?f4 1 "lines 1" "?t + ?t" h "[]" d ?w4 ?l]) (use h in simp_all)
  let ?p = "run_state h' d' (?w4\<lparr>rw_kv := (rw_kv ?w4)(catalog_key \<mapsto> (c, None), lockKey := None)\<rparr>)
      (?f4(1 := Updated (lines 1) True)) (?l @ [(1, lines 1)])"
  note run = rtranclp_trans [where r = world_step, OF rtranclp_trans [where r = world_step, OF
    rtranclp_trans [where r = world_step, OF rtranclp_trans [where r = world_step, OF 1 2] 3] 4] 5]
  show ?thesis
    by (rule exI [of _ ?p], rule exI [of _ c], rule exI [of _ bs]) (use run c in simp)
qed

text \<open>A run in time, with a line for which the ids of the blocks are known.\<close>

definition ex_line :: string where
  "ex_line = string_of_bytes ex_chunk"

lemma ex_race_upload:
  obtains h' d' where "upload_bytes ex_storage ex_os offline_rt None (bytes_of_string ex_line) (kv_host, ex_disk, w) =
      (Inr (ex_cid ex_root), (h', d', w))" "reg_rdb (h_reg h') = Some []"
proof -
  obtain c h' d' where u: "upload_bytes ex_storage ex_os offline_rt None (bytes_of_string ex_line) (kv_host, ex_disk, w) = (Inr c, (h', d', w))"
    and r: "h_reg h' = h_reg kv_host"
    by (rule offline_upload [where h = kv_host and d = ex_disk and e = w and b = "bytes_of_string ex_line" and ctx = None]) simp_all
  let ?tmp = "os_TempName ex_os ''catalog-*'' ex_disk"
  have b: "bytes_of_string ex_line = ex_chunk" by (simp add: ex_line_def)
  obtain s where "AddFile ex_storage ex_os offline_rt None ?tmp (kv_host, ex_disk(?tmp \<mapsto> ex_chunk), w) = (Inr (ex_cid ex_root), s)"
    by (rule ex_AddFile_host [where d = "ex_disk(?tmp \<mapsto> ex_chunk)" and path = ?tmp and h = kv_host and rt = offline_rt and ctx = None and e = w]) simp_all
  with u b have "c = ex_cid ex_root"
    by (auto simp: upload_bytes_def os_CreateTemp_def file_Write_def Let_def split: option.splits prod.splits)
  with u r that show thesis by simp
qed

lemma ex_chunk_unforgeable: "unforgeable ex_storage ex_chunk"
  by (rule ex_unforgeable) (simp add: ex_chunk_def)

abbreviation "timely_ex \<equiv> timely ex_storage ex_os offline_rt world_redis rw_clock rw_kv"

text \<open>The run reads the catalog too.\<close>

definition fetched_ex :: "(string, string, redis_world) race \<Rightarrow> (string, string, redis_world) race \<Rightarrow> bool" where
  "fetched_ex p q \<longleftrightarrow> timely_ex p q \<and> answered True rw_kv q"

lemma ex_timely:
  assumes "world_step p (run_state h d w ((\<lambda>_. Waits ex_line)(0 := x)) l)" "rw_clock w = 0" "deadline x = Some (10 * second)"
    and "x = Stored line t (ex_cid ex_root) \<or> (\<forall>line t c. x \<noteq> Stored line t c)"
    and "rw_kv w catalog_key = None \<or> (\<forall>line t. x \<noteq> GotCid line t [] \<and> x \<noteq> GotBytes line t [])"
  shows "fetched_ex p (run_state h d w ((\<lambda>_. Waits ex_line)(0 := x)) l)" (is "fetched_ex p ?q")
proof -
  have "in_time rw_clock ?q"
    using assms(2,3) by (auto simp: in_time_def second_def split: if_splits)
  moreover have "unforged ex_storage ?q"
    unfolding unforged_def
  proof (intro allI impI)
    fix i line t bs assume q: "rc_phase ?q i = Stored line t (NewCID ex_storage (file_node_block ex_storage bs))"
    with assms(4) have "ex_cid ex_root = ex_cid (file_node_block ex_storage bs)" by (cases "i = 0") auto
    then have "bs = [ex_chunk]" by (rule ex_blocks)
    then show "\<forall>x\<in>set (file_node_block ex_storage bs # bs). unforgeable ex_storage x"
      using ex_unforgeable [of ex_root] ex_chunk_unforgeable by (simp add: ex_root_block)
  qed
  moreover have "answered remote rw_kv ?q" for remote using assms(5) by (auto simp: answered_def)
  ultimately show ?thesis using assms(1) by (simp add: fetched_ex_def timely_def world_step_def)
qed

lemma ex_timely_run:
  obtains h d w where "fetched_ex\<^sup>*\<^sup>* (world_start (\<lambda>_. ex_line))
    (run_state h d w ((\<lambda>_. Waits ex_line)(0 := Published ex_line (10 * second) True)) [(0, ex_line)])"
proof -
  let ?h = "kv_host" and ?d = ex_disk and ?t = "10 * second" and ?l = ex_line
  let ?w = "\<lparr>rw_clock = 0, rw_kv = [lockKey \<mapsto> (ex_idA, Some ?t)]\<rparr>"
  let ?f = "\<lambda>x. (\<lambda>_. Waits ?l)(0 := x)"
  obtain h d where u: "upload_bytes ex_storage ex_os offline_rt None (bytes_of_string ?l) (?h, ?d, ?w) = (Inr (ex_cid ex_root), (h, d, ?w))"
    and r: "reg_rdb (h_reg h) = Some []" by (rule ex_race_upload)
  let ?v = "?w\<lparr>rw_kv := (rw_kv ?w)(catalog_key \<mapsto> (ex_cid ex_root, None))\<rparr>"
  have "fetched_ex (world_start (\<lambda>_. ?l)) (run_state ?h ?d ?w (?f (Locked ?l ?t)) [])"
    by (rule ex_timely) (use world_lock [of "\<lambda>_. Waits ?l" 0 ?l "\<lparr>rw_clock = 0, rw_kv = Map.empty\<rparr>" ?h ?d "[]"] in
      \<open>simp_all add: world_start_def alive_def\<close>)
  moreover have "fetched_ex (run_state ?h ?d ?w (?f (Locked ?l ?t)) []) (run_state ?h ?d ?w (?f (GotCid ?l ?t [])) [])"
    by (rule ex_timely) (use world_cid [of "?f (Locked ?l ?t)" 0 ?l ?t ?w ?h "[]" ?d "[]"] in simp_all)
  moreover have "fetched_ex (run_state ?h ?d ?w (?f (GotCid ?l ?t [])) []) (run_state ?h ?d ?w (?f (GotBytes ?l ?t [])) [])"
    by (rule ex_timely) (use world_bytes [of "?f (GotCid ?l ?t [])" 0 ?l ?t ?h ?d ?w "[]"] in simp_all)
  moreover have "fetched_ex (run_state ?h ?d ?w (?f (GotBytes ?l ?t [])) []) (run_state h d ?w (?f (Stored ?l ?t (ex_cid ex_root))) [])"
    by (rule ex_timely) (use world_store [of "?f (GotBytes ?l ?t [])" 0 ?l ?t "[]" ?h ?d ?w "ex_cid ex_root" h d "[]"] u in simp_all)
  moreover have "fetched_ex (run_state h d ?w (?f (Stored ?l ?t (ex_cid ex_root))) []) (run_state h d ?v (?f (Published ?l ?t True)) [(0, ?l)])"
    by (rule ex_timely) (use world_publish [of "?f (Stored ?l ?t (ex_cid ex_root))" 0 ?l ?t "ex_cid ex_root" h "[]" d ?w "[]"] r in simp_all)
  ultimately have "fetched_ex\<^sup>*\<^sup>* (world_start (\<lambda>_. ?l)) (run_state h d ?v (?f (Published ?l ?t True)) [(0, ?l)])"
    by (meson converse_rtranclp_into_rtranclp rtranclp.rtrancl_refl)
  then show thesis by (rule that)
qed


end
