(* ===== verification/CatalogNodes.thy ===== *)
theory CatalogNodes
  imports CatalogRace
begin

text \<open>
  Updates of the catalog by several nodes with one Redis: \<open>UpdateGlobalCatalog\<close> of
  \<open>internal/coordinator/node.go\<close> as nodes run it beside each other. A step of the fleet is a step
  of the machine \<open>race_step\<close> at one of its nodes; a node may also stop, in the middle of its
  updates, and come back. The catalog is then a file that may be at any node, and is known by its
  id; a node that is to append to it has to fetch it first.
\<close>

section \<open>The fleet\<close>

record ('s, 'c, 'e) fleet =
  fl_nodes :: "string \<Rightarrow> ('s, 'c) PeerHost \<times> disk"
  fl_world :: 'e
  fl_phase :: "nat \<Rightarrow> phase"
  fl_log :: "(nat \<times> string) list"

text \<open>A node of the fleet, with all updates.\<close>

definition fl_at :: "('s, 'c, 'e) fleet \<Rightarrow> string \<Rightarrow> ('s, 'c, 'e) race" where
  "fl_at m k = \<lparr>rc_node = (fst (fl_nodes m k), snd (fl_nodes m k), fl_world m), rc_phase = fl_phase m, rc_log = fl_log m\<rparr>"

lemma fl_at_simps [simp]:
  "rc_node (fl_at m k) = (fst (fl_nodes m k), snd (fl_nodes m k), fl_world m)"
  "rc_phase (fl_at m k) = fl_phase m" "rc_log (fl_at m k) = fl_log m"
  by (simp_all add: fl_at_def)

text \<open>
  Each update runs at its \<open>home\<close>. When a node stops, its updates are gone, the one that holds the
  lock without giving it back; the node keeps its disk.
\<close>

inductive fleet_step ::
  "'s storage \<Rightarrow> os \<Rightarrow> (string \<Rightarrow> ('c, 'e) runtime) \<Rightarrow> 'e redis \<Rightarrow> ('e \<Rightarrow> int) \<Rightarrow>
   ('e \<Rightarrow> string \<rightharpoonup> string \<times> int option) \<Rightarrow> (nat \<Rightarrow> string) \<Rightarrow> ('s, 'c, 'e) fleet \<Rightarrow> ('s, 'c, 'e) fleet \<Rightarrow> bool"
  for S os rt R clock kv home where
  fl_step: "race_step S os (rt k) R clock kv (fl_at m k) q \<Longrightarrow>
    (\<forall>i. rc_phase q i \<noteq> fl_phase m i \<longrightarrow> home i = k) \<Longrightarrow> rc_node q = (h, d, e) \<Longrightarrow>
    fleet_step S os rt R clock kv home m
      (m\<lparr>fl_nodes := (fl_nodes m)(k := (h, d)), fl_world := e, fl_phase := rc_phase q, fl_log := rc_log q\<rparr>)"
| fl_stop: "keeps S (rc_node (fl_at m k)) (h, d, e) \<Longrightarrow> reg_rdb (h_reg h) \<noteq> None \<Longrightarrow> same_keys kv (fl_world m) e \<Longrightarrow>
    fleet_step S os rt R clock kv home m
      (m\<lparr>fl_nodes := (fl_nodes m)(k := (h, d)), fl_world := e,
         fl_phase := (\<lambda>i. if home i = k \<and> (\<forall>line ok. fl_phase m i \<noteq> Updated line ok) then GaveUp else fl_phase m i)\<rparr>)"

definition fleet_start ::
  "'s storage \<Rightarrow> ('e \<Rightarrow> string \<rightharpoonup> string \<times> int option) \<Rightarrow> bytes \<Rightarrow> ('s, 'c, 'e) fleet \<Rightarrow> bool" where
  "fleet_start S kv b0 m \<longleftrightarrow> (\<forall>k. race_start (known_file S) S kv b0 (fl_at m k))"

text \<open>A run in which updates keep within their ten seconds and never go on without the catalog.\<close>

definition fleet_timely ::
  "'s storage \<Rightarrow> os \<Rightarrow> (string \<Rightarrow> ('c, 'e) runtime) \<Rightarrow> 'e redis \<Rightarrow> ('e \<Rightarrow> int) \<Rightarrow>
   ('e \<Rightarrow> string \<rightharpoonup> string \<times> int option) \<Rightarrow> (nat \<Rightarrow> string) \<Rightarrow> ('s, 'c, 'e) fleet \<Rightarrow> ('s, 'c, 'e) fleet \<Rightarrow> bool" where
  "fleet_timely S os rt R clock kv home m m' \<longleftrightarrow>
     fleet_step S os rt R clock kv home m m' \<and>
     (\<forall>k. in_time clock (fl_at m' k) \<and> unforged S (fl_at m' k) \<and> answered True kv (fl_at m' k))"

section \<open>Every node sees the same catalog\<close>

definition fleet_ok ::
  "'s storage \<Rightarrow> ('e \<Rightarrow> int) \<Rightarrow> ('e \<Rightarrow> string \<rightharpoonup> string \<times> int option) \<Rightarrow> bytes \<Rightarrow> ('s, 'c, 'e) fleet \<Rightarrow> bool" where
  "fleet_ok S clock kv b0 m \<longleftrightarrow> (\<forall>k. race_ok (known_file S) S clock kv b0 (fl_at m k))"

text \<open>What holds at one node holds at another with the same world, apart from the node itself.\<close>

lemma known_file_anywhere: "known_file S s = known_file S s'"
  by (simp add: known_file_def fun_eq_iff)

lemma race_ok_anywhere:
  assumes "race_ok (known_file S) S clock kv b0 p" "snd (snd s) = snd (snd (rc_node p))"
    and "reg_rdb (h_reg (fst s)) \<noteq> None" "view_sound S (node_view S s)"
  shows "race_ok (known_file S) S clock kv b0 (p\<lparr>rc_node := s\<rparr>)"
proof -
  have "in_time clock (p\<lparr>rc_node := s\<rparr>)" "locks_ok kv (p\<lparr>rc_node := s\<rparr>)" "book_ok (p\<lparr>rc_node := s\<rparr>)"
    using assms(1,2) by (simp_all add: race_ok_def in_time_def locks_ok_def book_ok_def)
  moreover have "data_ok (known_file S) S kv b0 (p\<lparr>rc_node := s\<rparr>)"
    using assms known_file_anywhere [of S s "rc_node p"] by (simp add: race_ok_def data_ok_def catalog_bytes_def)
  ultimately show ?thesis by (simp add: race_ok_def)
qed

lemma fleet_ok_node:
  assumes "fleet_ok S clock kv b0 m"
  shows "reg_rdb (h_reg (fst (fl_nodes m k))) \<noteq> None" "view_sound S (node_view S (rc_node (fl_at m k)))"
  using assms by (auto simp: fleet_ok_def race_ok_def data_ok_def dest: spec [where x = k])

text \<open>One node has moved, and the world with it.\<close>

lemma fleet_okI:
  assumes "fleet_ok S clock kv b0 m" "race_ok (known_file S) S clock kv b0 (fl_at m' k)"
    and "\<And>j. j \<noteq> k \<Longrightarrow> fl_nodes m' j = fl_nodes m j"
  shows "fleet_ok S clock kv b0 m'"
  unfolding fleet_ok_def
proof
  fix j
  show "race_ok (known_file S) S clock kv b0 (fl_at m' j)"
  proof (cases "j = k")
    case False
    let ?s = "(fst (fl_nodes m' j), snd (fl_nodes m' j), fl_world m')"
    have "reg_rdb (h_reg (fst ?s)) \<noteq> None" "view_sound S (node_view S ?s)"
      using fleet_ok_node [OF assms(1), of j] assms(3) [OF False] by (simp_all add: node_view_def)
    from race_ok_anywhere [OF assms(2) _ this]
    have "race_ok (known_file S) S clock kv b0 ((fl_at m' k)\<lparr>rc_node := ?s\<rparr>)" by simp
    moreover have "(fl_at m' k)\<lparr>rc_node := ?s\<rparr> = fl_at m' j" by (simp add: fl_at_def)
    ultimately show ?thesis by simp
  qed (use assms(2) in simp)
qed

lemma race_ok_stopped:
  assumes "race_ok (known_file S) S clock kv b0 p" "keeps S (rc_node p) s" "reg_rdb (h_reg (fst s)) \<noteq> None"
    and "same_keys kv (snd (snd (rc_node p))) (snd (snd s))" "\<And>i. f i = rc_phase p i \<or> f i = GaveUp"
    and "in_time clock (p\<lparr>rc_node := s, rc_phase := f\<rparr>)"
  shows "race_ok (known_file S) S clock kv b0 (p\<lparr>rc_node := s, rc_phase := f\<rparr>)"
proof -
  let ?q = "p\<lparr>rc_node := s, rc_phase := f\<rparr>"
  from assms(1) have p: "locks_ok kv p" "data_ok (known_file S) S kv b0 p" "book_ok p" by (simp_all add: race_ok_def)
  have f: "deadline (f i) = Some t \<Longrightarrow> deadline (rc_phase p i) = Some t"
    "published (f i) = Some line \<Longrightarrow> published (rc_phase p i) = Some line"
    "ended (rc_phase p i) \<Longrightarrow> ended (f i)" for i t line
    using assms(5) [of i] by auto
  have "locks_ok kv ?q"
  proof (rule locks_okI)
    show "\<exists>v. kv (snd (snd (rc_node ?q))) lockKey = Some (v, Some t)" if "deadline (rc_phase ?q i) = Some t" for i t
      using locks_okD(1) [OF p(1) f(1)] that assms(4) by (simp add: same_keys_def)
    show "i = j" if "deadline (rc_phase ?q i) = Some t" "deadline (rc_phase ?q j) = Some u" for i j t u
      using locks_okD(2) [OF p(1) f(1) f(1)] that by simp
  qed
  moreover have "book_ok ?q" using book_okD [OF p(3)] f(2,3) by (simp add: book_ok_def)
  moreover have "data_ok (known_file S) S kv b0 (p\<lparr>rc_node := s\<rparr>)"
    by (rule known.data_node [OF p(2) assms(2)]) (use assms(3,4) in \<open>simp_all add: same_keys_def\<close>)
  then have "data_ok (known_file S) S kv b0 ?q"
  proof -
    assume d: "data_ok (known_file S) S kv b0 (p\<lparr>rc_node := s\<rparr>)"
    then have "phase_ok (known_file S s) (pointer kv s) (catalog_bytes b0 (p\<lparr>rc_node := s\<rparr>)) (f i)" for i
      using assms(5) [of i] by (auto simp: data_ok_def)
    with d show ?thesis by (simp add: data_ok_def catalog_bytes_def)
  qed
  ultimately show ?thesis using assms(6) by (simp add: race_ok_def)
qed

lemma fleet_step_ok:
  assumes "storage_ok S" "\<And>d. \<not> block_path (os_TempName os ''catalog-*'' d)"
    and "redis_ok R clock kv" "\<And>k. push_relation (rt k) (same_redis kv)" "\<And>k. read_relation (rt k) (same_redis kv)"
    and "fleet_timely S os rt R clock kv home m m'" "fleet_ok S clock kv b0 m"
  shows "fleet_ok S clock kv b0 m'"
proof -
  from assms(6) have t: "in_time clock (fl_at m' k)" "unforged S (fl_at m' k)" "answered True kv (fl_at m' k)" for k
    by (simp_all add: fleet_timely_def)
  from assms(7) have m: "race_ok (known_file S) S clock kv b0 (fl_at m k)" for k by (simp add: fleet_ok_def)
  from assms(6) have "fleet_step S os rt R clock kv home m m'" by (simp add: fleet_timely_def)
  then show ?thesis
  proof cases
    case (fl_step k q h d e)
    then have q: "fl_at m' k = q" by (cases q) (simp add: fl_at_def)
    have "race_ok (known_file S) S clock kv b0 q"
      by (rule known.race_step_ok [OF assms(1-3) assms(4,5) [of k] fl_step(2) t [of k, unfolded q] m])
    then show ?thesis by (intro fleet_okI [OF assms(7), of _ k]) (simp_all add: q, simp add: fl_step(1))
  next
    case (fl_stop k h d e)
    let ?f = "\<lambda>i. if home i = k \<and> (\<forall>line ok. fl_phase m i \<noteq> Updated line ok) then GaveUp else fl_phase m i"
    have q: "fl_at m' k = (fl_at m k)\<lparr>rc_node := (h, d, e), rc_phase := ?f\<rparr>" unfolding fl_stop(1) by (simp add: fl_at_def)
    have "race_ok (known_file S) S clock kv b0 (fl_at m' k)"
      unfolding q by (rule race_ok_stopped [OF m]) (use fl_stop(2-4) t(1) [of k, unfolded q] in simp_all)
    then show ?thesis by (intro fleet_okI [OF assms(7), of _ k]) (simp_all add: fl_stop(1))
  qed
qed

text \<open>
  C23. The lock of the catalog holds between nodes. Any number of nodes with one Redis update the
  catalog at once; nodes may stop in the middle of their updates, and calls to Redis and to other
  nodes may fail. As long as no update takes longer than the ten seconds of its lock, and none goes
  on without the catalog that the pointer names, at most one update is past the lock at any time,
  each update whose \<open>SET\<close> succeeded is in the log, once, and the pointer names the catalog of the
  start followed by the lines of the log: whichever node fetches that id without an error, from
  whatever peers, gets exactly these bytes.
\<close>

theorem catalog_nodes_safe:
  assumes "storage_ok S" "\<And>d. \<not> block_path (os_TempName os ''catalog-*'' d)"
    and "redis_ok R clock kv" "\<And>k. push_relation (rt k) (same_redis kv)" "\<And>k. read_relation (rt k) (same_redis kv)"
    and "fleet_start S kv b0 m0" "(fleet_timely S os rt R clock kv home)\<^sup>*\<^sup>* m0 m"
  shows "(\<forall>i j. deadline (fl_phase m i) \<noteq> None \<and> deadline (fl_phase m j) \<noteq> None \<longrightarrow> i = j) \<and>
    distinct (map fst (fl_log m)) \<and> (\<forall>i line. fl_phase m i = Updated line True \<longrightarrow> (i, line) \<in> set (fl_log m)) \<and>
    (fl_log m \<noteq> [] \<longrightarrow>
       (\<exists>c. kv (fl_world m) catalog_key = Some (c, None) \<and>
          (\<forall>k rt' ctx w out s. GetFile S rt' ctx c w (fst (fl_nodes m k), snd (fl_nodes m k), fl_world m) = ((None, out), s) \<longrightarrow>
             out = b0 @ concat (map (\<lambda>(i, line). bytes_of_string line) (fl_log m)))))"
proof -
  have start: "fleet_ok S clock kv b0 m0" using assms(6) by (simp add: fleet_ok_def fleet_start_def race_start_ok)
  from assms(7) have final: "fleet_ok S clock kv b0 m"
    by (induction rule: rtranclp_induct) (auto intro: start fleet_step_ok [OF assms(1-5)])
  then have ok: "race_ok (known_file S) S clock kv b0 (fl_at m k)" for k by (simp add: fleet_ok_def)
  then have p: "locks_ok kv (fl_at m k)" "data_ok (known_file S) S kv b0 (fl_at m k)" "book_ok (fl_at m k)" for k
    by (simp_all add: race_ok_def)
  have "\<exists>c. kv (fl_world m) catalog_key = Some (c, None) \<and>
      (\<forall>k rt' ctx w out s. GetFile S rt' ctx c w (fst (fl_nodes m k), snd (fl_nodes m k), fl_world m) = ((None, out), s) \<longrightarrow>
         out = b0 @ concat (map (\<lambda>(i, line). bytes_of_string line) (fl_log m)))"
    if log: "fl_log m \<noteq> []"
  proof -
    obtain c ttl where k: "kv (fl_world m) catalog_key = Some (c, ttl)"
      using p(2) [of "''''"] log by (auto simp: data_ok_def)
    have known: "ttl = None" "known_file S (rc_node (fl_at m j)) c (catalog_bytes b0 (fl_at m j))" for j
      using p(2) [of j] k by (simp_all add: data_ok_def)
    have "out = b0 @ concat (map (\<lambda>(i, line). bytes_of_string line) (fl_log m))"
      if "GetFile S rt' ctx c w (fst (fl_nodes m j), snd (fl_nodes m j), fl_world m) = ((None, out), s)" for j rt' ctx w out s
      using known_file_read [OF assms(1) _ known(2) [of j, simplified] that] fleet_ok_node(2) [OF final, of j]
      by (simp add: catalog_bytes_def)
    with k known(1) show ?thesis by blast
  qed
  moreover have "i = j" if "deadline (fl_phase m i) \<noteq> None" "deadline (fl_phase m j) \<noteq> None" for i j
    using locks_others [OF p(1) [of "''''"], of i j] that by (cases "i = j") simp_all
  moreover have "distinct (map fst (fl_log m))" "fl_phase m i = Updated line True \<Longrightarrow> (i, line) \<in> set (fl_log m)" for i line
    using book_okD(1) [OF p(3) [of "''''"]] book_okD(2) [OF p(3) [of "''''"], of i line] by simp_all
  ultimately show ?thesis by blast
qed

section \<open>Example\<close>

text \<open>A fleet in which one node does all that is done.\<close>

definition ex_fleet :: "(string, string, redis_world) race \<Rightarrow> (string, string, redis_world) fleet" where
  "ex_fleet p =
     \<lparr>fl_nodes = (\<lambda>k. if k = ''a'' then (fst (rc_node p), fst (snd (rc_node p))) else (kv_host, ex_disk)),
      fl_world = snd (snd (rc_node p)), fl_phase = rc_phase p, fl_log = rc_log p\<rparr>"

abbreviation "fleet_ex \<equiv> fleet_timely ex_storage ex_os (\<lambda>_. offline_rt) world_redis rw_clock rw_kv (\<lambda>_. ''a'')"

lemma ex_fleet_at: "fl_at (ex_fleet p) ''a'' = p"
  by (cases p) (simp add: fl_at_def ex_fleet_def)

lemma ex_fleet_timely:
  assumes "fetched_ex p q" shows "fleet_ex (ex_fleet p) (ex_fleet q)"
proof -
  from assms have q: "race_step ex_storage ex_os offline_rt world_redis rw_clock rw_kv p q" "in_time rw_clock q"
    "unforged ex_storage q" "answered True rw_kv q" by (simp_all add: fetched_ex_def timely_def)
  obtain h d e where n: "rc_node q = (h, d, e)" by (rule prod_cases3)
  let ?m = "(ex_fleet p)\<lparr>fl_nodes := (fl_nodes (ex_fleet p))(''a'' := (h, d)), fl_world := e,
      fl_phase := rc_phase q, fl_log := rc_log q\<rparr>"
  have "race_step ex_storage ex_os offline_rt world_redis rw_clock rw_kv (fl_at (ex_fleet p) ''a'') q"
    using q(1) by (simp add: ex_fleet_at)
  then have "fleet_step ex_storage ex_os (\<lambda>_. offline_rt) world_redis rw_clock rw_kv (\<lambda>_. ''a'') (ex_fleet p) ?m"
    by (rule fl_step) (simp_all add: n)
  moreover have "?m = ex_fleet q" using n by (simp add: ex_fleet_def fun_eq_iff)
  moreover have "in_time rw_clock (fl_at (ex_fleet q) k) \<and> unforged ex_storage (fl_at (ex_fleet q) k) \<and>
      answered True rw_kv (fl_at (ex_fleet q) k)" for k
    using q(2-4) by (simp add: ex_fleet_def in_time_def unforged_def answered_def)
  ultimately show ?thesis by (simp add: fleet_timely_def)
qed

lemma ex_fleet_run: "fetched_ex\<^sup>*\<^sup>* p q \<Longrightarrow> fleet_ex\<^sup>*\<^sup>* (ex_fleet p) (ex_fleet q)"
  by (induction rule: rtranclp_induct) (auto intro: rtranclp.rtrancl_into_rtrancl ex_fleet_timely)

lemma ex_fleet_start: "fleet_start ex_storage rw_kv [] (ex_fleet (world_start lines))"
  using ex_view_sound by (simp add: fleet_start_def race_start_def ex_fleet_def world_start_def node_view_def)

theorem catalog_nodes_safe_witness:
  "\<exists>m c. fleet_ex\<^sup>*\<^sup>* (ex_fleet (world_start (\<lambda>_. ex_line))) m \<and> rw_kv (fl_world m) catalog_key = Some (c, None) \<and>
     fl_log m = [(0, ex_line)]"
proof -
  obtain h d w where "fetched_ex\<^sup>*\<^sup>* (world_start (\<lambda>_. ex_line))
      (run_state h d w ((\<lambda>_. Waits ex_line)(0 := Published ex_line (10 * second) True)) [(0, ex_line)])" (is "fetched_ex\<^sup>*\<^sup>* _ ?p")
    by (rule ex_timely_run)
  then have run: "fleet_ex\<^sup>*\<^sup>* (ex_fleet (world_start (\<lambda>_. ex_line))) (ex_fleet ?p)" by (rule ex_fleet_run)
  have log: "fl_log (ex_fleet ?p) = [(0, ex_line)]" by (simp add: ex_fleet_def)
  note safe = catalog_nodes_safe [OF ex_storage_ok ex_temp world_redis_ok offline_same ex_fleet_start run]
  from safe log obtain c where "rw_kv (fl_world (ex_fleet ?p)) catalog_key = Some (c, None)" by auto
  with run log show ?thesis by blast
qed

end
