(* ===== verification/Overlap.thy ===== *)
theory Overlap
  imports NodeLocal
begin

text \<open>
  Uploads and downloads that overlap on one node. The other theories take a call as one step; here
  \<open>AddFile\<close> and \<open>GetFile\<close> of \<open>internal/coordinator/node.go\<close> are cut where they use what the node shares
  between its goroutines: the block store, the provider records, the connections. Finding and
  fetching a block from the peers is one step, and so is reading a block and pushing it to its
  replicas, cutting the file, and writing its bundle. Any number of calls run at once, in any order, and between two steps anything else that only adds
  blocks may happen, as all other operations of a node do (collection \<open>keeps\<close>). A call that is not
  interrupted is the \<open>GetFile\<close> or \<open>AddFile\<close> of \<open>PeerHost\<close>.
\<close>

section \<open>The calls and their steps\<close>

text \<open>What a download wants a block for: the root, or a chunk, with those to come and the bytes so far.\<close>

datatype goal = KRoot | KChunk "string list" bytes

datatype task =
    Looks goal string
  | Asks goal string error
  | Checks goal string bytes
  | Downloaded "error option" bytes
  | Cuts string
  | HasChunks "string list"
  | Announces string "string list" bytes "string list"
  | Bundles string "string list" bytes
  | Replicates string "string list"
  | Uploaded "error + string"

text \<open>The node, the calls by number, and what the file of an upload held when it was cut.\<close>

record ('s, 'c, 'e) over =
  ov_node :: "('s, 'c, 'e) node"
  ov_task :: "nat \<Rightarrow> task"
  ov_cut :: "nat \<Rightarrow> bytes"

fun goal_out :: "goal \<Rightarrow> bytes" where
  "goal_out KRoot = []"
| "goal_out (KChunk chs out) = out"

fun goal_wrap :: "goal \<Rightarrow> string \<Rightarrow> error \<Rightarrow> error \<Rightarrow> error" where
  "goal_wrap KRoot c err err2 = ''root block: '' @ err @ '': '' @ err2"
| "goal_wrap (KChunk chs out) c err err2 = ''chunk '' @ c @ '': '' @ err2"

fun next_chunk :: "string list \<Rightarrow> bytes \<Rightarrow> task" where
  "next_chunk [] out = Downloaded None out"
| "next_chunk (ch # chs) out = Looks (KChunk chs out) ch"

text \<open>What a download does with a block, up to its next look into the store.\<close>

fun have_block :: "writer \<Rightarrow> goal \<Rightarrow> bytes \<Rightarrow> task" where
  "have_block w KRoot b =
     (case Unmarshal_FileNode b of
        (_, Some err) \<Rightarrow> Downloaded (Some (''invalid file node: '' @ err)) []
      | (fn, None) \<Rightarrow> next_chunk (elems (fn_Chunks fn)) [])"
| "have_block w (KChunk chs out) b =
     (case w out b of
        Some err \<Rightarrow> Downloaded (Some err) out
      | None \<Rightarrow> next_chunk chs (out @ b))"

fun next_announce :: "string \<Rightarrow> string list \<Rightarrow> bytes \<Rightarrow> string list \<Rightarrow> task" where
  "next_announce root chunks nb [] = Bundles root chunks nb"
| "next_announce root chunks nb (c # cs) = Announces root chunks nb (c # cs)"

fun next_replica :: "string \<Rightarrow> string list \<Rightarrow> task" where
  "next_replica root [] = Uploaded (Inr root)"
| "next_replica root (c # cs) = Replicates root (c # cs)"

inductive task_step ::
  "'s storage \<Rightarrow> os \<Rightarrow> ('c, 'e) runtime \<Rightarrow> (nat \<Rightarrow> writer) \<Rightarrow> ('s, 'c, 'e) over \<Rightarrow> ('s, 'c, 'e) over \<Rightarrow> bool"
  for S os rt w where
  ov_hit: "ov_task p i = Looks k c \<Longrightarrow> ov_node p = (h, d, e) \<Longrightarrow> store_Get S (h_store h) c d = Inr b \<Longrightarrow>
    task_step S os rt w p (p\<lparr>ov_task := (ov_task p)(i := have_block (w i) k b)\<rparr>)"
| ov_miss: "ov_task p i = Looks k c \<Longrightarrow> ov_node p = (h, d, e) \<Longrightarrow> store_Get S (h_store h) c d = Inl err \<Longrightarrow>
    task_step S os rt w p (p\<lparr>ov_task := (ov_task p)(i := Asks k c err)\<rparr>)"
| ov_fetch: "ov_task p i = Asks k c err \<Longrightarrow> fetch_remote S rt ctx c (ov_node p) = (Inr b, s) \<Longrightarrow>
    task_step S os rt w p (p\<lparr>ov_node := s, ov_task := (ov_task p)(i := Checks k c b)\<rparr>)"
| ov_fetch_fails: "ov_task p i = Asks k c err \<Longrightarrow> fetch_remote S rt ctx c (ov_node p) = (Inl err2, s) \<Longrightarrow>
    task_step S os rt w p
      (p\<lparr>ov_node := s, ov_task := (ov_task p)(i := Downloaded (Some (goal_wrap k c err err2)) (goal_out k))\<rparr>)"
| ov_keep: "ov_task p i = Checks k c b \<Longrightarrow> keep_block S c b (ov_node p) = (Inr b', s) \<Longrightarrow>
    task_step S os rt w p (p\<lparr>ov_node := s, ov_task := (ov_task p)(i := have_block (w i) k b')\<rparr>)"
| ov_keep_fails: "ov_task p i = Checks k c b \<Longrightarrow> keep_block S c b (ov_node p) = (Inl err, s) \<Longrightarrow>
    task_step S os rt w p (p\<lparr>ov_node := s, ov_task := (ov_task p)(i := Downloaded (Some err) (goal_out k))\<rparr>)"
| ov_cut: "ov_task p i = Cuts path \<Longrightarrow> ov_node p = (h, d, e) \<Longrightarrow> d path = Some content \<Longrightarrow>
    PutFile S (h_chunker h) (h_store h) path d = (Inr chunks, d') \<Longrightarrow>
    task_step S os rt w p (p\<lparr>ov_node := (h, d', e), ov_task := (ov_task p)(i := HasChunks chunks),
      ov_cut := (ov_cut p)(i := content)\<rparr>)"
| ov_cut_fails: "ov_task p i = Cuts path \<Longrightarrow> ov_node p = (h, d, e) \<Longrightarrow>
    PutFile S (h_chunker h) (h_store h) path d = (Inl err, d') \<Longrightarrow>
    task_step S os rt w p (p\<lparr>ov_node := (h, d', e), ov_task := (ov_task p)(i := Uploaded (Inl err))\<rparr>)"
| ov_encode_fails: "ov_task p i = HasChunks chunks \<Longrightarrow>
    EncodeCanonicalJSON (FileNode_json (NewFileNode chunks)) = Inl err \<Longrightarrow>
    task_step S os rt w p (p\<lparr>ov_task := (ov_task p)(i := Uploaded (Inl err))\<rparr>)"
| ov_root: "ov_task p i = HasChunks chunks \<Longrightarrow> EncodeCanonicalJSON (FileNode_json (NewFileNode chunks)) = Inr nb \<Longrightarrow>
    ov_node p = (h, d, e) \<Longrightarrow> store_Put S (h_store h) nb d = (Inr c, d') \<Longrightarrow>
    task_step S os rt w p (p\<lparr>ov_node := (h, d', e),
      ov_task := (ov_task p)(i := next_announce (NewCID S nb) chunks nb (NewCID S nb # chunks))\<rparr>)"
| ov_root_fails: "ov_task p i = HasChunks chunks \<Longrightarrow> EncodeCanonicalJSON (FileNode_json (NewFileNode chunks)) = Inr nb \<Longrightarrow>
    ov_node p = (h, d, e) \<Longrightarrow> store_Put S (h_store h) nb d = (Inl err, d') \<Longrightarrow>
    task_step S os rt w p (p\<lparr>ov_node := (h, d', e), ov_task := (ov_task p)(i := Uploaded (Inl err))\<rparr>)"
| ov_announce: "ov_task p i = Announces root chunks nb (c # cs) \<Longrightarrow> ov_node p = (h, d, e) \<Longrightarrow>
    task_step S os rt w p
      (p\<lparr>ov_node := (h\<lparr>h_providers := prov_Add c (Some (SelfEndpoint h)) (h_providers h)\<rparr>, d, e),
         ov_task := (ov_task p)(i := next_announce root chunks nb cs)\<rparr>)"
| ov_bundle: "ov_task p i = Bundles root chunks nb \<Longrightarrow> ov_node p = (h, d, e) \<Longrightarrow>
    task_step S os rt w p
      (p\<lparr>ov_node := (h, snd (writeFileBundle S os (h_store h) root chunks nb d), e),
         ov_task := (ov_task p)(i := next_replica root (root # chunks))\<rparr>)"
| ov_replicate: "ov_task p i = Replicates root (c # cs) \<Longrightarrow> replicate_all S rt ctx [c] (ov_node p) = (Inr (), s) \<Longrightarrow>
    task_step S os rt w p (p\<lparr>ov_node := s, ov_task := (ov_task p)(i := next_replica root cs)\<rparr>)"
| ov_replicate_fails: "ov_task p i = Replicates root (c # cs) \<Longrightarrow> replicate_all S rt ctx [c] (ov_node p) = (Inl err, s) \<Longrightarrow>
    task_step S os rt w p (p\<lparr>ov_node := s, ov_task := (ov_task p)(i := Uploaded (Inl err))\<rparr>)"

text \<open>Beside the calls, anything that only adds blocks.\<close>

inductive over_step ::
  "'s storage \<Rightarrow> os \<Rightarrow> ('c, 'e) runtime \<Rightarrow> (nat \<Rightarrow> writer) \<Rightarrow> ('s, 'c, 'e) over \<Rightarrow> ('s, 'c, 'e) over \<Rightarrow> bool"
  for S os rt w where
  ov_call: "task_step S os rt w p q \<Longrightarrow> over_step S os rt w p q"
| ov_other: "keeps S (ov_node p) s \<Longrightarrow> over_step S os rt w p (p\<lparr>ov_node := s\<rparr>)"

section \<open>What the calls may rely on\<close>

text \<open>The part of a file a download has written, and what it still wants.\<close>

definition written :: "'s storage \<Rightarrow> string \<Rightarrow> string list \<Rightarrow> bytes \<Rightarrow> bool" where
  "written S root todo out \<longleftrightarrow>
     (\<exists>rb fn bs. NewCID S rb = root \<and> Unmarshal_FileNode rb = (fn, None) \<and>
        elems (fn_Chunks fn) = map (NewCID S) bs @ todo \<and> out = concat bs)"

fun wants :: "'s storage \<Rightarrow> string \<Rightarrow> goal \<Rightarrow> string \<Rightarrow> bool" where
  "wants S root KRoot c \<longleftrightarrow> c = root"
| "wants S root (KChunk chs out) c \<longleftrightarrow> written S root (c # chs) out"

text \<open>The blocks of a file that cannot be forged are in the store.\<close>

definition has :: "'s storage \<Rightarrow> ('s, 'c, 'e) node \<Rightarrow> bytes list \<Rightarrow> bool" where
  "has S s bs \<longleftrightarrow> (\<forall>b\<in>set bs. unforgeable S b \<longrightarrow> node_view S s (NewCID S b) = Some b)"

definition has_file :: "'s storage \<Rightarrow> ('s, 'c, 'e) node \<Rightarrow> bytes \<Rightarrow> string \<Rightarrow> bytes list \<Rightarrow> bool" where
  "has_file S s content root bs \<longleftrightarrow>
     concat bs = content \<and> root = NewCID S (file_node_block S bs) \<and> has S s (file_node_block S bs # bs)"

fun task_ok :: "'s storage \<Rightarrow> string \<Rightarrow> bytes \<Rightarrow> ('s, 'c, 'e) node \<Rightarrow> task \<Rightarrow> bool" where
  "task_ok S root content s (Looks k c) \<longleftrightarrow> wants S root k c"
| "task_ok S root content s (Asks k c err) \<longleftrightarrow> wants S root k c"
| "task_ok S root content s (Checks k c b) \<longleftrightarrow> wants S root k c"
| "task_ok S root content s (Downloaded err out) \<longleftrightarrow> delivered S root (err = None) out \<or> err \<noteq> None \<and> out = []"
| "task_ok S root content s (Cuts path) \<longleftrightarrow> True"
| "task_ok S root content s (HasChunks chunks) \<longleftrightarrow>
     (\<exists>bs. concat bs = content \<and> chunks = map (NewCID S) bs \<and> has S s bs)"
| "task_ok S root content s (Announces r chunks nb todo) \<longleftrightarrow>
     (\<exists>bs. has_file S s content r bs \<and> chunks = map (NewCID S) bs \<and> nb = file_node_block S bs)"
| "task_ok S root content s (Bundles r chunks nb) \<longleftrightarrow>
     (\<exists>bs. has_file S s content r bs \<and> chunks = map (NewCID S) bs \<and> nb = file_node_block S bs)"
| "task_ok S root content s (Replicates r todo) \<longleftrightarrow> (\<exists>bs. has_file S s content r bs)"
| "task_ok S root content s (Uploaded (Inr r)) \<longleftrightarrow> (\<exists>bs. has_file S s content r bs)"
| "task_ok S root content s (Uploaded (Inl err)) \<longleftrightarrow> True"

text \<open>\<open>root i\<close> is the id that call \<open>i\<close> downloads, if it is a download.\<close>

definition over_ok :: "'s storage \<Rightarrow> (nat \<Rightarrow> string) \<Rightarrow> ('s, 'c, 'e) over \<Rightarrow> bool" where
  "over_ok S root p \<longleftrightarrow>
     view_sound S (node_view S (ov_node p)) \<and> (\<forall>i. task_ok S (root i) (ov_cut p i) (ov_node p) (ov_task p i))"

definition over_start :: "'s storage \<Rightarrow> (nat \<Rightarrow> string) \<Rightarrow> ('s, 'c, 'e) over \<Rightarrow> bool" where
  "over_start S root p \<longleftrightarrow>
     view_sound S (node_view S (ov_node p)) \<and> (\<forall>i. ov_task p i = Looks KRoot (root i) \<or> (\<exists>path. ov_task p i = Cuts path))"

section \<open>Every step keeps it\<close>

lemma written_delivered: "written S root todo out \<Longrightarrow> (complete \<Longrightarrow> todo = []) \<Longrightarrow> delivered S root complete out"
  unfolding written_def delivered_def
proof (elim exE conjE)
  fix rb fn bs
  assume "NewCID S rb = root" "Unmarshal_FileNode rb = (fn, None)" "elems (fn_Chunks fn) = map (NewCID S) bs @ todo"
    "out = concat bs" "complete \<Longrightarrow> todo = []"
  then show "\<exists>rb fn bs. NewCID S rb = root \<and> Unmarshal_FileNode rb = (fn, None) \<and>
      map (NewCID S) bs = take (length bs) (elems (fn_Chunks fn)) \<and> out = concat bs \<and>
      (complete \<longrightarrow> length bs = length (elems (fn_Chunks fn)))"
    by (intro exI [of _ rb] exI [of _ fn] exI [of _ bs]) auto
qed

lemma written_next:
  assumes "written S root (c # chs) out" "NewCID S b = c"
  shows "written S root chs (out @ b)"
proof -
  obtain rb fn bs where "NewCID S rb = root" "Unmarshal_FileNode rb = (fn, None)"
    "elems (fn_Chunks fn) = map (NewCID S) bs @ c # chs" "out = concat bs"
    using assms(1) unfolding written_def by blast
  with assms(2) show ?thesis unfolding written_def by (intro exI [of _ rb] exI [of _ fn] exI [of _ "bs @ [b]"]) simp
qed

lemma next_chunk_ok: "written S root chs out \<Longrightarrow> task_ok S root content s (next_chunk chs out)"
  by (cases chs) (simp_all add: written_delivered)

lemma have_block_ok:
  assumes "wants S root k c" "NewCID S b = c"
  shows "task_ok S root content s (have_block w k b)"
proof (cases k)
  case KRoot
  obtain fn err where u: "Unmarshal_FileNode b = (fn, err)" by (rule prod.exhaust)
  show ?thesis
  proof (cases err)
    case None
    with u assms KRoot have "written S root (elems (fn_Chunks fn)) []"
      unfolding written_def by (intro exI [of _ b] exI [of _ fn] exI [of _ "[]"]) simp
    then show ?thesis using KRoot u None by (simp add: next_chunk_ok)
  qed (use KRoot u in simp)
next
  case (KChunk chs out)
  with assms have wr: "written S root (c # chs) out" by simp
  show ?thesis
    using KChunk written_next [OF wr assms(2)] written_delivered [OF wr, of False]
    by (simp add: next_chunk_ok split: option.split)
qed

lemma goal_out_ok: "wants S root k c \<Longrightarrow> task_ok S root content s (Downloaded (Some err) (goal_out k))"
  by (cases k) (simp_all add: written_delivered)

lemma next_announce_ok:
  "has_file S s content r bs \<Longrightarrow> chunks = map (NewCID S) bs \<Longrightarrow> nb = file_node_block S bs \<Longrightarrow>
   task_ok S root content s (next_announce r chunks nb todo)"
  by (cases todo) auto

lemma next_replica_ok: "has_file S s content r bs \<Longrightarrow> task_ok S root content s (next_replica r todo)"
  by (cases todo) auto

lemma has_keeps:
  assumes "keeps S s s'" "view_sound S (node_view S s)"
  shows "has S s bs \<Longrightarrow> has S s' bs" "has_file S s content r bs \<Longrightarrow> has_file S s' content r bs"
  using keeps_block [OF assms] by (auto simp: has_def has_file_def)

lemma task_ok_keeps:
  assumes "keeps S s s'" "view_sound S (node_view S s)" "task_ok S root content s x"
  shows "task_ok S root content s' x"
  using assms(3) has_keeps [OF assms(1,2)]
  by (cases "(S, root, content, s, x)" rule: task_ok.cases) (auto, blast+)

lemma over_ok_step:
  assumes "over_ok S root p" "keeps S (ov_node p) s" "task_ok S (root i) (f i) s x" "\<And>j. j \<noteq> i \<Longrightarrow> f j = ov_cut p j"
  shows "over_ok S root (p\<lparr>ov_node := s, ov_task := (ov_task p)(i := x), ov_cut := f\<rparr>)"
proof -
  have v: "view_sound S (node_view S (ov_node p))" using assms(1) by (simp add: over_ok_def)
  have "task_ok S (root j) (f j) s (((ov_task p)(i := x)) j)" for j
    using assms(1,3,4) task_ok_keeps [OF assms(2) v] by (cases "j = i") (simp_all add: over_ok_def)
  then show ?thesis using keeps_sound [OF assms(2) v] by (simp add: over_ok_def)
qed

lemmas over_ok_same = over_ok_step [where f = "ov_cut p" and p = p for p, OF _ _ _ refl, simplified]

lemma over_ok_task:
  assumes "over_ok S root p" "task_ok S (root i) (ov_cut p i) (ov_node p) x"
  shows "over_ok S root (p\<lparr>ov_task := (ov_task p)(i := x)\<rparr>)"
  using over_ok_same [OF assms(1) keeps_refl assms(2)] by simp

lemma over_okD: "over_ok S root p \<Longrightarrow> view_sound S (node_view S (ov_node p))"
  "over_ok S root p \<Longrightarrow> ov_task p i = x \<Longrightarrow> task_ok S (root i) (ov_cut p i) (ov_node p) x"
  by (auto simp: over_ok_def)

lemma put_keeps:
  assumes "storage_ok S" "store_Put S (h_store h) b d = (r, d')"
  shows "keeps S (h, d, e) (h, d', e)"
    and "view_sound S (node_view S (h, d, e)) \<Longrightarrow> r = Inr c \<Longrightarrow> has S (h, d', e) [b]"
proof -
  show "keeps S (h, d, e) (h, d', e)"
  proof (cases r)
    case Inl
    with assms(2) Put_fails [OF assms(1)] show ?thesis by (intro keeps_same) (simp_all add: node_view_def)
  next
    case Inr
    with assms(2) Put_ok [OF assms(1)] show ?thesis by (intro keepsI [of _ _ _ "[b]"]) (simp_all add: node_view_def)
  qed
  show "has S (h, d', e) [b]" if "r = Inr c" using assms(2) that Put_ok [OF assms(1)] by (simp add: has_def node_view_def)
qed

lemma keep_block_keeps:
  assumes "storage_ok S" "keep_block S c b s = (r, s')"
  shows "keeps S s s'" "r = Inr b' \<Longrightarrow> NewCID S b' = c"
proof -
  obtain h d e where s: "s = (h, d, e)" by (rule prod_cases3)
  obtain x d' where put: "store_Put S (h_store h) b d = (x, d')" by (rule prod.exhaust)
  have "keeps S (h, d, e) (h, d', e)" by (rule put_keeps(1) [OF assms(1) put])
  with assms(2) put show "keeps S s s'" by (auto simp: s keep_block_def split: option.splits)
  show "NewCID S b' = c" if "r = Inr b'"
    using assms(2) that VerifyCID_iff [OF assms(1), of c b] by (auto simp: s keep_block_def split: option.splits)
qed

lemma has_put_blocks:
  assumes "view_sound S v" "node_view S s = put_blocks S xs v" "set bs \<subseteq> set xs"
  shows "has S s bs"
  unfolding has_def
proof (intro ballI impI)
  fix b assume b: "b \<in> set bs" and un: "unforgeable S b"
  from b assms(3) have "NewCID S b \<in> NewCID S ` set xs" by auto
  then obtain x where x: "node_view S s (NewCID S b) = Some x" using put_blocks_dom assms(2) by (metis domD subsetD)
  moreover have "NewCID S x = NewCID S b"
    using view_sound_put_blocks [OF assms(1)] x assms(2) by (auto simp: view_sound_def)
  ultimately show "node_view S s (NewCID S b) = Some b" using un by (simp add: unforgeable_def)
qed

lemma cut_keeps:
  assumes "storage_ok S" "PutFile S n (h_store h) path d = (r, d')"
  shows "keeps S (h, d, e) (h, d', e)"
    and "view_sound S (node_view S (h, d, e)) \<Longrightarrow> r = Inr chunks \<Longrightarrow>
      \<exists>bs. d path = Some (concat bs) \<and> chunks = map (NewCID S) bs \<and> has S (h, d', e) bs"
proof -
  have "\<exists>bs. view S (h_store h) d' = put_blocks S bs (view S (h_store h) d)"
    using assms(2) PutFile_fails [OF assms(1)] PutFile_ok [OF assms(1)] by (cases r) metis+
  then show "keeps S (h, d, e) (h, d', e)" by (auto intro: keepsI simp: node_view_def)
  assume v: "view_sound S (node_view S (h, d, e))" and r: "r = Inr chunks"
  obtain bs where bs: "d path = Some (concat bs)" "chunks = map (NewCID S) bs"
    "view S (h_store h) d' = put_blocks S bs (view S (h_store h) d)"
    using PutFile_ok [OF assms(1) assms(2) [unfolded r]] by metis
  have "has S (h, d', e) bs" by (rule has_put_blocks [OF v, where xs = bs]) (simp_all add: node_view_def bs(3))
  with bs show "\<exists>bs. d path = Some (concat bs) \<and> chunks = map (NewCID S) bs \<and> has S (h, d', e) bs" by blast
qed

lemma keeps_replicated: "replicate_all S rt ctx cs s = (r, s') \<Longrightarrow> keeps S s s'"
  using keeps_replicate [of S "fst s" "fst (snd s)" "snd (snd s)" rt ctx cs] by simp

lemma task_step_ok:
  assumes "storage_ok S" "task_step S os rt w p q" "over_ok S root p"
  shows "over_ok S root q"
  using assms(2)
proof cases
  case (ov_hit i k c h d e b)
  then have "NewCID S b = c"
    using over_okD(1) [OF assms(3)] by (simp add: store_Get_view view_sound_def node_view_def)
  with over_okD(2) [OF assms(3) ov_hit(2)] show ?thesis
    unfolding ov_hit(1) by (intro over_ok_task [OF assms(3)] have_block_ok) simp_all
next
  case (ov_miss i k c h d e err)
  with over_okD(2) [OF assms(3) ov_miss(2)] show ?thesis unfolding ov_miss(1) by (intro over_ok_task [OF assms(3)]) simp
next
  case (ov_fetch i k c err ctx b s)
  with over_okD(2) [OF assms(3) ov_fetch(2)] keeps_fetch [of S "ov_node p" rt ctx c] show ?thesis
    unfolding ov_fetch(1) by (intro over_ok_same [OF assms(3)]) simp_all
next
  case (ov_fetch_fails i k c err ctx err2 s)
  then have "keeps S (ov_node p) s" using keeps_fetch [of S "ov_node p" rt ctx c] by simp
  moreover have "wants S (root i) k c" using over_okD(2) [OF assms(3) ov_fetch_fails(2)] by simp
  ultimately show ?thesis unfolding ov_fetch_fails(1) by (intro over_ok_same [OF assms(3)] goal_out_ok)
next
  case (ov_keep i k c b b' s)
  note kb = keep_block_keeps [OF assms(1) ov_keep(3)]
  have "wants S (root i) k c" using over_okD(2) [OF assms(3) ov_keep(2)] by simp
  from have_block_ok [OF this kb(2) [OF refl]] show ?thesis unfolding ov_keep(1) by (intro over_ok_same [OF assms(3) kb(1)])
next
  case (ov_keep_fails i k c b err s)
  have "wants S (root i) k c" using over_okD(2) [OF assms(3) ov_keep_fails(2)] by simp
  then show ?thesis unfolding ov_keep_fails(1)
    by (intro over_ok_same [OF assms(3) keep_block_keeps(1) [OF assms(1) ov_keep_fails(3)]] goal_out_ok)
next
  case (ov_cut i path h d e content chunks d')
  note ck = cut_keeps [OF assms(1) ov_cut(5)]
  have "view_sound S (node_view S (h, d, e))" using over_okD(1) [OF assms(3)] ov_cut(3) by simp
  from ck(2) [OF this refl] ov_cut(4) have "task_ok S (root i) content (h, d', e) (HasChunks chunks)" by auto
  then show ?thesis unfolding ov_cut(1) by (intro over_ok_step [OF assms(3)]) (simp_all add: ck(1) ov_cut(3))
next
  case (ov_cut_fails i path h d e err d')
  show ?thesis unfolding ov_cut_fails(1)
    by (rule over_ok_same [OF assms(3)]) (simp_all add: cut_keeps(1) [OF assms(1) ov_cut_fails(4)] ov_cut_fails(3))
next
  case (ov_encode_fails i chunks err)
  then show ?thesis unfolding ov_encode_fails(1) by (intro over_ok_task [OF assms(3)]) simp
next
  case (ov_root i chunks nb h d e c d')
  obtain bs where bs: "concat bs = ov_cut p i" "chunks = map (NewCID S) bs" "has S (h, d, e) bs"
    using over_okD(2) [OF assms(3) ov_root(2)] ov_root(4) by auto
  have nb: "nb = file_node_block S bs" using ov_root(3) file_node_encoded(1) [OF assms(1), of bs] bs(2) by simp
  note pk = put_keeps [OF assms(1) ov_root(5)]
  have v: "view_sound S (node_view S (h, d, e))" using over_okD(1) [OF assms(3)] ov_root(4) by simp
  have "has S (h, d', e) [nb]" "has S (h, d', e) bs" by (rule pk(2) [OF v refl], rule has_keeps(1) [OF pk(1) v bs(3)])
  then have "has_file S (h, d', e) (ov_cut p i) (NewCID S nb) bs" using bs(1) nb by (simp add: has_file_def has_def)
  then show ?thesis unfolding ov_root(1)
    by (intro over_ok_same [OF assms(3)] next_announce_ok [OF _ bs(2) nb]) (simp_all add: pk(1) ov_root(4))
next
  case (ov_root_fails i chunks nb h d e err d')
  show ?thesis unfolding ov_root_fails(1)
    by (rule over_ok_same [OF assms(3)]) (simp_all add: put_keeps(1) [OF assms(1) ov_root_fails(5)] ov_root_fails(4))
next
  case (ov_announce i r chunks nb c cs h d e)
  let ?s = "(h\<lparr>h_providers := prov_Add c (Some (SelfEndpoint h)) (h_providers h)\<rparr>, d, e)"
  have k: "keeps S (ov_node p) ?s" unfolding ov_announce(3) by (intro keeps_same) (simp_all add: node_view_def)
  obtain bs where bs: "has_file S (ov_node p) (ov_cut p i) r bs" "chunks = map (NewCID S) bs" "nb = file_node_block S bs"
    using over_okD(2) [OF assms(3) ov_announce(2)] by auto
  from has_keeps(2) [OF k over_okD(1) [OF assms(3)] bs(1)] show ?thesis
    unfolding ov_announce(1) by (intro over_ok_same [OF assms(3) k] next_announce_ok [OF _ bs(2,3)])
next
  case (ov_bundle i r chunks nb h d e)
  obtain bs where bs: "has_file S (ov_node p) (ov_cut p i) r bs" "chunks = map (NewCID S) bs"
    using over_okD(2) [OF assms(3) ov_bundle(2)] by auto
  let ?s = "(h, snd (writeFileBundle S os (h_store h) r chunks nb d), e)"
  have "view S (h_store h) (snd (writeFileBundle S os (h_store h) r chunks nb d)) = view S (h_store h) d"
    using NewCID_key [OF assms(1)] bs by (intro writeFileBundle_view [OF assms(1)]) (auto simp: has_file_def)
  then have k: "keeps S (ov_node p) ?s" unfolding ov_bundle(3) by (intro keeps_same) (simp_all add: node_view_def)
  from has_keeps(2) [OF k over_okD(1) [OF assms(3)] bs(1)] show ?thesis
    unfolding ov_bundle(1) by (intro over_ok_same [OF assms(3) k] next_replica_ok)
next
  case (ov_replicate i r c cs ctx s)
  have k: "keeps S (ov_node p) s" by (rule keeps_replicated [OF ov_replicate(3)])
  obtain bs where "has_file S (ov_node p) (ov_cut p i) r bs" using over_okD(2) [OF assms(3) ov_replicate(2)] by auto
  from has_keeps(2) [OF k over_okD(1) [OF assms(3)] this] show ?thesis
    unfolding ov_replicate(1) by (intro over_ok_same [OF assms(3) k] next_replica_ok)
next
  case (ov_replicate_fails i r c cs ctx err s)
  have "keeps S (ov_node p) s" by (rule keeps_replicated [OF ov_replicate_fails(3)])
  then show ?thesis unfolding ov_replicate_fails(1) by (intro over_ok_same [OF assms(3)]) simp_all
qed

lemma over_step_ok:
  assumes "storage_ok S" "over_step S os rt w p q" "over_ok S root p"
  shows "over_ok S root q"
  using assms(2)
proof cases
  case ov_call
  then show ?thesis by (rule task_step_ok [OF assms(1) _ assms(3)])
next
  case (ov_other s)
  have v: "view_sound S (node_view S (ov_node p))" by (rule over_okD(1) [OF assms(3)])
  show ?thesis unfolding ov_other(1)
    using assms(3) task_ok_keeps [OF ov_other(2) v] keeps_sound [OF ov_other(2) v] by (simp add: over_ok_def)
qed

lemma over_run_ok:
  assumes "storage_ok S" "(over_step S os rt w)\<^sup>*\<^sup>* p q" "over_ok S root p"
  shows "over_ok S root q"
  using assms(2,3) by (induction rule: rtranclp_induct) (auto intro: over_step_ok [OF assms(1)])

lemma over_start_ok:
  assumes "over_start S root p" shows "over_ok S root p"
proof -
  have "task_ok S (root i) (ov_cut p i) (ov_node p) (ov_task p i)" for i
  proof -
    from assms consider "ov_task p i = Looks KRoot (root i)" | path where "ov_task p i = Cuts path"
      unfolding over_start_def by blast
    then show ?thesis by cases simp_all
  qed
  with assms show ?thesis by (simp add: over_ok_def over_start_def)
qed

text \<open>A call that is over stays so.\<close>

lemma uploaded_step:
  assumes "over_step S os rt w p q" "ov_task p i = Uploaded x"
  shows "ov_task q i = Uploaded x \<and> ov_cut q i = ov_cut p i"
  using assms(1)
proof cases
  case ov_call
  then show ?thesis using assms(2) by cases auto
qed (use assms(2) in simp)

lemma uploaded_stays:
  assumes "(over_step S os rt w)\<^sup>*\<^sup>* p q" "ov_task p i = Uploaded x"
  shows "ov_task q i = Uploaded x \<and> ov_cut q i = ov_cut p i"
  using assms by (induction rule: rtranclp_induct) (auto dest: uploaded_step)

lemma has_file_served:
  assumes "storage_ok S" "has_file S s content r bs" "\<forall>b\<in>set (file_node_block S bs # bs). unforgeable S b"
  shows "GetFile S rt ctx r (\<lambda>_ _. None) s = ((None, content), s)"
proof -
  obtain h d e where n: "s = (h, d, e)" by (rule prod_cases3)
  have "holds_file S (h_store h) d r bs"
    using assms(2,3) by (simp add: has_file_def has_def holds_file_def node_view_def n)
  from GetFile_local [OF assms(1) this] assms(2) show ?thesis by (simp add: n has_file_def)
qed

text \<open>
  C4. Downloads deliver only what their ids vouch for, whatever runs beside them. Any number of
  uploads and downloads overlap on a node whose store is sound, their accesses to the node
  interleaved with each other and with any operation that only adds blocks. A download that has
  ended has written blocks with the ids listed, in order, by a file node with the id it was asked
  for: all of them if it succeeded, else the first ones or nothing.
\<close>

theorem overlap_downloads:
  assumes "storage_ok S" "over_start S root p0" "(over_step S os rt w)\<^sup>*\<^sup>* p0 p" "ov_task p i = Downloaded err out"
  shows "delivered S (root i) (err = None) out \<or> err \<noteq> None \<and> out = []"
  using over_okD(2) [OF over_run_ok [OF assms(1,3) over_start_ok [OF assms(2)]] assms(4)] by simp

text \<open>
  C3. An upload is complete when it returns, whatever runs beside it. When one of any number of
  overlapping uploads and downloads returns a root id, it is the id of a node over pieces of
  what the file held when it was cut. Unless blocks of it can be forged, from then on, whatever
  goes on, \<open>GetFile\<close> of that id on this node returns these contents without asking anybody, and so
  does every download of it that succeeds, one that was under way included.
\<close>

theorem overlap_uploads:
  assumes "storage_ok S" "over_start S root p0" "(over_step S os rt w)\<^sup>*\<^sup>* p0 p" "ov_task p i = Uploaded (Inr r)"
    and "(over_step S os rt w)\<^sup>*\<^sup>* p q"
  shows "\<exists>bs. concat bs = ov_cut p i \<and> r = NewCID S (file_node_block S bs) \<and>
    ((\<forall>b\<in>set (file_node_block S bs # bs). unforgeable S b) \<longrightarrow>
       GetFile S rt' ctx r (\<lambda>_ _. None) (ov_node q) = ((None, ov_cut p i), ov_node q) \<and>
       (\<forall>j out. root j = r \<and> ov_task q j = Downloaded None out \<longrightarrow> out = ov_cut p i))"
proof -
  from assms(3,5) have "(over_step S os rt w)\<^sup>*\<^sup>* p0 q" by simp
  from over_run_ok [OF assms(1) this over_start_ok [OF assms(2)]] have q: "over_ok S root q" .
  from uploaded_stays [OF assms(5,4)] have up: "ov_task q i = Uploaded (Inr r)" "ov_cut q i = ov_cut p i" by simp_all
  obtain bs where bs: "has_file S (ov_node q) (ov_cut p i) r bs" using over_okD(2) [OF q up(1)] up(2) by auto
  have "GetFile S rt' ctx r (\<lambda>_ _. None) (ov_node q) = ((None, ov_cut p i), ov_node q) \<and>
      (\<forall>j out. root j = r \<and> ov_task q j = Downloaded None out \<longrightarrow> out = ov_cut p i)"
    if un: "\<forall>b\<in>set (file_node_block S bs # bs). unforgeable S b"
  proof
    show "GetFile S rt' ctx r (\<lambda>_ _. None) (ov_node q) = ((None, ov_cut p i), ov_node q)"
      by (rule has_file_served [OF assms(1) bs un])
    show "\<forall>j out. root j = r \<and> ov_task q j = Downloaded None out \<longrightarrow> out = ov_cut p i"
    proof (intro allI impI, elim conjE)
      fix j out assume j: "root j = r" "ov_task q j = Downloaded None out"
      from over_okD(2) [OF q j(2)] j(1) bs have "delivered S (NewCID S (file_node_block S bs)) True out"
        by (simp add: has_file_def)
      from delivered_authentic [OF this file_node_encoded(2) [OF assms(1)]] un bs show "out = ov_cut p i"
        by (auto simp: has_file_def)
    qed
  qed
  with bs show ?thesis by (intro exI [of _ bs]) (simp add: has_file_def)
qed

section \<open>A call that is not interrupted\<close>

definition moved :: "('s, 'c, 'e) over \<Rightarrow> nat \<Rightarrow> ('s, 'c, 'e) node \<Rightarrow> task \<Rightarrow> ('s, 'c, 'e) over" where
  "moved p i s x = p\<lparr>ov_node := s, ov_task := (ov_task p)(i := x)\<rparr>"

lemma moved_simps [simp]:
  "ov_node (moved p i s x) = s" "ov_task (moved p i s x) i = x" "moved (moved p i s x) i s' y = moved p i s' y"
  by (simp_all add: moved_def)

lemma moved_id: "ov_node p = s \<Longrightarrow> ov_task p i = x \<Longrightarrow> moved p i s x = p"
  by (cases p) (auto simp: moved_def)

lemma moved_task: "ov_node p = s \<Longrightarrow> p\<lparr>ov_task := (ov_task p)(i := x)\<rparr> = moved p i s x"
  by (cases p) (simp add: moved_def)

lemmas over_moves = task_step.intros [folded moved_def]

text \<open>Loading a block.\<close>

definition loaded_task :: "writer \<Rightarrow> goal \<Rightarrow> error + bytes \<Rightarrow> task" where
  "loaded_task w k r = (case r of Inr b \<Rightarrow> have_block w k b | Inl err \<Rightarrow> Downloaded (Some err) (goal_out k))"

lemma load_block_runs:
  assumes "ov_task p i = Looks k c" "load_block S rt ctx (goal_wrap k c) c (ov_node p) = (r, s)"
  shows "(task_step S os rt w)\<^sup>*\<^sup>* p (moved p i s (loaded_task (w i) k r))"
proof -
  let ?step = "task_step S os rt w"
  obtain h d e where n: "ov_node p = (h, d, e)" by (rule prod_cases3)
  show ?thesis
  proof (cases "store_Get S (h_store h) c d")
    case (Inr b)
    with assms(2) n have "r = Inr b" "s = (h, d, e)" by (simp_all add: load_block_def)
    with ov_hit [OF assms(1) n Inr, of os rt w] moved_task [OF n] show ?thesis by (simp add: loaded_task_def r_into_rtranclp)
  next
    case miss: (Inl err)
    let ?p1 = "moved p i (h, d, e) (Asks k c err)"
    have 1: "?step p ?p1" using ov_miss [OF assms(1) n miss, of os rt w] moved_task [OF n] by simp
    obtain x s1 where f: "fetch_remote S rt ctx c (h, d, e) = (x, s1)" by (rule prod.exhaust)
    show ?thesis
    proof (cases x)
      case (Inl err2)
      with assms(2) n f miss have "r = Inl (goal_wrap k c err err2)" "s = s1" by (simp_all add: load_block_def)
      moreover have "?step ?p1 (moved ?p1 i s1 (Downloaded (Some (goal_wrap k c err err2)) (goal_out k)))"
        by (rule over_moves(4)) (use f Inl in simp_all)
      ultimately show ?thesis using 1 by (simp add: loaded_task_def)
    next
      case (Inr b)
      let ?p2 = "moved p i s1 (Checks k c b)"
      have "?step ?p1 (moved ?p1 i s1 (Checks k c b))" by (rule over_moves(3)) (use f Inr in simp_all)
      then have 2: "?step ?p1 ?p2" by simp
      have kb: "keep_block S c b s1 = (r, s)" using assms(2) n f Inr miss by (simp add: load_block_def)
      have "?step ?p2 (moved ?p2 i s (loaded_task (w i) k r))"
      proof (cases r)
        case (Inl err)
        show ?thesis unfolding Inl loaded_task_def sum.case by (rule over_moves(6)) (use kb Inl in simp_all)
      next
        case (Inr b')
        show ?thesis unfolding Inr loaded_task_def sum.case by (rule over_moves(5)) (use kb Inr in simp_all)
      qed
      then have 3: "?step ?p2 (moved p i s (loaded_task (w i) k r))" by simp
      from 1 2 3 show ?thesis by (meson converse_rtranclp_into_rtranclp r_into_rtranclp)
    qed
  qed
qed

lemma stream_runs:
  assumes "ov_task p i = next_chunk chs out" "stream_chunks S rt ctx (w i) chs out (ov_node p) = ((err, out'), s)"
  shows "(task_step S os rt w)\<^sup>*\<^sup>* p (moved p i s (Downloaded err out'))"
  using assms
proof (induction chs arbitrary: p out)
  case Nil
  then show ?case by (simp add: moved_id)
next
  case (Cons ch chs)
  obtain r s1 where l: "load_chunk S rt ctx ch (ov_node p) = (r, s1)" by (rule prod.exhaust)
  have "goal_wrap (KChunk chs out) ch = (\<lambda>_ err. ''chunk '' @ ch @ '': '' @ err)" by (simp add: fun_eq_iff)
  with l have "load_block S rt ctx (goal_wrap (KChunk chs out) ch) ch (ov_node p) = (r, s1)" by (simp add: load_chunk_def)
  from load_block_runs [OF Cons.prems(1) [unfolded next_chunk.simps] this, of os w]
  have run: "(task_step S os rt w)\<^sup>*\<^sup>* p (moved p i s1 (loaded_task (w i) (KChunk chs out) r))" .
  show ?case
  proof (cases "\<exists>b. r = Inr b \<and> w i out b = None")
    case True
    then obtain b where b: "r = Inr b" "w i out b = None" by blast
    let ?p = "moved p i s1 (next_chunk chs (out @ b))"
    have "stream_chunks S rt ctx (w i) chs (out @ b) (ov_node ?p) = ((err, out'), s)" using Cons.prems(2) l b by simp
    with Cons.IH [of ?p "out @ b"] have "(task_step S os rt w)\<^sup>*\<^sup>* ?p (moved p i s (Downloaded err out'))" by simp
    with run b show ?thesis by (simp add: loaded_task_def)
  next
    case False
    with run Cons.prems(2) l show ?thesis by (auto simp: loaded_task_def split: sum.splits option.splits)
  qed
qed

lemma GetFile_runs:
  assumes "ov_task p i = Looks KRoot root" "GetFile S rt ctx root (w i) (ov_node p) = ((err, out), s)"
  shows "(task_step S os rt w)\<^sup>*\<^sup>* p (moved p i s (Downloaded err out))"
proof -
  obtain r s1 where l: "load_root S rt ctx root (ov_node p) = (r, s1)" by (rule prod.exhaust)
  have "goal_wrap KRoot root = (\<lambda>err err2. ''root block: '' @ err @ '': '' @ err2)" by (simp add: fun_eq_iff)
  with l have "load_block S rt ctx (goal_wrap KRoot root) root (ov_node p) = (r, s1)" by (simp add: load_root_def)
  from load_block_runs [OF assms(1) this, of os w]
  have run: "(task_step S os rt w)\<^sup>*\<^sup>* p (moved p i s1 (loaded_task (w i) KRoot r))" .
  show ?thesis
  proof (cases "\<exists>b fn. r = Inr b \<and> Unmarshal_FileNode b = (fn, None)")
    case True
    then obtain b fn where b: "r = Inr b" "Unmarshal_FileNode b = (fn, None)" by blast
    let ?p = "moved p i s1 (next_chunk (elems (fn_Chunks fn)) [])"
    have "stream_chunks S rt ctx (w i) (elems (fn_Chunks fn)) [] (ov_node ?p) = ((err, out), s)"
      using assms(2) l b by (simp add: GetFile_def)
    with stream_runs [of ?p i "elems (fn_Chunks fn)" "[]" S rt ctx w err out s os]
    have "(task_step S os rt w)\<^sup>*\<^sup>* ?p (moved p i s (Downloaded err out))" by simp
    with run b show ?thesis by (simp add: loaded_task_def)
  next
    case False
    with run assms(2) l show ?thesis
      by (auto simp: GetFile_def loaded_task_def split: sum.splits prod.splits option.splits)
  qed
qed

text \<open>Announcing and replicating.\<close>

lemma announce_runs:
  assumes "ov_task p i = next_announce root chunks nb cs" "ov_node p = (h, d, e)"
  shows "(task_step S os rt w)\<^sup>*\<^sup>* p
    (moved p i (h\<lparr>h_providers := foldl (\<lambda>p c. prov_Add c (Some (SelfEndpoint h)) p) (h_providers h) cs\<rparr>, d, e)
      (Bundles root chunks nb))"
  using assms
proof (induction cs arbitrary: p h)
  case Nil
  then show ?case by (simp add: moved_id)
next
  case (Cons c cs)
  let ?h = "h\<lparr>h_providers := prov_Add c (Some (SelfEndpoint h)) (h_providers h)\<rparr>"
  let ?p = "moved p i (?h, d, e) (next_announce root chunks nb cs)"
  have ep: "SelfEndpoint ?h = SelfEndpoint h" by (simp add: SelfEndpoint_def)
  have "task_step S os rt w p ?p" using Cons.prems by (intro over_moves(12)) simp_all
  moreover from Cons.IH [of ?p ?h] have "(task_step S os rt w)\<^sup>*\<^sup>* ?p
      (moved p i (h\<lparr>h_providers := foldl (\<lambda>p c. prov_Add c (Some (SelfEndpoint h)) p) (h_providers h) (c # cs)\<rparr>, d, e)
        (Bundles root chunks nb))" by (simp add: ep)
  ultimately show ?case by (rule converse_rtranclp_into_rtranclp)
qed

lemma replicate_Cons:
  "replicate_all S rt ctx (c # cs) s =
     (case replicate_all S rt ctx [c] s of (Inl err, s') \<Rightarrow> (Inl err, s') | (Inr _, s') \<Rightarrow> replicate_all S rt ctx cs s')"
  by (cases s) (simp add: Let_def split: sum.split prod.split option.split)

definition replicated_task :: "string \<Rightarrow> error + unit \<Rightarrow> task" where
  "replicated_task root r = Uploaded (case r of Inl err \<Rightarrow> Inl err | Inr _ \<Rightarrow> Inr root)"

lemma replicate_runs:
  assumes "ov_task p i = next_replica root cs" "replicate_all S rt ctx cs (ov_node p) = (r, s)"
  shows "(task_step S os rt w)\<^sup>*\<^sup>* p (moved p i s (replicated_task root r))"
  using assms
proof (induction cs arbitrary: p)
  case Nil
  then have "moved p i s (replicated_task root r) = p" by (intro moved_id) (auto simp: replicated_task_def)
  then show ?case by simp
next
  case (Cons c cs)
  obtain x s1 where 1: "replicate_all S rt ctx [c] (ov_node p) = (x, s1)" by (rule prod.exhaust)
  note r = Cons.prems(2) [unfolded replicate_Cons [of _ _ _ c cs] 1 prod.case]
  show ?case
  proof (cases x)
    case (Inl err)
    then have "task_step S os rt w p (moved p i s1 (Uploaded (Inl err)))"
      using Cons.prems(1) 1 by (intro over_moves(15)) simp_all
    with r Inl show ?thesis by (auto simp: replicated_task_def)
  next
    case (Inr u)
    let ?p = "moved p i s1 (next_replica root cs)"
    have "task_step S os rt w p ?p" using Cons.prems(1) 1 Inr by (intro over_moves(14)) simp_all
    moreover have "(task_step S os rt w)\<^sup>*\<^sup>* ?p (moved p i s (replicated_task root r))"
      using Cons.IH [of ?p] r Inr by simp
    ultimately show ?thesis by (rule converse_rtranclp_into_rtranclp)
  qed
qed

text \<open>The part of \<open>AddFile\<close> after the file is cut and the root encoded.\<close>

lemma AddFile_tail_runs:
  assumes "ov_task p i = next_announce root chunks nb (root # chunks)" "ov_node p = (h, d, e)"
    and "replicate_all S rt ctx (root # chunks)
      (h\<lparr>h_providers := foldl (\<lambda>p c. prov_Add c (Some (SelfEndpoint h)) p) (h_providers h) (root # chunks)\<rparr>,
       snd (writeFileBundle S os (h_store h) root chunks nb d), e) = (r, s)"
  shows "(task_step S os rt w)\<^sup>*\<^sup>* p (moved p i s (replicated_task root r))"
proof -
  let ?h = "h\<lparr>h_providers := foldl (\<lambda>p c. prov_Add c (Some (SelfEndpoint h)) p) (h_providers h) (root # chunks)\<rparr>"
  let ?d = "snd (writeFileBundle S os (h_store h) root chunks nb d)"
  let ?p1 = "moved p i (?h, d, e) (Bundles root chunks nb)"
  let ?p2 = "moved p i (?h, ?d, e) (next_replica root (root # chunks))"
  have 1: "(task_step S os rt w)\<^sup>*\<^sup>* p ?p1" by (rule announce_runs [OF assms(1,2)])
  have "task_step S os rt w ?p1 (moved ?p1 i (?h, snd (writeFileBundle S os (h_store ?h) root chunks nb d), e)
      (next_replica root (root # chunks)))" by (rule over_moves(13)) simp_all
  then have 2: "task_step S os rt w ?p1 ?p2" by simp
  have "(task_step S os rt w)\<^sup>*\<^sup>* ?p2 (moved ?p2 i s (replicated_task root r))"
    by (rule replicate_runs) (use assms(3) in \<open>simp_all del: replicate_all.simps next_replica.simps\<close>)
  then have 3: "(task_step S os rt w)\<^sup>*\<^sup>* ?p2 (moved p i s (replicated_task root r))" by simp
  from 1 2 3 show ?thesis by (meson rtranclp.rtrancl_into_rtrancl rtranclp_trans)
qed

lemma AddFile_runs:
  assumes "storage_ok S" "ov_task p i = Cuts path" "AddFile S os rt ctx path (ov_node p) = (r, s)"
  shows "\<exists>f. (task_step S os rt w)\<^sup>*\<^sup>* p (moved (p\<lparr>ov_cut := f\<rparr>) i s (Uploaded r))"
proof -
  let ?step = "task_step S os rt w"
  obtain h d e where n: "ov_node p = (h, d, e)" by (rule prod_cases3)
  obtain x d1 where cut: "PutFile S (h_chunker h) (h_store h) path d = (x, d1)" by (rule prod.exhaust)
  show ?thesis
  proof (cases x)
    case (Inl err)
    with cut have "?step p (moved p i (h, d1, e) (Uploaded (Inl err)))" by (intro over_moves(8) [OF assms(2) n]) simp
    moreover have "r = Inl err" "s = (h, d1, e)" using assms(3) n cut Inl by (simp_all add: AddFile_def)
    moreover have "p\<lparr>ov_cut := ov_cut p\<rparr> = p" by (cases p) simp
    ultimately show ?thesis by (intro exI [of _ "ov_cut p"]) simp
  next
    case (Inr chunks)
    obtain bs where bs: "d path = Some (concat bs)" "chunks = map (NewCID S) bs"
      using PutFile_ok [OF assms(1) cut [unfolded Inr]] by metis
    let ?q = "p\<lparr>ov_cut := (ov_cut p)(i := concat bs)\<rparr>"
    let ?p1 = "moved ?q i (h, d1, e) (HasChunks chunks)"
    have "?p1 = p\<lparr>ov_node := (h, d1, e), ov_task := (ov_task p)(i := HasChunks chunks), ov_cut := (ov_cut p)(i := concat bs)\<rparr>"
      by (cases p) (simp add: moved_def)
    with ov_cut [OF assms(2) n bs(1) cut [unfolded Inr], of os rt w] have 1: "?step p ?p1" by simp
    let ?nb = "file_node_block S bs"
    have enc: "EncodeCanonicalJSON (FileNode_json (NewFileNode chunks)) = Inr ?nb"
      unfolding bs(2) by (rule file_node_encoded(1) [OF assms(1)])
    obtain y d2 where put: "store_Put S (h_store h) ?nb d1 = (y, d2)" by (rule prod.exhaust)
    show ?thesis
    proof (cases y)
      case (Inl err)
      have "?step ?p1 (moved ?p1 i (h, d2, e) (Uploaded (Inl err)))"
        by (rule over_moves(11)) (use enc put Inl in simp_all)
      with 1 have "?step\<^sup>*\<^sup>* p (moved ?q i (h, d2, e) (Uploaded (Inl err)))" by simp
      moreover have "r = Inl err" "s = (h, d2, e)"
        using assms(3) n cut \<open>x = Inr chunks\<close> enc put Inl by (simp_all add: AddFile_def Let_def)
      ultimately show ?thesis by blast
    next
      case (Inr c)
      let ?root = "NewCID S ?nb"
      let ?p2 = "moved ?q i (h, d2, e) (next_announce ?root chunks ?nb (?root # chunks))"
      have "?step ?p1 (moved ?p1 i (h, d2, e) (next_announce ?root chunks ?nb (?root # chunks)))"
        by (rule over_moves(10)) (use enc put Inr in simp_all)
      then have 2: "?step ?p1 ?p2" by simp
      let ?h = "h\<lparr>h_providers := foldl (\<lambda>p c. prov_Add c (Some (SelfEndpoint h)) p) (h_providers h) (?root # chunks)\<rparr>"
      obtain z s' where rep: "replicate_all S rt ctx (?root # chunks)
          (?h, snd (writeFileBundle S os (h_store h) ?root chunks ?nb d2), e) = (z, s')" by (rule prod.exhaust)
      have "?step\<^sup>*\<^sup>* ?p2 (moved ?p2 i s' (replicated_task ?root z))"
        by (rule AddFile_tail_runs [OF _ _ rep]) (simp_all del: next_announce.simps)
      then have 3: "?step\<^sup>*\<^sup>* ?p2 (moved ?q i s' (replicated_task ?root z))" by simp
      from 1 2 3 have run: "?step\<^sup>*\<^sup>* p (moved ?q i s' (replicated_task ?root z))"
        by (meson converse_rtranclp_into_rtranclp)
      have "AddFile S os rt ctx path (h, d, e) = (case z of Inl err \<Rightarrow> (Inl err, s') | Inr _ \<Rightarrow> (Inr ?root, s'))"
        unfolding AddFile_def prod.case cut \<open>x = Inr chunks\<close> sum.case enc Let_def put Inr
        using rep by (simp del: replicate_all.simps split: sum.split)
      then have "s = s'" "replicated_task ?root z = Uploaded r"
        using assms(3) n by (cases z; simp add: replicated_task_def)+
      with run show ?thesis by auto
    qed
  qed
qed

text \<open>
  C25. The steps are those of the code. A download or an upload whose steps are not interrupted ends
  with the result of \<open>GetFile\<close> or \<open>AddFile\<close>, and leaves the node as these do.
\<close>

theorem overlap_refines:
  assumes "storage_ok S"
  shows "(ov_task p i = Looks KRoot root \<longrightarrow> GetFile S rt ctx root (w i) (ov_node p) = ((err, out), s) \<longrightarrow>
      (\<exists>q. (task_step S os rt w)\<^sup>*\<^sup>* p q \<and> ov_node q = s \<and> ov_task q = (ov_task p)(i := Downloaded err out))) \<and>
    (ov_task p i = Cuts path \<longrightarrow> AddFile S os rt ctx path (ov_node p) = (r, s) \<longrightarrow>
      (\<exists>q. (task_step S os rt w)\<^sup>*\<^sup>* p q \<and> ov_node q = s \<and> ov_task q = (ov_task p)(i := Uploaded r)))"
proof (intro conjI impI)
  assume "ov_task p i = Looks KRoot root" "GetFile S rt ctx root (w i) (ov_node p) = ((err, out), s)"
  from GetFile_runs [of p i root S rt ctx w err out s os, OF this]
  show "\<exists>q. (task_step S os rt w)\<^sup>*\<^sup>* p q \<and> ov_node q = s \<and> ov_task q = (ov_task p)(i := Downloaded err out)"
    by (intro exI [of _ "moved p i s (Downloaded err out)"]) (simp, simp add: moved_def)
next
  assume "ov_task p i = Cuts path" "AddFile S os rt ctx path (ov_node p) = (r, s)"
  from AddFile_runs [OF assms this] obtain f where
    "(task_step S os rt w)\<^sup>*\<^sup>* p (moved (p\<lparr>ov_cut := f\<rparr>) i s (Uploaded r))" by blast
  then show "\<exists>q. (task_step S os rt w)\<^sup>*\<^sup>* p q \<and> ov_node q = s \<and> ov_task q = (ov_task p)(i := Uploaded r)"
    by (intro exI [of _ "moved (p\<lparr>ov_cut := f\<rparr>) i s (Uploaded r)"]) (simp, simp add: moved_def)
qed

section \<open>Examples\<close>

definition ex_over :: "(nat \<Rightarrow> task) \<Rightarrow> (string, string, nat) over" where
  "ex_over f = \<lparr>ov_node = (ex_host, ex_disk, 0), ov_task = f, ov_cut = (\<lambda>_. [])\<rparr>"

abbreviation ex_task_step :: "(string, string, nat) over \<Rightarrow> (string, string, nat) over \<Rightarrow> bool" where
  "ex_task_step \<equiv> task_step ex_storage ex_os (ex_rt [7] [ex_ep]) (\<lambda>_ _ _. None)"

abbreviation ex_over_step :: "(string, string, nat) over \<Rightarrow> (string, string, nat) over \<Rightarrow> bool" where
  "ex_over_step \<equiv> over_step ex_storage ex_os (ex_rt [7] [ex_ep]) (\<lambda>_ _ _. None)"

lemma task_runs: "(task_step S os rt w)\<^sup>*\<^sup>* p q \<Longrightarrow> (over_step S os rt w)\<^sup>*\<^sup>* p q"
  by (erule rtranclp_mono [THEN predicate2D, rotated]) (blast intro: ov_call)

lemma ex_over_start:
  "(\<And>i. f i = Looks KRoot (root i) \<or> (\<exists>path. f i = Cuts path)) \<Longrightarrow> over_start ex_storage root (ex_over f)"
  using ex_view_sound by (simp add: over_start_def ex_over_def node_view_def)

lemma ex_over_upload:
  assumes "f 0 = Cuts ''f''"
  obtains p where "ex_over_step\<^sup>*\<^sup>* (ex_over f) p" "ov_task p = f(0 := Uploaded (Inr (ex_cid ex_root)))"
proof -
  obtain h d e where a: "AddFile ex_storage ex_os (ex_rt [7] [ex_ep]) None ''f'' (ex_host, ex_disk, 0) = (Inr (ex_cid ex_root), (h, d, e))"
    by (rule ex_AddFile_at [where d = ex_disk and path = "''f''" and rt = "ex_rt [7] [ex_ep]" and ctx = None and e = 0, OF ex_disk_file])
  have "ov_task (ex_over f) 0 = Cuts ''f''"
    "AddFile ex_storage ex_os (ex_rt [7] [ex_ep]) None ''f'' (ov_node (ex_over f)) = (Inr (ex_cid ex_root), (h, d, e))"
    using assms a by (simp_all add: ex_over_def)
  from AddFile_runs [where w = "\<lambda>_ _ _. None", OF ex_storage_ok this]
  obtain c where "ex_task_step\<^sup>*\<^sup>* (ex_over f) (moved ((ex_over f)\<lparr>ov_cut := c\<rparr>) 0 (h, d, e) (Uploaded (Inr (ex_cid ex_root))))"
    by blast
  from task_runs [OF this] show thesis by (rule that) (simp add: moved_def ex_over_def)
qed

lemma ex_over_served:
  assumes "over_ok ex_storage root p" "ov_task p i = Uploaded (Inr (ex_cid ex_root))"
  shows "ov_cut p i = ex_chunk"
    and "GetFile ex_storage rt ctx (ex_cid ex_root) (\<lambda>_ _. None) (ov_node p) = ((None, ex_chunk), ov_node p)"
proof -
  obtain bs where bs: "has_file ex_storage (ov_node p) (ov_cut p i) (ex_cid ex_root) bs"
    using over_okD(2) [OF assms] by auto
  have "ex_cid ex_root = ex_cid (file_node_block ex_storage bs)" using bs by (simp add: has_file_def)
  from ex_blocks [OF this] have b: "bs = [ex_chunk]" .
  with bs show c: "ov_cut p i = ex_chunk" by (simp add: has_file_def)
  have "unforgeable ex_storage ex_chunk" by (rule ex_unforgeable) (simp add: ex_chunk_def)
  then show "GetFile ex_storage rt ctx (ex_cid ex_root) (\<lambda>_ _. None) (ov_node p) = ((None, ex_chunk), ov_node p)"
    using has_file_served [OF ex_storage_ok bs, of rt ctx] ex_unforgeable [of ex_root] by (simp add: b c ex_root_block)
qed

text \<open>Call 0 uploads a file; the others wait to download it, and call 1 then does.\<close>

definition ex_calls :: "nat \<Rightarrow> task" where
  "ex_calls i = (if i = 0 then Cuts ''f'' else Looks KRoot (ex_cid ex_root))"

lemma ex_calls_start: "over_start ex_storage (\<lambda>_. ex_cid ex_root) (ex_over ex_calls)"
  by (rule ex_over_start) (simp add: ex_calls_def)

lemma ex_calls_ok: "ex_over_step\<^sup>*\<^sup>* (ex_over ex_calls) p \<Longrightarrow> over_ok ex_storage (\<lambda>_. ex_cid ex_root) p"
  by (rule over_run_ok [OF ex_storage_ok _ over_start_ok [OF ex_calls_start]])

theorem overlap_downloads_witness:
  "\<exists>p. ex_over_step\<^sup>*\<^sup>* (ex_over ex_calls) p \<and> ov_task p 1 = Downloaded None ex_chunk \<and>
     delivered ex_storage (ex_cid ex_root) True ex_chunk"
proof -
  obtain p where run: "ex_over_step\<^sup>*\<^sup>* (ex_over ex_calls) p" and t: "ov_task p = ex_calls(0 := Uploaded (Inr (ex_cid ex_root)))"
    by (rule ex_over_upload [of ex_calls]) (simp add: ex_calls_def)
  have "ov_task p 0 = Uploaded (Inr (ex_cid ex_root))" using t by simp
  from ex_over_served(2) [OF ex_calls_ok [OF run] this, of "ex_rt [7] [ex_ep]" None]
  have g: "GetFile ex_storage (ex_rt [7] [ex_ep]) None (ex_cid ex_root) ((\<lambda>_ _ _. None) (1::nat)) (ov_node p) = ((None, ex_chunk), ov_node p)" by simp
  let ?q = "moved p 1 (ov_node p) (Downloaded None ex_chunk)"
  have "ov_task p 1 = Looks KRoot (ex_cid ex_root)" by (simp add: t ex_calls_def)
  from task_runs [OF GetFile_runs [of p 1 "ex_cid ex_root" ex_storage "ex_rt [7] [ex_ep]" None "\<lambda>_ _ _. None" None ex_chunk _ ex_os, OF this g]]
  have "ex_over_step\<^sup>*\<^sup>* p ?q" .
  with run have run: "ex_over_step\<^sup>*\<^sup>* (ex_over ex_calls) ?q" by simp
  from overlap_downloads [OF ex_storage_ok ex_calls_start run, of 1 None ex_chunk] run
  show ?thesis by (intro exI [of _ ?q]) simp
qed

theorem overlap_uploads_witness:
  "\<exists>p. ex_over_step\<^sup>*\<^sup>* (ex_over ex_calls) p \<and> ov_task p 0 = Uploaded (Inr (ex_cid ex_root)) \<and>
     GetFile ex_storage (ex_rt [] []) None (ex_cid ex_root) (\<lambda>_ _. None) (ov_node p) = ((None, ex_chunk), ov_node p)"
proof -
  obtain p where run: "ex_over_step\<^sup>*\<^sup>* (ex_over ex_calls) p" and t: "ov_task p = ex_calls(0 := Uploaded (Inr (ex_cid ex_root)))"
    by (rule ex_over_upload [of ex_calls]) (simp add: ex_calls_def)
  have up: "ov_task p 0 = Uploaded (Inr (ex_cid ex_root))" using t by simp
  have cut: "ov_cut p 0 = ex_chunk" by (rule ex_over_served(1) [OF ex_calls_ok [OF run] up])
  from overlap_uploads [OF ex_storage_ok ex_calls_start run up rtranclp.rtrancl_refl, where rt' = "ex_rt [] []" and ctx = None]
  obtain bs where bs: "ex_cid ex_root = ex_cid (file_node_block ex_storage bs)"
    "(\<forall>b\<in>set (file_node_block ex_storage bs # bs). unforgeable ex_storage b) \<Longrightarrow>
       GetFile ex_storage (ex_rt [] []) None (ex_cid ex_root) (\<lambda>_ _. None) (ov_node p) = ((None, ex_chunk), ov_node p)"
    unfolding cut by auto
  have "unforgeable ex_storage ex_chunk" by (rule ex_unforgeable) (simp add: ex_chunk_def)
  with bs(2) have "GetFile ex_storage (ex_rt [] []) None (ex_cid ex_root) (\<lambda>_ _. None) (ov_node p) = ((None, ex_chunk), ov_node p)"
    using ex_unforgeable [of ex_root] by (simp add: ex_blocks [OF bs(1)] ex_root_block)
  with run up show ?thesis by blast
qed

theorem overlap_refines_witness:
  "\<exists>q. ex_task_step\<^sup>*\<^sup>* (ex_over (\<lambda>_. Cuts ''f'')) q \<and> ov_task q 0 = Uploaded (Inr (ex_cid ex_root))"
proof -
  let ?p = "ex_over (\<lambda>_. Cuts ''f'')"
  obtain h d e where "AddFile ex_storage ex_os (ex_rt [7] [ex_ep]) None ''f'' (ex_host, ex_disk, 0) = (Inr (ex_cid ex_root), (h, d, e))"
    by (rule ex_AddFile_at [where d = ex_disk and path = "''f''" and rt = "ex_rt [7] [ex_ep]" and ctx = None and e = 0, OF ex_disk_file])
  then have "AddFile ex_storage ex_os (ex_rt [7] [ex_ep]) None ''f'' (ov_node ?p) = (Inr (ex_cid ex_root), (h, d, e))"
    "ov_task ?p 0 = Cuts ''f''" by (simp_all add: ex_over_def)
  with overlap_refines [OF ex_storage_ok, where p = ?p and i = 0 and path = "''f''" and os = ex_os and rt = "ex_rt [7] [ex_ep]"
      and ctx = None and w = "\<lambda>_ _ _. None"]
  show ?thesis by (metis (no_types, lifting) fun_upd_same)
qed

end
