(* ===== verification/Spec2Isabelle.thy ===== *)
theory Spec2Isabelle
  imports NetworkFiles NodeLife CatalogNodes Overlap
begin

text \<open>
  A model of Chunkster, a content-addressed peer-to-peer file store written in Go, and proofs
  about it.

  \<^bold>\<open>The program.\<close> A node (\<open>cmd/node\<close>) keeps blocks on its disk, each under the hash of its
  bytes. A file is a list of blocks and a root block, a JSON object that lists their ids.
  Nodes know each other through a registry of at most twenty peers, which they fill from a
  bootstrap service (\<open>cmd/bootstrap\<close>) and from each other, and call each other by gRPC: to
  push replicas, to ask who provides a block, to fetch it. Three loops run beside the
  calls: bootstrap, heartbeat and cleanup; a fourth polls Redis where there is one. An HTTP
  interface (\<open>internal/api\<close>) and a local command line (\<open>internal/cli\<close>) stand in front.

  \<^bold>\<open>Theories.\<close> In the order they import each other:

  \<^item> \<open>Prelude\<close>: the Go types, the orders in which Go ranges over a map (\<open>is_order\<close>: any list of
    the keys, an argument of whatever ranges), reachability and the locale \<open>invariant_machine\<close>.
  \<^item> \<open>Peer\<close>: \<open>internal/peer/peer_registry.go\<close>, \<open>peer_state.go\<close>, \<open>utils/constants.go\<close>. Every
    method of \<open>Registry\<close>, pruning and eviction included; well-formedness, what each method
    does, and that the Redis commands mirror the map.
  \<^item> \<open>PeerManager\<close>: \<open>peer_manager.go\<close> and \<open>internal/heartbeat\<close>. What a sweep marks.
  \<^item> \<open>Providers\<close>: \<open>dht/provider_records.go\<close>. The table as a set of triples, the locale
    \<open>provider_index\<close>, and the table as a function of the history of announcements.
  \<^item> \<open>Scheduler\<close>: \<open>scheduler/cleanup.go\<close>. One tick, and the abstract node: registry and
    provider records under the events that change them, with the detection of silent peers.
  \<^item> \<open>Keys\<close>, \<open>RoutingTable\<close>: \<open>dht/xor_distance.go\<close>, \<open>dht/routing_table.go\<close>,
    \<open>replication/replica_selection.go\<close>. Hex keys, the XOR metric, and the selection of the
    nearest peers, with the panic of \<open>XOR\<close> on slices of different lengths.
  \<^item> \<open>Transport\<close>, \<open>Lookup\<close>, \<open>Replication\<close>: \<open>internal/network\<close>, \<open>dht/lookup.go\<close>,
    \<open>replication_manager.go\<close>, \<open>recovery.go\<close>. The connection pool and the client side of every
    call, over the parameter \<open>runtime\<close>.
  \<^item> \<open>Json\<close>, \<open>Merkle\<close>: the part of \<open>encoding/json\<close> in use, and \<open>internal/merkle\<close> on top of it.
  \<^item> \<open>Storage\<close>: files, and what is relied on of the block store.
  \<^item> \<open>PeerHost\<close>, \<open>FileTransfer\<close>, \<open>Catalog\<close>: \<open>coordinator/node.go\<close> and \<open>config.go\<close>. The operations
    of a node; then what uploads and downloads guarantee; then the global catalog.
  \<^item> \<open>GrpcService\<close>: \<open>coordinator/grpc_service.go\<close>. The eight handlers, and that each refines the
    abstract node of \<open>Scheduler\<close>.
  \<^item> \<open>BootstrapSync\<close>: \<open>coordinator/bootstrap_sync.go\<close> and the bootstrap loop of \<open>node.go\<close>.
  \<^item> \<open>StoreGrowth\<close>: what every operation does to the block store: it adds blocks, each under its
    own id, and removes none.
  \<^item> \<open>Http\<close>, \<open>Api\<close>, \<open>BootstrapServer\<close>: the response writer and the multiplexer of \<open>net/http\<close>, the
    handlers of \<open>internal/api\<close>, and \<open>cmd/bootstrap/main.go\<close>.
  \<^item> \<open>Flags\<close>, \<open>Cli\<close>, \<open>NodeMain\<close>: the package \<open>flag\<close>, \<open>internal/cli/cli.go\<close>, \<open>cmd/node\<close>.
  \<^item> \<open>NodeLocal\<close>, \<open>NodeRun\<close>, \<open>NodeLife\<close>: a whole node. What requests leave alone; the node as one
    machine, whose steps are its RPCs, HTTP requests, rounds of its loops, polls of Redis and
    restarts, with what every reachable state satisfies and what a node never loses; and the
    serving program (\<open>runServe\<close>) from its start to its shutdown.
  \<^item> \<open>Overlap\<close>: \<open>AddFile\<close> and \<open>GetFile\<close> cut where they use what a node shares between its
    goroutines, any number of them at once and other operations of the node between their steps:
    what downloads deliver and what uploads leave, whatever runs beside them, and that a call
    which is not interrupted is the one of \<open>PeerHost\<close>.
  \<^item> \<open>CatalogLock\<close>, \<open>CatalogRace\<close>, \<open>CatalogNodes\<close>: \<open>UpdateGlobalCatalog\<close> cut into its calls, for any
    number of updates at once. Any call of Redis may fail, also after it took effect. First the
    steps and the lock; then what the lock protects while it lasts and what is lost after, on one
    node; then the same for several nodes with one Redis that may stop in the middle of an update.
    The locale \<open>catalog_file\<close> states what both need of the file that is the catalog: at one node it
    is held in the store (\<open>kept\<close>), between nodes it is known by its id (\<open>known\<close>).
  \<^item> \<open>Calls\<close>, \<open>NodeCalls\<close>, \<open>Cluster\<close>: nodes that call each other. The runtime there is no
    parameter any more: it routes each call to the handlers of the node at the address. Which
    peers are down, which messages are lost and which orders are drawn remain arbitrary. Locales
    (\<open>push_relation\<close>, \<open>read_relation\<close>, \<open>client_relation\<close>, \<open>ping_relation\<close>, \<open>loop_relation\<close>,
    \<open>request_relation\<close>) carry a relation from single calls to uploads, downloads, loops and
    requests.
  \<^item> \<open>Roster\<close>, \<open>Network\<close>, \<open>NetworkRun\<close>, \<open>NetworkFiles\<close>: the whole system, nodes with their
    loops, users and HTTP interfaces, and the bootstrap service. Nodes start and stop at any
    time. What every node then believes is true; peers find each other; what was uploaded can be
    downloaded while its replica stays up; and what a restart loses.

  \<^bold>\<open>How code becomes definitions.\<close> A struct is a record of the same name whose fields carry a
  prefix; a pointer that is never nil is inlined. A method is a function of the same name on
  that record (\<open>prov_\<close> and \<open>svc_\<close> stand before the methods of provider records and of the
  service). A node is a triple of the \<open>PeerHost\<close>, its disk and the world outside. A Go error is
  a sum with the text of the error on the left; a panic is \<open>None\<close> or \<open>Panicked\<close>; a call that
  never returns is \<open>None\<close> of a partial function, or \<open>Hangs\<close>. Strings are lists of bytes as
  characters, and times are integers in nanoseconds. What another package or the Go runtime
  decides is an argument: the clock, the order of a map range, the order in which goroutines
  get the lock.

  \<^bold>\<open>Parameters and what is assumed of them.\<close> \<open>runtime\<close>: clock, orders, gRPC. Only that a drawn
  order lists every element once (\<open>runtime_ok\<close>); peers may answer anything. \<open>storage\<close>: the
  package \<open>internal/storage\<close>, which the repository ignores and does not contain. Its behaviour
  as \<open>docs/ARCHITECTURE.md\<close> describes it is \<open>storage_ok\<close> (an id is the hash of the bytes, 64 hex
  digits; what is put is got; a file is cut in pieces), with \<open>reopens\<close> for opening the same
  directory again. No hash is assumed to be injective: where two blocks with one id would make a
  difference the statement assumes the block \<open>unforgeable\<close>, or says what holds otherwise. \<open>os\<close>:
  which file operations fail. \<open>redis\<close>, \<open>http_client\<close>: any answers. Each of these has an
  instance (\<open>ex_storage\<close>, \<open>ex_os\<close>, \<open>ex_rt\<close>, \<open>ex_redis\<close>) that satisfies the assumptions, on which
  the witnesses compute. The ids of \<open>ex_storage\<close> have 64 digits, so they are not injective either.

  \<^bold>\<open>The network.\<close> \<open>NetworkRun\<close> assumes a closed deployment (\<open>roster_ok\<close>): at most twenty
  members, with ids and addresses of their own that they keep over restarts, written in ASCII,
  one bootstrap service, and no Redis; nobody else sends messages. Nodes and the service may be
  restarted at any time; the service then has lost its list. Each step is one
  request, upload or round of one node together with all the calls it makes; while it is at
  it, calls to this node fail. Requests and replies may be lost, to nodes and to the service.

  \<^bold>\<open>Bounds.\<close> The registry holds \<open>MaxNetworkPeers\<close>, twenty, entries; the insertion sort that
  models \<open>sort.SliceStable\<close> is the one Go runs up to twenty elements, so it is enough. The only
  fuel is that of \<open>strip_prefixes\<close> in \<open>TrimSpace\<close>, the length of the text, with a lemma that
  nothing is left to strip at the end. JSON is read down to the 10000 levels of the Go
  library. Waiting for the catalog lock is a partial function, proved to return within 21
  attempts when the lock of a crashed holder runs out. Go integers that occur are times, lengths
  and ports far below 2^63, and are unbounded here.

  \<^bold>\<open>Not modelled.\<close> The source of the block store, see above. Code generated from
  \<open>proto/node.proto\<close>, beyond its messages as records. Log output and standard error. TLS options
  and the details of gRPC, such as its limit on message sizes. Calls on one node that
  overlap inside their bodies are modelled where the body has steps between which others can come
  to matter: uploads and downloads (\<open>Overlap\<close>), updates of the catalog (\<open>CatalogLock\<close>) and the single
  operations on the registry and the records (\<open>Scheduler\<close>). Elsewhere a step is a whole call.
  \<open>RunRebalance\<close>, which only waits. The interface
  \<open>Host\<close> of \<open>internal/api\<close>, whose only implementation is used in its place. The deployment
  scripts. The other lines of the Go files that no definition models are imports, accessors and
  the logger.
\<close>

end
